(* ===== verification/Rust_Prelude.thy ===== *)
theory Rust_Prelude
  imports Main "HOL-Library.Sublist" "HOL-Library.Code_Target_Nat"
begin

text \<open>
  Shared vocabulary of the development: Rust strings as lists of Unicode scalar values, the
  parts of the standard string API that the modelled crates call, fallible results as sums,
  and the generic lemmas on lists and strings that the component theories rely on.

  A Rust \<^verbatim>\<open>char\<close> is its code point, a \<^verbatim>\<open>String\<close>/\<^verbatim>\<open>&str\<close> a list of them: \<^verbatim>\<open>chars()\<close> is the
  list itself, \<^verbatim>\<open>len()\<close> is \<open>utf8_len\<close>. \<^verbatim>\<open>usize\<close> counters are natural numbers: they are
  bounded by the size of a string or vector that is held in memory, or the code saturates them
  at \<open>usize_max\<close>, which is then written out.
  \<^verbatim>\<open>Result<T, E>\<close> is \<open>'e + 't\<close> with \<open>Inl\<close> for \<^verbatim>\<open>Err\<close>.
\<close>

section \<open>Characters and strings\<close>

type_synonym rchar = nat
type_synonym rstring = "nat list"

definition lit :: "string \<Rightarrow> rstring" where
  "lit s = map of_char s"

abbreviation newline :: rchar where "newline \<equiv> 10"
abbreviation carriage_return :: rchar where "carriage_return \<equiv> 13"

text \<open>\<^verbatim>\<open>char::is_whitespace\<close>: the Unicode property \<^verbatim>\<open>White_Space\<close>.\<close>

definition is_whitespace :: "rchar \<Rightarrow> bool" where
  "is_whitespace c \<longleftrightarrow>
     9 \<le> c \<and> c \<le> 13 \<or> c = 32 \<or> c = 133 \<or> c = 160 \<or> c = 5760 \<or>
     8192 \<le> c \<and> c \<le> 8202 \<or> c = 8232 \<or> c = 8233 \<or> c = 8239 \<or> c = 8287 \<or> c = 12288"

definition is_ascii_digit :: "rchar \<Rightarrow> bool" where
  "is_ascii_digit c \<longleftrightarrow> 48 \<le> c \<and> c \<le> 57"

definition to_ascii_lowercase :: "rstring \<Rightarrow> rstring" where
  "to_ascii_lowercase s = map (\<lambda>c. if 65 \<le> c \<and> c \<le> 90 then c + 32 else c) s"

definition len_utf8 :: "rchar \<Rightarrow> nat" where
  "len_utf8 c = (if c < 128 then 1 else if c < 2048 then 2 else if c < 65536 then 3 else 4)"

definition utf8_len :: "rstring \<Rightarrow> nat" where
  "utf8_len s = sum_list (map len_utf8 s)"

definition trim_start :: "rstring \<Rightarrow> rstring" where
  "trim_start s = dropWhile is_whitespace s"

definition trim_end :: "rstring \<Rightarrow> rstring" where
  "trim_end s = rev (dropWhile is_whitespace (rev s))"

definition trim :: "rstring \<Rightarrow> rstring" where
  "trim s = trim_end (trim_start s)"

definition trim_end_matches :: "rchar \<Rightarrow> rstring \<Rightarrow> rstring" where
  "trim_end_matches c s = rev (dropWhile (\<lambda>x. x = c) (rev s))"

fun strip_prefix :: "rstring \<Rightarrow> rstring \<Rightarrow> rstring option" where
  "strip_prefix [] s = Some s"
| "strip_prefix (p # ps) [] = None"
| "strip_prefix (p # ps) (c # s) = (if c = p then strip_prefix ps s else None)"

definition strip_suffix :: "rstring \<Rightarrow> rstring \<Rightarrow> rstring option" where
  "strip_suffix p s = map_option rev (strip_prefix (rev p) (rev s))"

definition starts_with :: "rstring \<Rightarrow> rstring \<Rightarrow> bool" where
  "starts_with p s \<longleftrightarrow> strip_prefix p s \<noteq> None"

definition ends_with :: "rstring \<Rightarrow> rstring \<Rightarrow> bool" where
  "ends_with p s \<longleftrightarrow> strip_suffix p s \<noteq> None"

text \<open>\<^verbatim>\<open>str::contains\<close> for a pattern string.\<close>

fun contains_str :: "rstring \<Rightarrow> rstring \<Rightarrow> bool" where
  "contains_str p [] = (p = [])"
| "contains_str p (c # s) = (starts_with p (c # s) \<or> contains_str p s)"

text \<open>\<^verbatim>\<open>str::split(c)\<close>: always at least one piece.\<close>

fun split_on :: "rchar \<Rightarrow> rstring \<Rightarrow> rstring list" where
  "split_on c [] = [[]]"
| "split_on c (x # xs) =
     (if x = c then [] # split_on c xs
      else (case split_on c xs of [] \<Rightarrow> [[x]] | w # ws \<Rightarrow> (x # w) # ws))"

text \<open>\<^verbatim>\<open>str::split_once(c)\<close> and \<^verbatim>\<open>str::rsplit_once(c)\<close> for a single character.\<close>

fun split_once :: "rchar \<Rightarrow> rstring \<Rightarrow> (rstring \<times> rstring) option" where
  "split_once c [] = None"
| "split_once c (x # xs) =
     (if x = c then Some ([], xs)
      else map_option (\<lambda>(a, b). (x # a, b)) (split_once c xs))"

definition rsplit_once :: "rchar \<Rightarrow> rstring \<Rightarrow> (rstring \<times> rstring) option" where
  "rsplit_once c s = map_option (\<lambda>(b, a). (rev a, rev b)) (split_once c (rev s))"

text \<open>\<^verbatim>\<open>[T]::join(sep)\<close> for strings.\<close>

fun join :: "rstring \<Rightarrow> rstring list \<Rightarrow> rstring" where
  "join sep [] = []"
| "join sep [x] = x"
| "join sep (x # y # zs) = x @ sep @ join sep (y # zs)"

text \<open>
  \<^verbatim>\<open>str::lines\<close>: pieces ended by a line feed lose it and one carriage return before it; a
  last piece without line feed is a line only when it is not empty, and is kept as it is.
\<close>

definition strip_cr :: "rstring \<Rightarrow> rstring" where
  "strip_cr s = (case strip_suffix [carriage_return] s of Some s' \<Rightarrow> s' | None \<Rightarrow> s)"

definition str_lines :: "rstring \<Rightarrow> rstring list" where
  "str_lines s =
     (let ps = split_on newline s
      in map strip_cr (butlast ps) @ (if last ps = [] then [] else [last ps]))"

text \<open>\<^verbatim>\<open>slice::last\<close> and an in-place update of the last element through \<^verbatim>\<open>last_mut\<close>.\<close>

definition last_opt :: "'a list \<Rightarrow> 'a option" where
  "last_opt xs = (if xs = [] then None else Some (last xs))"

definition map_last :: "('a \<Rightarrow> 'a) \<Rightarrow> 'a list \<Rightarrow> 'a list" where
  "map_last f xs = (if xs = [] then [] else butlast xs @ [f (last xs)])"

definition first_opt :: "'a list \<Rightarrow> 'a option" where
  "first_opt xs = (case xs of [] \<Rightarrow> None | x # _ \<Rightarrow> Some x)"

text \<open>Saturating arithmetic of \<^verbatim>\<open>usize\<close> on a 64-bit target.\<close>

definition usize_max :: nat where
  "usize_max = 2 ^ 64 - 1"

lemma usize_max_code [code]: "usize_max = 18446744073709551615"
  by (simp add: usize_max_def)

definition saturating_add :: "nat \<Rightarrow> nat \<Rightarrow> nat" where
  "saturating_add a b = min usize_max (a + b)"

definition saturating_mul :: "nat \<Rightarrow> nat \<Rightarrow> nat" where
  "saturating_mul a b = min usize_max (a * b)"

text \<open>The decimal rendering that \<^verbatim>\<open>format!\<close> gives an unsigned number.\<close>

fun show_nat :: "nat \<Rightarrow> rstring" where
  "show_nat n = (if n < 10 then [48 + n] else show_nat (n div 10) @ [48 + n mod 10])"

declare show_nat.simps [simp del]

text \<open>
  Slicing at a byte offset: \<open>None\<close> when the offset is past the end or inside a character, where
  \<^verbatim>\<open>&s[..n]\<close> panics and \<^verbatim>\<open>s.get(..n)\<close> is \<^verbatim>\<open>None\<close>.
\<close>

fun byte_split :: "nat \<Rightarrow> rstring \<Rightarrow> (rstring \<times> rstring) option" where
  "byte_split n s =
     (if n = 0 then Some ([], s)
      else (case s of
              [] \<Rightarrow> None
            | c # s' \<Rightarrow>
                if n < len_utf8 c then None
                else map_option (\<lambda>(a, b). (c # a, b)) (byte_split (n - len_utf8 c) s')))"

declare byte_split.simps [simp del]

definition eq_ignore_ascii_case :: "rstring \<Rightarrow> rstring \<Rightarrow> bool" where
  "eq_ignore_ascii_case s t \<longleftrightarrow> to_ascii_lowercase s = to_ascii_lowercase t"

text \<open>\<^verbatim>\<open>Vec::insert\<close> panics when the index is past the end: \<open>None\<close>.\<close>

definition vec_insert :: "nat \<Rightarrow> 'a \<Rightarrow> 'a list \<Rightarrow> 'a list option" where
  "vec_insert i x xs = (if i \<le> length xs then Some (take i xs @ x # drop i xs) else None)"

definition vec_remove :: "nat \<Rightarrow> 'a list \<Rightarrow> 'a list" where
  "vec_remove i xs = take i xs @ drop (Suc i) xs"


section \<open>Lemmas on the string API\<close>

named_theorems str_simps \<open>rewrite rules for the string API\<close>

lemma strip_prefix_append [simp]: "strip_prefix p (p @ s) = Some s"
  by (induction p) auto

lemma strip_prefix_Some_iff: "strip_prefix p s = Some r \<longleftrightarrow> s = p @ r"
  by (induction p s rule: strip_prefix.induct) auto

lemma strip_prefix_None_iff: "strip_prefix p s = None \<longleftrightarrow> \<not> prefix p s"
  by (induction p s rule: strip_prefix.induct) auto

lemma strip_suffix_Some_iff: "strip_suffix p s = Some r \<longleftrightarrow> s = r @ p"
proof -
  have "strip_suffix p s = Some r \<longleftrightarrow> rev s = rev p @ rev r"
    by (auto simp: strip_suffix_def strip_prefix_Some_iff)
  also have "\<dots> \<longleftrightarrow> s = r @ p"
    by (metis rev_append rev_rev_ident)
  finally show ?thesis .
qed

lemma starts_with_iff: "starts_with p s \<longleftrightarrow> prefix p s"
  by (simp add: starts_with_def strip_prefix_None_iff)

lemma ends_with_iff: "ends_with p s \<longleftrightarrow> suffix p s"
  by (auto simp: ends_with_def strip_suffix_Some_iff suffix_def)

lemma contains_str_iff: "contains_str p s \<longleftrightarrow> sublist p s"
  by (induction p s rule: contains_str.induct)
    (auto simp: starts_with_iff sublist_Cons_right)

lemma lit_Nil [simp]: "lit [] = []" and lit_Cons: "lit (c # cs) = of_char c # lit cs"
  by (simp_all add: lit_def)

lemma lit_eq_Nil_iff [simp]: "lit s = [] \<longleftrightarrow> s = []"
  by (simp add: lit_def)

lemma trim_end_Nil [simp]: "trim_end [] = []"
  by (simp add: trim_end_def)

lemma trim_end_snoc [str_simps]:
  "trim_end (s @ [c]) = (if is_whitespace c then trim_end s else s @ [c])"
  by (simp add: trim_end_def)

lemma trim_start_Cons [str_simps]:
  "trim_start (c # s) = (if is_whitespace c then trim_start s else c # s)"
  by (simp add: trim_start_def)

lemma trim_start_Nil [simp]: "trim_start [] = []"
  by (simp add: trim_start_def)

lemma trim_end_Cons_nonws: "\<not> is_whitespace c \<Longrightarrow> trim_end (c # s) = c # trim_end s"
  by (simp add: trim_end_def dropWhile_append)

lemma trim_Cons_nonws: "\<not> is_whitespace c \<Longrightarrow> trim (c # s) = c # trim_end s"
  by (simp add: trim_def trim_start_Cons trim_end_Cons_nonws)

lemma trim_end_id: "s \<noteq> [] \<Longrightarrow> \<not> is_whitespace (last s) \<Longrightarrow> trim_end s = s"
  by (metis append_butlast_last_id trim_end_snoc)

lemma trim_end_append_nonws:
  "t \<noteq> [] \<Longrightarrow> \<not> is_whitespace (last t) \<Longrightarrow> trim_end (s @ t) = s @ t"
  by (simp add: trim_end_id)

lemma trim_id:
  "s \<noteq> [] \<Longrightarrow> \<not> is_whitespace (hd s) \<Longrightarrow> \<not> is_whitespace (last s) \<Longrightarrow> trim s = s"
  by (cases s) (simp_all add: trim_def trim_start_Cons trim_end_id)

lemma trim_Nil [simp]: "trim [] = []"
  by (simp add: trim_def)

lemma trim_end_idem [simp]: "trim_end (trim_end s) = trim_end s"
proof (cases "trim_end s = []")
  case False
  then have "\<not> is_whitespace (last (trim_end s))"
    by (simp add: trim_end_def last_rev hd_dropWhile)
  with False show ?thesis by (rule trim_end_id)
qed simp

lemma trim_start_snoc:
  "trim_start (s @ [c]) = (if trim_start s = [] then trim_start [c] else trim_start s @ [c])"
  by (induction s) (auto simp: trim_start_Cons)

lemma trim_start_trim_end: "trim_start (trim_end s) = trim_end (trim_start s)"
proof (induction s rule: rev_induct)
  case (snoc c s)
  then show ?case
    using trim_end_snoc [of "[]" c] by (auto simp: str_simps trim_start_snoc)
qed simp

lemma trim_trim_end: "trim (trim_end s) = trim s"
  by (simp add: trim_def trim_start_trim_end)

lemma trim_end_eq_imp_trim_eq: "trim_end s = trim_end t \<Longrightarrow> trim s = trim t"
  by (metis trim_trim_end)

lemma set_trim_end: "set (trim_end s) \<subseteq> set s"
  unfolding trim_end_def by (metis set_rev set_dropWhileD subsetI)

lemma set_trim: "set (trim s) \<subseteq> set s"
  unfolding trim_def trim_start_def using set_trim_end set_dropWhileD by fastforce


section \<open>Lemmas on splitting and joining\<close>

lemma split_on_not_Nil [simp]: "split_on c s \<noteq> []"
  by (induction s) (auto split: list.splits)

lemma split_on_Cons_neq:
  "x \<noteq> c \<Longrightarrow> split_on c (x # xs) = (x # hd (split_on c xs)) # tl (split_on c xs)"
  by (auto split: list.splits)

lemma split_on_id: "c \<notin> set s \<Longrightarrow> split_on c s = [s]"
  by (induction s) auto

lemma split_on_append: "c \<notin> set s \<Longrightarrow> split_on c (s @ c # t) = s # split_on c t"
  by (induction s) auto

lemma split_on_pieces: "w \<in> set (split_on c s) \<Longrightarrow> c \<notin> set w"
proof (induction s arbitrary: w)
  case (Cons x s)
  then show ?case by (cases "split_on c s") (auto split: if_splits)
qed simp

lemma join_Cons: "xs \<noteq> [] \<Longrightarrow> join sep (x # xs) = x @ sep @ join sep xs"
  by (cases xs) auto

lemma join_hd_tl: "xs \<noteq> [] \<Longrightarrow> join sep ((c # hd xs) # tl xs) = c # join sep xs"
  by (cases xs rule: list.exhaust; cases "tl xs") auto

lemma join_split_on [simp]: "join [c] (split_on c s) = s"
proof (induction s)
  case (Cons x s)
  show ?case
  proof (cases "x = c")
    case True
    with Cons show ?thesis by (simp add: join_Cons)
  next
    case False
    with Cons show ?thesis
      by (simp add: split_on_Cons_neq join_hd_tl del: split_on.simps)
  qed
qed simp

lemma split_on_join:
  "xs \<noteq> [] \<Longrightarrow> (\<And>x. x \<in> set xs \<Longrightarrow> c \<notin> set x) \<Longrightarrow> split_on c (join [c] xs) = xs"
  by (induction "[c]" xs rule: join.induct) (auto simp: split_on_id split_on_append)

lemma join_append:
  "xs \<noteq> [] \<Longrightarrow> ys \<noteq> [] \<Longrightarrow> join sep (xs @ ys) = join sep xs @ sep @ join sep ys"
  by (induction sep xs rule: join.induct) (auto simp: join_Cons)

lemma strip_cr_id: "s = [] \<or> last s \<noteq> carriage_return \<Longrightarrow> strip_cr s = s"
  by (auto simp: strip_cr_def strip_suffix_Some_iff split: option.splits)

lemma str_lines_join:
  assumes "xs \<noteq> []" and "\<And>x. x \<in> set xs \<Longrightarrow> newline \<notin> set x"
    and "\<And>x. x \<in> set (butlast xs) \<Longrightarrow> x = [] \<or> last x \<noteq> carriage_return"
    and "last xs \<noteq> []"
  shows "str_lines (join [newline] xs) = xs"
proof -
  have "split_on newline (join [newline] xs) = xs"
    using assms(1,2) by (rule split_on_join)
  moreover have "map strip_cr (butlast xs) = butlast xs"
    using assms(3) by (simp add: map_idI strip_cr_id)
  ultimately show ?thesis
    using assms(1,4) by (simp add: str_lines_def)
qed


section \<open>Lemmas on lists\<close>

lemma last_opt_Nil [simp]: "last_opt [] = None"
  and last_opt_snoc [simp]: "last_opt (xs @ [x]) = Some x"
  by (simp_all add: last_opt_def)

lemma last_opt_Some_iff: "last_opt xs = Some x \<longleftrightarrow> (\<exists>ys. xs = ys @ [x])"
  by (auto simp: last_opt_def intro: append_butlast_last_id [symmetric])

lemma last_opt_None_iff [simp]: "last_opt xs = None \<longleftrightarrow> xs = []"
  by (simp add: last_opt_def)

lemma map_last_Nil [simp]: "map_last f [] = []"
  and map_last_snoc [simp]: "map_last f (xs @ [x]) = xs @ [f x]"
  by (simp_all add: map_last_def)

lemma length_map_last [simp]: "length (map_last f xs) = length xs"
  by (simp add: map_last_def)

lemma map_sum_eq_Inr_iff: "map_sum f g x = Inr y \<longleftrightarrow> (\<exists>z. x = Inr z \<and> y = g z)"
  by (cases x) auto

lemma vec_insert_length: "vec_insert i x xs = Some ys \<Longrightarrow> length ys = Suc (length xs)"
  by (auto simp: vec_insert_def split: if_splits)



section \<open>Lemmas on byte offsets\<close>

lemma len_utf8_pos [simp]: "0 < len_utf8 c"
  by (simp add: len_utf8_def)

lemma utf8_len_Nil [simp]: "utf8_len [] = 0"
  and utf8_len_Cons [simp]: "utf8_len (c # s) = len_utf8 c + utf8_len s"
  and utf8_len_append [simp]: "utf8_len (s @ t) = utf8_len s + utf8_len t"
  by (simp_all add: utf8_len_def)

lemma utf8_len_eq_0_iff [simp]: "utf8_len s = 0 \<longleftrightarrow> s = []"
  by (cases s) (simp_all add: len_utf8_pos [THEN gr_implies_not0])

lemma length_le_utf8_len: "length s \<le> utf8_len s"
proof (induction s)
  case (Cons c s)
  have "Suc 0 \<le> len_utf8 c" by (simp add: Suc_le_eq)
  with Cons show ?case by simp
qed simp

lemma byte_split_0 [simp]: "byte_split 0 s = Some ([], s)"
  by (simp add: byte_split.simps)

lemma byte_split_append: "byte_split (utf8_len s) (s @ t) = Some (s, t)"
proof (induction s)
  case (Cons c s)
  then show ?case by (subst byte_split.simps) simp
qed simp

lemma byte_split_Some: "byte_split n s = Some (a, b) \<longleftrightarrow> s = a @ b \<and> utf8_len a = n"
proof
  show "byte_split n s = Some (a, b) \<Longrightarrow> s = a @ b \<and> utf8_len a = n"
  proof (induction n s arbitrary: a b rule: byte_split.induct)
    case (1 n s)
    show ?case
    proof (cases "n = 0")
      case False
      with "1.prems" obtain c s' a' where s: "s = c # s'" and le: "len_utf8 c \<le> n"
        and a: "a = c # a'" and rec: "byte_split (n - len_utf8 c) s' = Some (a', b)"
        by (subst (asm) byte_split.simps) (auto split: list.splits if_splits)
      have "s' = a' @ b \<and> utf8_len a' = n - len_utf8 c"
        using "1.IH" [OF False s _ rec] le by simp
      with s a le show ?thesis by simp
    qed (use "1.prems" in simp)
  qed
qed (auto intro: byte_split_append)

end
