(* ===== verification/Patch_Parser.thy ===== *)
theory Patch_Parser
  imports Rust_Prelude
begin

text \<open>
  The patch language of \<^verbatim>\<open>codex-rs/apply-patch\<close>: \<^verbatim>\<open>src/parser.rs\<close> (markers, hunks, boundary
  checks, \<^verbatim>\<open>parse_patch\<close>) and \<^verbatim>\<open>src/streaming_parser.rs\<close> (the incremental line parser).

  A method that takes \<^verbatim>\<open>&mut self\<close> is a function that returns the new parser. No branch of
  \<^verbatim>\<open>process_line\<close> mutates the parser and then fails, so the line handlers return
  \<open>parse_error + parser\<close>; \<^verbatim>\<open>push_delta\<close> and \<^verbatim>\<open>finish\<close>, which do consume input before they fail,
  return the result together with the parser they leave behind.
\<close>

section \<open>Markers, hunks and errors (parser.rs)\<close>

definition BEGIN_PATCH_MARKER :: rstring where "BEGIN_PATCH_MARKER = lit ''*** Begin Patch''"
definition END_PATCH_MARKER :: rstring where "END_PATCH_MARKER = lit ''*** End Patch''"
definition ADD_FILE_MARKER :: rstring where "ADD_FILE_MARKER = lit ''*** Add File: ''"
definition DELETE_FILE_MARKER :: rstring where "DELETE_FILE_MARKER = lit ''*** Delete File: ''"
definition UPDATE_FILE_MARKER :: rstring where "UPDATE_FILE_MARKER = lit ''*** Update File: ''"
definition MOVE_TO_MARKER :: rstring where "MOVE_TO_MARKER = lit ''*** Move to: ''"
definition EOF_MARKER :: rstring where "EOF_MARKER = lit ''*** End of File''"
definition CHANGE_CONTEXT_MARKER :: rstring where "CHANGE_CONTEXT_MARKER = lit ''@@ ''"
definition EMPTY_CHANGE_CONTEXT_MARKER :: rstring where "EMPTY_CHANGE_CONTEXT_MARKER = lit ''@@''"
definition ENVIRONMENT_ID_MARKER :: rstring where
  "ENVIRONMENT_ID_MARKER = lit ''*** Environment ID:''"

lemmas marker_defs =
  BEGIN_PATCH_MARKER_def END_PATCH_MARKER_def ADD_FILE_MARKER_def DELETE_FILE_MARKER_def
  UPDATE_FILE_MARKER_def MOVE_TO_MARKER_def EOF_MARKER_def CHANGE_CONTEXT_MARKER_def
  EMPTY_CHANGE_CONTEXT_MARKER_def ENVIRONMENT_ID_MARKER_def

datatype parse_error =
    InvalidPatchError rstring
  | InvalidHunkError (message: rstring) (error_line: nat)

record update_file_chunk =
  change_context :: "rstring option"
  old_lines :: "rstring list"
  new_lines :: "rstring list"
  is_end_of_file :: bool

datatype hunk =
    AddFile rstring rstring
  | DeleteFile rstring
  | UpdateFile rstring "rstring option" "update_file_chunk list"

text \<open>\<^verbatim>\<open>Hunk::path\<close>: the path a hunk affects, the destination for a rename.\<close>

fun hunk_path :: "hunk \<Rightarrow> rstring" where
  "hunk_path (AddFile path contents) = path"
| "hunk_path (DeleteFile path) = path"
| "hunk_path (UpdateFile path (Some move_path) chunks) = move_path"
| "hunk_path (UpdateFile path None chunks) = path"

text \<open>The path that \<^verbatim>\<open>Hunk::resolve_path\<close> joins to the working directory: the source of a rename.\<close>

fun hunk_source_path :: "hunk \<Rightarrow> rstring" where
  "hunk_source_path (UpdateFile path move_path chunks) = path"
| "hunk_source_path h = hunk_path h"


section \<open>The streaming parser (streaming\_parser.rs)\<close>

datatype parser_mode =
    NotStarted
  | StartedPatch
  | AddFileMode
  | DeleteFileMode
  | UpdateFileMode nat
  | EndedPatch

record patch_parser =
  line_buffer :: rstring
  mode :: parser_mode
  hunks :: "hunk list"
  environment_id :: "rstring option"
  line_number :: nat

definition default_parser :: patch_parser where
  "default_parser =
     \<lparr>line_buffer = [], mode = NotStarted, hunks = [], environment_id = None, line_number = 0\<rparr>"

definition empty_chunk :: "rstring option \<Rightarrow> update_file_chunk" where
  "empty_chunk ctx = \<lparr>change_context = ctx, old_lines = [], new_lines = [], is_end_of_file = False\<rparr>"

definition chunk_has_no_lines :: "update_file_chunk \<Rightarrow> bool" where
  "chunk_has_no_lines c \<longleftrightarrow> old_lines c = [] \<and> new_lines c = []"

definition last_chunk_has_no_lines :: "update_file_chunk list \<Rightarrow> bool" where
  "last_chunk_has_no_lines chunks \<longleftrightarrow>
     (case last_opt chunks of None \<Rightarrow> False | Some c \<Rightarrow> chunk_has_no_lines c)"

definition msg_update_hunk_empty :: "rstring \<Rightarrow> rstring" where
  "msg_update_hunk_empty path =
     lit ''Update file hunk for path '' @ lit [CHR 0x27] @ path @ lit [CHR 0x27] @ lit '' is empty''"

definition msg_no_lines :: rstring where
  "msg_no_lines = lit ''Update hunk does not contain any lines''"

definition msg_unexpected_line :: "rstring \<Rightarrow> rstring" where
  "msg_unexpected_line line =
     lit ''Unexpected line found in update hunk: '' @ lit [CHR 0x27] @ line @ lit [CHR 0x27] @
     lit ''. Every line should start with '' @ lit [CHR 0x27, CHR 0x20, CHR 0x27] @
     lit '' (context line), '' @ lit [CHR 0x27, CHR 0x2B, CHR 0x27] @
     lit '' (added line), or '' @ lit [CHR 0x27, CHR 0x2D, CHR 0x27] @ lit '' (removed line)''"

definition msg_expected_context :: "rstring \<Rightarrow> rstring" where
  "msg_expected_context line =
     lit ''Expected update hunk to start with a @@ context marker, got: '' @
     lit [CHR 0x27] @ line @ lit [CHR 0x27]"

definition msg_bad_header :: "rstring \<Rightarrow> rstring" where
  "msg_bad_header trimmed =
     lit [CHR 0x27] @ trimmed @ lit [CHR 0x27] @
     lit '' is not a valid hunk header. Valid hunk headers: '' @
     lit [CHR 0x27] @ lit ''*** Add File: {path}'' @ lit [CHR 0x27] @ lit '', '' @
     lit [CHR 0x27] @ lit ''*** Delete File: {path}'' @ lit [CHR 0x27] @ lit '', '' @
     lit [CHR 0x27] @ lit ''*** Update File: {path}'' @ lit [CHR 0x27]"

definition msg_first_line :: rstring where
  "msg_first_line =
     lit ''The first line of the patch must be '' @ lit [CHR 0x27] @ BEGIN_PATCH_MARKER @ lit [CHR 0x27]"

definition msg_last_line :: rstring where
  "msg_last_line =
     lit ''The last line of the patch must be '' @ lit [CHR 0x27] @ END_PATCH_MARKER @ lit [CHR 0x27]"

definition msg_env_twice :: rstring where
  "msg_env_twice = lit ''apply_patch environment_id cannot be specified more than once''"

definition msg_env_empty :: rstring where
  "msg_env_empty = lit ''apply_patch environment_id cannot be empty''"

definition ensure_update_hunk_is_not_empty :: "patch_parser \<Rightarrow> rstring \<Rightarrow> parse_error option" where
  "ensure_update_hunk_is_not_empty p line =
     (case last_opt (hunks p) of
        Some (UpdateFile path move_path chunks) \<Rightarrow>
          (case (chunks, mode p) of
             ([], UpdateFileMode hunk_line_number) \<Rightarrow>
               Some (InvalidHunkError (msg_update_hunk_empty path) hunk_line_number)
           | _ \<Rightarrow>
               if last_chunk_has_no_lines chunks then
                 (if line = END_PATCH_MARKER then Some (InvalidHunkError msg_no_lines (line_number p))
                  else Some (InvalidHunkError (msg_unexpected_line line) (line_number p)))
               else None)
      | _ \<Rightarrow> None)"

text \<open>
  \<^verbatim>\<open>handle_hunk_headers_and_end_patch\<close>: \<open>Inr None\<close> is \<^verbatim>\<open>Ok(false)\<close> (the line is no header), and
  \<open>Inr (Some p')\<close> is \<^verbatim>\<open>Ok(true)\<close> with the parser it leaves.
\<close>

definition handle_environment_id ::
  "patch_parser \<Rightarrow> rstring \<Rightarrow> parse_error + patch_parser" where
  "handle_environment_id p rest =
     (if environment_id p \<noteq> None then Inl (InvalidPatchError msg_env_twice)
      else let env = trim rest in
        if env = [] then Inl (InvalidPatchError msg_env_empty)
        else Inr (p\<lparr>environment_id := Some env\<rparr>))"

definition begin_hunk ::
  "patch_parser \<Rightarrow> rstring \<Rightarrow> hunk list \<Rightarrow> parser_mode \<Rightarrow> parse_error + patch_parser option" where
  "begin_hunk p trimmed new_hunks m =
     (case ensure_update_hunk_is_not_empty p trimmed of
        Some e \<Rightarrow> Inl e
      | None \<Rightarrow> Inr (Some (p\<lparr>hunks := hunks p @ new_hunks, mode := m\<rparr>)))"

definition handle_hunk_headers_and_end_patch ::
  "patch_parser \<Rightarrow> rstring \<Rightarrow> parse_error + patch_parser option" where
  "handle_hunk_headers_and_end_patch p trimmed =
     (case (if mode p = StartedPatch then strip_prefix ENVIRONMENT_ID_MARKER trimmed else None) of
        Some rest \<Rightarrow> map_sum id Some (handle_environment_id p rest)
      | None \<Rightarrow>
     if trimmed = END_PATCH_MARKER then begin_hunk p trimmed [] EndedPatch
     else (case strip_prefix ADD_FILE_MARKER trimmed of
        Some path \<Rightarrow> begin_hunk p trimmed [AddFile path []] AddFileMode
      | None \<Rightarrow>
     (case strip_prefix DELETE_FILE_MARKER trimmed of
        Some path \<Rightarrow> begin_hunk p trimmed [DeleteFile path] DeleteFileMode
      | None \<Rightarrow>
     (case strip_prefix UPDATE_FILE_MARKER trimmed of
        Some path \<Rightarrow>
          begin_hunk p trimmed [UpdateFile path None []] (UpdateFileMode (line_number p))
      | None \<Rightarrow> Inr None))))"

text \<open>The chunk that a diff line extends; one without context is opened for the first line.\<close>

definition ensure_chunk :: "update_file_chunk list \<Rightarrow> update_file_chunk list" where
  "ensure_chunk chunks = (if chunks = [] then [empty_chunk None] else chunks)"

definition push_old :: "rstring \<Rightarrow> update_file_chunk \<Rightarrow> update_file_chunk" where
  "push_old l c = c\<lparr>old_lines := old_lines c @ [l]\<rparr>"

definition push_new :: "rstring \<Rightarrow> update_file_chunk \<Rightarrow> update_file_chunk" where
  "push_new l c = c\<lparr>new_lines := new_lines c @ [l]\<rparr>"

definition is_context_marker :: "rstring \<Rightarrow> bool" where
  "is_context_marker l \<longleftrightarrow> l = EMPTY_CHANGE_CONTEXT_MARKER \<or> starts_with CHANGE_CONTEXT_MARKER l"

text \<open>
  The body of the \<^verbatim>\<open>UpdateFile\<close> arm of \<^verbatim>\<open>process_line\<close> once the line is known to be no header:
  the new \<^verbatim>\<open>move_path\<close> and \<^verbatim>\<open>chunks\<close> of the current hunk, or the error.
\<close>

definition update_line_step ::
  "nat \<Rightarrow> rstring \<Rightarrow> rstring option \<Rightarrow> update_file_chunk list \<Rightarrow>
   parse_error + rstring option \<times> update_file_chunk list" where
  "update_line_step ln line move_path chunks =
     (let update_line = trim_end line;
          at_eof = (case last_opt chunks of None \<Rightarrow> False | Some c \<Rightarrow> is_end_of_file c) in
      if at_eof \<and> update_line = [] then Inr (move_path, chunks)
      else if at_eof \<and> \<not> is_context_marker update_line then
        Inl (InvalidHunkError (msg_expected_context line) ln)
      else (case (if chunks = [] \<and> move_path = None
                  then strip_prefix MOVE_TO_MARKER update_line else None) of
        Some move_to_path \<Rightarrow> Inr (Some move_to_path, chunks)
      | None \<Rightarrow>
      if is_context_marker update_line \<and> last_chunk_has_no_lines chunks then
        Inl (InvalidHunkError (msg_unexpected_line line) ln)
      else if update_line = EMPTY_CHANGE_CONTEXT_MARKER then
        Inr (move_path, chunks @ [empty_chunk None])
      else (case strip_prefix CHANGE_CONTEXT_MARKER update_line of
        Some ctx \<Rightarrow> Inr (move_path, chunks @ [empty_chunk (Some ctx)])
      | None \<Rightarrow>
      if update_line = EOF_MARKER then
        (if last_chunk_has_no_lines chunks then Inl (InvalidHunkError msg_no_lines ln)
         else Inr (move_path, map_last (\<lambda>c. c\<lparr>is_end_of_file := True\<rparr>) chunks))
      else (case line of
        [] \<Rightarrow> Inr (move_path, map_last (push_new [] \<circ> push_old []) (ensure_chunk chunks))
      | c # rest \<Rightarrow>
          if c = 32 then
            Inr (move_path, map_last (push_new rest \<circ> push_old rest) (ensure_chunk chunks))
          else if c = 43 then Inr (move_path, map_last (push_new rest) (ensure_chunk chunks))
          else if c = 45 then Inr (move_path, map_last (push_old rest) (ensure_chunk chunks))
          else if (case last_opt chunks of None \<Rightarrow> False | Some ch \<Rightarrow> \<not> chunk_has_no_lines ch) then
            Inl (InvalidHunkError (msg_expected_context line) ln)
          else Inl (InvalidHunkError (msg_unexpected_line line) ln)))))"

definition process_update_line ::
  "patch_parser \<Rightarrow> nat \<Rightarrow> rstring \<Rightarrow> parse_error + patch_parser" where
  "process_update_line p hunk_line_number line =
     (case handle_hunk_headers_and_end_patch p (trim_end line) of
        Inl e \<Rightarrow> Inl e
      | Inr (Some p') \<Rightarrow> Inr p'
      | Inr None \<Rightarrow>
          (case last_opt (hunks p) of
             Some (UpdateFile path move_path chunks) \<Rightarrow>
               (case update_line_step (line_number p) line move_path chunks of
                  Inl e \<Rightarrow> Inl e
                | Inr (move_path', chunks') \<Rightarrow>
                    Inr (p\<lparr>hunks := butlast (hunks p) @ [UpdateFile path move_path' chunks'],
                           mode := UpdateFileMode hunk_line_number\<rparr>))
           | _ \<Rightarrow> Inl (InvalidHunkError (msg_unexpected_line line) (line_number p))))"

definition process_add_line :: "patch_parser \<Rightarrow> rstring \<Rightarrow> parse_error + patch_parser" where
  "process_add_line p line =
     (case handle_hunk_headers_and_end_patch p (trim line) of
        Inl e \<Rightarrow> Inl e
      | Inr (Some p') \<Rightarrow> Inr p'
      | Inr None \<Rightarrow>
          (case (line, last_opt (hunks p)) of
             (c # line_to_add, Some (AddFile path contents)) \<Rightarrow>
               if c = 43 then
                 Inr (p\<lparr>hunks := butlast (hunks p) @ [AddFile path (contents @ line_to_add @ [newline])]\<rparr>)
               else Inl (InvalidHunkError (msg_bad_header (trim line)) (line_number p))
           | _ \<Rightarrow> Inl (InvalidHunkError (msg_bad_header (trim line)) (line_number p))))"

definition process_header_line :: "patch_parser \<Rightarrow> rstring \<Rightarrow> parse_error + patch_parser" where
  "process_header_line p line =
     (case handle_hunk_headers_and_end_patch p (trim line) of
        Inl e \<Rightarrow> Inl e
      | Inr (Some p') \<Rightarrow> Inr p'
      | Inr None \<Rightarrow> Inl (InvalidHunkError (msg_bad_header (trim line)) (line_number p)))"

definition process_line :: "patch_parser \<Rightarrow> rstring \<Rightarrow> parse_error + patch_parser" where
  "process_line p line =
     (case mode p of
        NotStarted \<Rightarrow>
          if trim line = BEGIN_PATCH_MARKER then Inr (p\<lparr>mode := StartedPatch\<rparr>)
          else Inl (InvalidPatchError msg_first_line)
      | StartedPatch \<Rightarrow> process_header_line p line
      | AddFileMode \<Rightarrow> process_add_line p line
      | DeleteFileMode \<Rightarrow> process_header_line p line
      | UpdateFileMode hunk_line_number \<Rightarrow> process_update_line p hunk_line_number line
      | EndedPatch \<Rightarrow>
          if trim line = [] then Inr p else Inl (InvalidPatchError msg_last_line))"

text \<open>
  \<^verbatim>\<open>push_delta\<close>: the loop over the characters of a delta. At a line feed the buffered line,
  less one carriage return at its end, is processed; the first failing line ends the loop
  with its buffer already taken and its line already counted.
\<close>

definition take_line :: "patch_parser \<Rightarrow> patch_parser" where
  "take_line p = p\<lparr>line_buffer := [], line_number := line_number p + 1\<rparr>"

fun push_chars :: "patch_parser \<Rightarrow> rstring \<Rightarrow> parse_error option \<times> patch_parser" where
  "push_chars p [] = (None, p)"
| "push_chars p (ch # delta) =
     (if ch = newline then
        (case process_line (take_line p) (strip_cr (line_buffer p)) of
           Inl e \<Rightarrow> (Some e, take_line p)
         | Inr p' \<Rightarrow> push_chars p' delta)
      else push_chars (p\<lparr>line_buffer := line_buffer p @ [ch]\<rparr>) delta)"

definition push_delta :: "patch_parser \<Rightarrow> rstring \<Rightarrow> (parse_error + hunk list) \<times> patch_parser" where
  "push_delta p delta =
     (case push_chars p delta of
        (Some e, p') \<Rightarrow> (Inl e, p')
      | (None, p') \<Rightarrow> (Inr (hunks p'), p'))"

definition finish_line :: "patch_parser \<Rightarrow> parse_error + patch_parser" where
  "finish_line p =
     (if line_buffer p = [] then Inr p
      else let line = line_buffer p; p' = take_line p in
        if trim line = END_PATCH_MARKER then
          (case ensure_update_hunk_is_not_empty p' (trim line) of
             Some e \<Rightarrow> Inl e
           | None \<Rightarrow> Inr (p'\<lparr>mode := EndedPatch\<rparr>))
        else process_line p' line)"

definition finish :: "patch_parser \<Rightarrow> (parse_error + hunk list) \<times> patch_parser" where
  "finish p =
     (case finish_line p of
        Inl e \<Rightarrow> (Inl e, take_line p)
      | Inr p' \<Rightarrow>
          if mode p' \<noteq> EndedPatch then (Inl (InvalidPatchError msg_last_line), p')
          else (Inr (hunks p'), p'))"


section \<open>Whole patches (parser.rs)\<close>

record apply_patch_args =
  patch :: rstring
  args_hunks :: "hunk list"
  workdir :: "rstring option"
  args_environment_id :: "rstring option"

datatype parse_mode = Strict | Lenient

definition check_start_and_end_lines_strict ::
  "rstring option \<Rightarrow> rstring option \<Rightarrow> parse_error option" where
  "check_start_and_end_lines_strict first_line last_line =
     (case (map_option trim first_line, map_option trim last_line) of
        (Some first, Some lst) \<Rightarrow>
          if first = BEGIN_PATCH_MARKER \<and> lst = END_PATCH_MARKER then None
          else if first \<noteq> BEGIN_PATCH_MARKER then Some (InvalidPatchError msg_first_line)
          else Some (InvalidPatchError msg_last_line)
      | (Some first, None) \<Rightarrow>
          if first \<noteq> BEGIN_PATCH_MARKER then Some (InvalidPatchError msg_first_line)
          else Some (InvalidPatchError msg_last_line)
      | _ \<Rightarrow> Some (InvalidPatchError msg_last_line))"

definition check_patch_boundaries_strict :: "rstring list \<Rightarrow> parse_error + rstring list" where
  "check_patch_boundaries_strict lines =
     (case check_start_and_end_lines_strict (first_opt lines) (last_opt lines) of
        Some e \<Rightarrow> Inl e
      | None \<Rightarrow> Inr lines)"

definition heredoc_openers :: "rstring list" where
  "heredoc_openers =
     [lit ''<<EOF'', lit ''<<'' @ lit [CHR 0x27] @ lit ''EOF'' @ lit [CHR 0x27],
      lit ''<<'' @ lit [CHR 0x22] @ lit ''EOF'' @ lit [CHR 0x22]]"

definition check_patch_boundaries_lenient :: "rstring list \<Rightarrow> parse_error + rstring list" where
  "check_patch_boundaries_lenient original_lines =
     (case check_patch_boundaries_strict original_lines of
        Inr lines \<Rightarrow> Inr lines
      | Inl original_parse_error \<Rightarrow>
          if length original_lines \<ge> 2 then
            (if hd original_lines \<in> set heredoc_openers
                \<and> ends_with (lit ''EOF'') (last original_lines) \<and> length original_lines \<ge> 4
             then check_patch_boundaries_strict (butlast (tl original_lines))
             else Inl original_parse_error)
          else Inl original_parse_error)"

definition parse_patch_text :: "rstring \<Rightarrow> parse_mode \<Rightarrow> parse_error + apply_patch_args" where
  "parse_patch_text text m =
     (let lines = str_lines (trim text) in
      case (case m of Strict \<Rightarrow> check_patch_boundaries_strict lines
                    | Lenient \<Rightarrow> check_patch_boundaries_lenient lines) of
        Inl e \<Rightarrow> Inl e
      | Inr patch_lines \<Rightarrow>
          (let ptext = join [newline] patch_lines in
           case push_delta default_parser ptext of
             (Inl e, p) \<Rightarrow> Inl e
           | (Inr _, p) \<Rightarrow>
               (case finish p of
                  (Inl e, p') \<Rightarrow> Inl e
                | (Inr hs, p') \<Rightarrow>
                    Inr \<lparr>patch = ptext, args_hunks = hs, workdir = None,
                         args_environment_id = environment_id p'\<rparr>)))"

definition PARSE_IN_STRICT_MODE :: bool where "PARSE_IN_STRICT_MODE = False"

definition parse_patch :: "rstring \<Rightarrow> parse_error + apply_patch_args" where
  "parse_patch text = parse_patch_text text (if PARSE_IN_STRICT_MODE then Strict else Lenient)"


section \<open>Incremental parsing\<close>

text \<open>A caller that streams deltas keeps feeding them until one is rejected.\<close>

fun push_deltas :: "patch_parser \<Rightarrow> rstring list \<Rightarrow> parse_error option \<times> patch_parser" where
  "push_deltas p [] = (None, p)"
| "push_deltas p (d # ds) =
     (case push_delta p d of
        (Inl e, p') \<Rightarrow> (Some e, p')
      | (Inr _, p') \<Rightarrow> push_deltas p' ds)"

lemma push_chars_append:
  "push_chars p (a @ b) =
     (case push_chars p a of (Some e, p') \<Rightarrow> (Some e, p') | (None, p') \<Rightarrow> push_chars p' b)"
  by (induction p a rule: push_chars.induct) (auto split: sum.splits)

lemma push_delta_eq:
  "push_delta p d =
     (let (r, p') = push_chars p d
      in (case r of Some e \<Rightarrow> Inl e | None \<Rightarrow> Inr (hunks p'), p'))"
  by (auto simp: push_delta_def split: prod.splits option.splits)

lemma push_deltas_concat: "push_deltas p ds = push_chars p (concat ds)"
  by (induction p ds rule: push_deltas.induct)
    (auto simp: push_chars_append push_delta_eq split: prod.splits option.splits)


section \<open>The parser as a machine over lines\<close>

text \<open>
  The character loop is a loop over complete lines: \<open>process_lines\<close> runs \<^verbatim>\<open>process_line\<close> on each
  with the line counted first. Facts about lines carry over to texts by \<open>push_chars_lines\<close>.
\<close>

fun process_lines :: "patch_parser \<Rightarrow> rstring list \<Rightarrow> parse_error + patch_parser" where
  "process_lines p [] = Inr p"
| "process_lines p (l # ls) =
     (case process_line (take_line p) l of Inl e \<Rightarrow> Inl e | Inr p' \<Rightarrow> process_lines p' ls)"

lemma process_lines_append:
  "process_lines p (xs @ ys) =
     (case process_lines p xs of Inl e \<Rightarrow> Inl e | Inr p' \<Rightarrow> process_lines p' ys)"
  by (induction p xs rule: process_lines.induct) (auto split: sum.splits)

lemma take_line_sel [simp]:
  "line_buffer (take_line p) = []" "mode (take_line p) = mode p" "hunks (take_line p) = hunks p"
  "environment_id (take_line p) = environment_id p" "line_number (take_line p) = Suc (line_number p)"
  by (simp_all add: take_line_def)

lemma take_line_buffer [simp]: "take_line (p\<lparr>line_buffer := b\<rparr>) = take_line p"
  by (simp add: take_line_def)

lemma handle_environment_id_frame:
  "handle_environment_id p r = Inr p' \<Longrightarrow>
     hunks p' = hunks p \<and> mode p' = mode p \<and> line_number p' = line_number p \<and>
     line_buffer p' = line_buffer p"
  by (auto simp: handle_environment_id_def Let_def split: if_splits)

lemma begin_hunk_Some_iff:
  "begin_hunk p l hs m = Inr (Some p') \<longleftrightarrow>
     ensure_update_hunk_is_not_empty p l = None \<and> p' = p\<lparr>hunks := hunks p @ hs, mode := m\<rparr>"
  by (auto simp: begin_hunk_def split: option.splits)

lemma begin_hunk_not_None [simp]: "begin_hunk p l hs m \<noteq> Inr None"
  by (simp add: begin_hunk_def split: option.splits)

text \<open>What a recognised header does: it records the environment, or ends the patch, or opens a hunk.\<close>

lemma handle_headers_cases:
  assumes "handle_hunk_headers_and_end_patch p l = Inr (Some p')"
  obtains
    (env) rest where "mode p = StartedPatch" "handle_environment_id p rest = Inr p'"
  | (end_patch) "ensure_update_hunk_is_not_empty p l = None" "p' = p\<lparr>mode := EndedPatch\<rparr>"
  | (add) path where "ensure_update_hunk_is_not_empty p l = None"
      "p' = p\<lparr>hunks := hunks p @ [AddFile path []], mode := AddFileMode\<rparr>"
  | (delete) path where "ensure_update_hunk_is_not_empty p l = None"
      "p' = p\<lparr>hunks := hunks p @ [DeleteFile path], mode := DeleteFileMode\<rparr>"
  | (update) path where "ensure_update_hunk_is_not_empty p l = None"
      "p' = p\<lparr>hunks := hunks p @ [UpdateFile path None []], mode := UpdateFileMode (line_number p)\<rparr>"
proof -
  show thesis
  proof (cases "mode p = StartedPatch \<and> strip_prefix ENVIRONMENT_ID_MARKER l \<noteq> None")
    case True
    then obtain rest where rest: "strip_prefix ENVIRONMENT_ID_MARKER l = Some rest" by blast
    with True assms have "map_sum id Some (handle_environment_id p rest) = Inr (Some p')"
      by (simp add: handle_hunk_headers_and_end_patch_def)
    then have "handle_environment_id p rest = Inr p'"
      by (cases "handle_environment_id p rest") auto
    with True show ?thesis by (auto intro: env)
  next
    case False
    then have noenv: "(if mode p = StartedPatch then strip_prefix ENVIRONMENT_ID_MARKER l else None) = None"
      by auto
    have h: "(if l = END_PATCH_MARKER then begin_hunk p l [] EndedPatch
       else (case strip_prefix ADD_FILE_MARKER l of
          Some path \<Rightarrow> begin_hunk p l [AddFile path []] AddFileMode
        | None \<Rightarrow> (case strip_prefix DELETE_FILE_MARKER l of
          Some path \<Rightarrow> begin_hunk p l [DeleteFile path] DeleteFileMode
        | None \<Rightarrow> (case strip_prefix UPDATE_FILE_MARKER l of
          Some path \<Rightarrow> begin_hunk p l [UpdateFile path None []] (UpdateFileMode (line_number p))
        | None \<Rightarrow> Inr None)))) = Inr (Some p')"
      using assms unfolding handle_hunk_headers_and_end_patch_def noenv by simp
    show ?thesis
      using h by (auto simp: begin_hunk_Some_iff split: option.splits if_splits
          intro: end_patch add delete update)
  qed
qed

lemma handle_headers_frame:
  "handle_hunk_headers_and_end_patch p l = Inr (Some p') \<Longrightarrow>
     line_buffer p' = line_buffer p \<and> line_number p' = line_number p"
  by (erule handle_headers_cases) (auto dest!: handle_environment_id_frame)


section \<open>The parser invariant\<close>

text \<open>
  A complete hunk is one the applier may rely on: an update has at least one chunk and every
  chunk has a line. While an update hunk is open only its last chunk may still be empty, and
  a chunk that is marked as end of file never is.
\<close>

fun hunk_complete :: "hunk \<Rightarrow> bool" where
  "hunk_complete (UpdateFile path move_path chunks) =
     (chunks \<noteq> [] \<and> list_all (\<lambda>c. \<not> chunk_has_no_lines c) chunks)"
| "hunk_complete _ = True"

definition open_chunks_ok :: "update_file_chunk list \<Rightarrow> bool" where
  "open_chunks_ok chunks \<longleftrightarrow>
     list_all (\<lambda>c. \<not> chunk_has_no_lines c) (butlast chunks) \<and>
     list_all (\<lambda>c. is_end_of_file c \<longrightarrow> \<not> chunk_has_no_lines c) chunks"

definition parser_inv :: "patch_parser \<Rightarrow> bool" where
  "parser_inv p \<longleftrightarrow>
     (case mode p of
        NotStarted \<Rightarrow> hunks p = []
      | StartedPatch \<Rightarrow> hunks p = []
      | AddFileMode \<Rightarrow>
          (case last_opt (hunks p) of Some (AddFile _ _) \<Rightarrow> True | _ \<Rightarrow> False) \<and>
          list_all hunk_complete (hunks p)
      | DeleteFileMode \<Rightarrow>
          (case last_opt (hunks p) of Some (DeleteFile _) \<Rightarrow> True | _ \<Rightarrow> False) \<and>
          list_all hunk_complete (hunks p)
      | UpdateFileMode n \<Rightarrow>
          (case last_opt (hunks p) of
             Some (UpdateFile _ _ chunks) \<Rightarrow> open_chunks_ok chunks | _ \<Rightarrow> False) \<and>
          list_all hunk_complete (butlast (hunks p)) \<and> n \<le> line_number p
      | EndedPatch \<Rightarrow> list_all hunk_complete (hunks p))"

lemma parser_inv_default [simp]: "parser_inv default_parser"
  by (simp add: parser_inv_def default_parser_def)

lemma parser_inv_take_line: "parser_inv p \<Longrightarrow> parser_inv (take_line p)"
  by (auto simp: parser_inv_def split: parser_mode.splits)

lemma parser_inv_buffer [simp]: "parser_inv (p\<lparr>line_buffer := b\<rparr>) = parser_inv p"
  by (cases "mode p") (simp_all add: parser_inv_def)

lemma ensure_None_complete:
  assumes "parser_inv p" and "ensure_update_hunk_is_not_empty p l = None"
  shows "list_all hunk_complete (hunks p)"
proof (cases "mode p")
  case (UpdateFileMode n)
  with assms(1) obtain hs path mv chunks where hs: "hunks p = hs @ [UpdateFile path mv chunks]"
    and ok: "open_chunks_ok chunks" "list_all hunk_complete hs"
    by (auto simp: parser_inv_def last_opt_Some_iff split: option.splits hunk.splits)
  have "chunks \<noteq> []" "\<not> last_chunk_has_no_lines chunks"
    using assms(2) UpdateFileMode hs
    by (auto simp: ensure_update_hunk_is_not_empty_def split: list.splits if_splits)
  then have "hunk_complete (UpdateFile path mv chunks)"
    using ok(1) by (cases chunks rule: rev_cases)
      (auto simp: open_chunks_ok_def last_chunk_has_no_lines_def)
  with ok hs show ?thesis by simp
qed (use assms(1) in \<open>auto simp: parser_inv_def\<close>)

lemma handle_headers_inv:
  assumes "parser_inv p" and "handle_hunk_headers_and_end_patch p l = Inr (Some p')"
  shows "parser_inv p'"
  using assms(2)
proof (cases rule: handle_headers_cases)
  case (env rest)
  then show ?thesis
    using assms(1) handle_environment_id_frame [OF env(2)] by (simp add: parser_inv_def)
next
  case end_patch
  with assms(1) show ?thesis by (simp add: ensure_None_complete parser_inv_def)
next
  case (add path)
  with assms(1) show ?thesis by (simp add: ensure_None_complete parser_inv_def)
next
  case (delete path)
  with assms(1) show ?thesis by (simp add: ensure_None_complete parser_inv_def)
next
  case (update path)
  with assms(1) show ?thesis
    by (simp add: ensure_None_complete parser_inv_def open_chunks_ok_def)
qed

lemma open_chunks_ok_append_empty:
  "open_chunks_ok chunks \<Longrightarrow> \<not> last_chunk_has_no_lines chunks \<Longrightarrow>
     open_chunks_ok (chunks @ [empty_chunk ctx])"
  by (cases chunks rule: rev_cases)
    (auto simp: open_chunks_ok_def last_chunk_has_no_lines_def empty_chunk_def butlast_append)

lemma open_chunks_ok_singleton [simp]: "open_chunks_ok [empty_chunk ctx]"
  by (simp add: open_chunks_ok_def empty_chunk_def)

lemma open_chunks_ok_map_last:
  assumes "open_chunks_ok chunks" and "\<And>c. \<not> chunk_has_no_lines (f c)"
  shows "open_chunks_ok (map_last f (ensure_chunk chunks))"
  using assms
  by (cases chunks rule: rev_cases)
    (simp_all add: open_chunks_ok_def ensure_chunk_def map_last_def)

lemma push_has_lines [simp]:
  "\<not> chunk_has_no_lines (push_old l c)" "\<not> chunk_has_no_lines (push_new l c)"
  by (simp_all add: chunk_has_no_lines_def push_old_def push_new_def)

lemma open_chunks_ok_mark_eof:
  "open_chunks_ok chunks \<Longrightarrow> \<not> last_chunk_has_no_lines chunks \<Longrightarrow>
     open_chunks_ok (map_last (\<lambda>c. c\<lparr>is_end_of_file := True\<rparr>) chunks)"
  by (cases chunks rule: rev_cases)
    (auto simp: open_chunks_ok_def last_chunk_has_no_lines_def chunk_has_no_lines_def)

lemma update_line_step_inv:
  assumes "open_chunks_ok chunks" and "update_line_step ln line mv chunks = Inr (mv', chunks')"
  shows "open_chunks_ok chunks'"
proof -
  have ctx: "strip_prefix CHANGE_CONTEXT_MARKER l = Some r \<Longrightarrow> is_context_marker l" for l r
    by (simp add: is_context_marker_def starts_with_def)
  show ?thesis
    using assms
    by (auto simp: update_line_step_def Let_def is_context_marker_def
        intro!: open_chunks_ok_append_empty open_chunks_ok_map_last open_chunks_ok_mark_eof
        split: if_splits option.splits list.splits dest: ctx)
qed

lemma process_line_inv:
  assumes "parser_inv p" and "process_line p line = Inr p'"
  shows "parser_inv p'"
proof (cases "mode p")
  case NotStarted
  with assms show ?thesis by (auto simp: process_line_def parser_inv_def split: if_splits)
next
  case StartedPatch
  with assms show ?thesis
    by (auto simp: process_line_def process_header_line_def
        split: sum.splits option.splits intro: handle_headers_inv)
next
  case AddFileMode
  with assms show ?thesis
    by (auto simp: process_line_def process_add_line_def last_opt_Some_iff
        split: sum.splits option.splits list.splits hunk.splits if_splits
        intro: handle_headers_inv) (auto simp: parser_inv_def)
next
  case DeleteFileMode
  with assms show ?thesis
    by (auto simp: process_line_def process_header_line_def
        split: sum.splits option.splits intro: handle_headers_inv)
next
  case (UpdateFileMode n)
  show ?thesis
  proof (cases "handle_hunk_headers_and_end_patch p (trim_end line)")
    case (Inr r)
    show ?thesis
    proof (cases r)
      case None
      with assms(2) UpdateFileMode Inr obtain path mv chunks mv' chunks' where
        l: "last_opt (hunks p) = Some (UpdateFile path mv chunks)"
        and st: "update_line_step (line_number p) line mv chunks = Inr (mv', chunks')"
        and p': "p' = p\<lparr>hunks := butlast (hunks p) @ [UpdateFile path mv' chunks'], mode := UpdateFileMode n\<rparr>"
        by (auto simp: process_line_def process_update_line_def
            split: option.splits hunk.splits sum.splits)
      from assms(1) UpdateFileMode l have "open_chunks_ok chunks"
        by (simp add: parser_inv_def)
      from update_line_step_inv [OF this st] assms(1) UpdateFileMode l p' show ?thesis
        by (simp add: parser_inv_def)
    next
      case (Some p'')
      with assms Inr UpdateFileMode show ?thesis
        by (auto simp: process_line_def process_update_line_def intro: handle_headers_inv)
    qed
  qed (use assms(2) UpdateFileMode in \<open>simp add: process_line_def process_update_line_def\<close>)
next
  case EndedPatch
  with assms show ?thesis by (auto simp: process_line_def split: if_splits)
qed

lemma process_take_line_inv:
  "parser_inv p \<Longrightarrow> process_line (take_line p) line = Inr p' \<Longrightarrow> parser_inv p'"
  by (rule process_line_inv [OF parser_inv_take_line])

lemma push_chars_inv: "parser_inv p \<Longrightarrow> parser_inv (snd (push_chars p d))"
  by (induction p d rule: push_chars.induct)
    (auto split: sum.splits intro: parser_inv_take_line dest: process_take_line_inv)

lemma push_delta_inv: "parser_inv p \<Longrightarrow> parser_inv (snd (push_delta p d))"
  using push_chars_inv [of p d] by (auto simp: push_delta_eq split: prod.splits)

lemma finish_line_inv: "parser_inv p \<Longrightarrow> finish_line p = Inr p' \<Longrightarrow> parser_inv p'"
  using ensure_None_complete [of "take_line p"]
  by (auto simp: finish_line_def Let_def parser_inv_take_line
      split: if_splits option.splits intro: process_take_line_inv)
    (simp add: parser_inv_def)

lemma finish_complete:
  assumes "parser_inv p" and "finish p = (Inr hs, p')"
  shows "list_all hunk_complete hs \<and> parser_inv p'"
  using assms finish_line_inv [OF assms(1)]
  by (auto simp: finish_def parser_inv_def split: sum.splits if_splits)


section \<open>Properties\<close>


text \<open>
  The parser invariant holds after any sequence of deltas from a fresh parser, accepted or
  rejected: the mode agrees with the last hunk, and every hunk but an open update is complete.
\<close>

theorem push_deltas_keep_invariant: "parser_inv (snd (push_deltas default_parser ds))"
  by (simp add: push_deltas_concat push_chars_inv)



text \<open>
  A finished parser never reports a hunk for a patch whose update hunk has no lines: a
  rename without changes (\<^verbatim>\<open>Move to\<close> directly followed by the end marker) is refused with the
  line of its header, although the grammar in \<^verbatim>\<open>parser.rs\<close> makes the change optional.
\<close>

theorem rename_without_change_rejected:
  assumes "mode p = UpdateFileMode n" and "last_opt (hunks p) = Some (UpdateFile path mv [])"
    and "line_buffer p = END_PATCH_MARKER"
  shows "fst (finish p) = Inl (InvalidHunkError (msg_update_hunk_empty path) n)"
proof -
  have "trim END_PATCH_MARKER = END_PATCH_MARKER" "END_PATCH_MARKER \<noteq> []"
    by (simp_all add: marker_defs lit_def trim_def trim_start_def trim_end_def is_whitespace_def)
  with assms show ?thesis
    by (simp add: finish_def finish_line_def ensure_update_hunk_is_not_empty_def)
qed

theorem rename_without_change_rejected_witness:
  "fst (finish (default_parser\<lparr>mode := UpdateFileMode 2,
      hunks := [UpdateFile (lit ''a'') (Some (lit ''b'')) []], line_buffer := END_PATCH_MARKER\<rparr>)) =
   Inl (InvalidHunkError (msg_update_hunk_empty (lit ''a'')) 2)"
  by (rule rename_without_change_rejected [of _ _ _ "Some (lit ''b'')"]) (simp_all add: last_opt_def)

end
