(* ===== verification/Seek_Sequence.thy ===== *)
theory Seek_Sequence
  imports Rust_Prelude
begin

text \<open>
  \<^verbatim>\<open>codex-rs/apply-patch/src/seek_sequence.rs\<close>: locating the lines a chunk replaces. Four
  passes of decreasing strictness, each a linear search with its own key on lines.
\<close>

section \<open>The search\<close>

definition normalise_char :: "rchar \<Rightarrow> rchar" where
  "normalise_char c =
     (if c \<in> {0x2010, 0x2011, 0x2012, 0x2013, 0x2014, 0x2015, 0x2212} then 45
      else if c \<in> {0x2018, 0x2019, 0x201A, 0x201B} then 39
      else if c \<in> {0x201C, 0x201D, 0x201E, 0x201F} then 34
      else if c \<in> {0x00A0, 0x2002, 0x2003, 0x2004, 0x2005, 0x2006, 0x2007, 0x2008, 0x2009,
                  0x200A, 0x202F, 0x205F, 0x3000} then 32
      else c)"

definition normalise :: "rstring \<Rightarrow> rstring" where
  "normalise s = map normalise_char (trim s)"

text \<open>
  The inner loop of a pass: the pattern lines are compared one by one from index \<open>i\<close>, and the
  first difference ends the comparison. The exact pass compares slices, which is the same
  loop with the identity as key.
\<close>

fun match_at :: "(rstring \<Rightarrow> rstring) \<Rightarrow> rstring list \<Rightarrow> nat \<Rightarrow> rstring list \<Rightarrow> bool" where
  "match_at key lines i [] = True"
| "match_at key lines i (pat # pats) =
     (key (lines ! i) = key pat \<and> match_at key lines (Suc i) pats)"

definition search_pass ::
  "(rstring \<Rightarrow> rstring) \<Rightarrow> rstring list \<Rightarrow> rstring list \<Rightarrow> nat \<Rightarrow> nat option" where
  "search_pass key lines pattern search_start =
     find (\<lambda>i. match_at key lines i pattern) [search_start ..< Suc (length lines - length pattern)]"

definition search_start_of :: "rstring list \<Rightarrow> rstring list \<Rightarrow> nat \<Rightarrow> bool \<Rightarrow> nat" where
  "search_start_of lines pattern start eof =
     (if eof \<and> length pattern \<le> length lines then length lines - length pattern else start)"

definition seek_sequence ::
  "rstring list \<Rightarrow> rstring list \<Rightarrow> nat \<Rightarrow> bool \<Rightarrow> nat option" where
  "seek_sequence lines pattern start eof =
     (if pattern = [] then Some start
      else if length lines < length pattern then None
      else let search_start = search_start_of lines pattern start eof in
        case search_pass id lines pattern search_start of Some i \<Rightarrow> Some i | None \<Rightarrow>
        (case search_pass trim_end lines pattern search_start of Some i \<Rightarrow> Some i | None \<Rightarrow>
        (case search_pass trim lines pattern search_start of Some i \<Rightarrow> Some i | None \<Rightarrow>
        search_pass normalise lines pattern search_start)))"


section \<open>One pass\<close>

lemma find_upt_Some_iff:
  "find P [m ..< n] = Some i \<longleftrightarrow> m \<le> i \<and> i < n \<and> P i \<and> (\<forall>j. m \<le> j \<and> j < i \<longrightarrow> \<not> P j)"
proof (induction "n - m" arbitrary: m)
  case 0
  then show ?case by auto
next
  case (Suc k)
  then have mn: "m < n" by simp
  then have upt: "[m ..< n] = m # [Suc m ..< n]" by (simp add: upt_conv_Cons)
  show ?case
  proof (cases "P m")
    case True
    then show ?thesis
      unfolding upt using mn by (auto simp: le_less)
  next
    case False
    have "find P [Suc m ..< n] = Some i \<longleftrightarrow>
        Suc m \<le> i \<and> i < n \<and> P i \<and> (\<forall>j. Suc m \<le> j \<and> j < i \<longrightarrow> \<not> P j)"
      using Suc by simp
    moreover have "(\<forall>j. m \<le> j \<and> j < i \<longrightarrow> \<not> P j) \<longleftrightarrow> (\<forall>j. Suc m \<le> j \<and> j < i \<longrightarrow> \<not> P j)"
      using False by (metis Suc_leD le_antisym not_less_eq_eq)
    moreover have "P i \<Longrightarrow> m \<le> i \<longleftrightarrow> Suc m \<le> i"
      using False by (metis Suc_leD le_antisym not_less_eq_eq)
    ultimately show ?thesis
      unfolding upt using False by auto
  qed
qed

lemma find_upt_None_iff:
  "find P [m ..< n] = None \<longleftrightarrow> (\<forall>j. m \<le> j \<and> j < n \<longrightarrow> \<not> P j)"
  by (auto simp: find_None_iff)

lemma search_pass_Some_iff:
  "length pattern \<le> length lines \<Longrightarrow>
   search_pass key lines pattern s = Some i \<longleftrightarrow>
     s \<le> i \<and> i + length pattern \<le> length lines \<and> match_at key lines i pattern \<and>
     (\<forall>j. s \<le> j \<and> j < i \<longrightarrow> \<not> match_at key lines j pattern)"
  unfolding search_pass_def find_upt_Some_iff by auto

lemma search_pass_None_iff:
  "length pattern \<le> length lines \<Longrightarrow>
   search_pass key lines pattern s = None \<longleftrightarrow>
     (\<forall>j. s \<le> j \<and> j + length pattern \<le> length lines \<longrightarrow> \<not> match_at key lines j pattern)"
  unfolding search_pass_def find_upt_None_iff by auto

lemma match_at_nth:
  "match_at key lines i pattern \<longleftrightarrow>
     (\<forall>k < length pattern. key (lines ! (i + k)) = key (pattern ! k))"
proof (induction pattern arbitrary: i)
  case (Cons p ps)
  show ?case
    by (auto simp: Cons.IH nth_Cons split: nat.splits)
qed simp

lemma match_at_id_slice:
  assumes "i + length pattern \<le> length lines"
  shows "match_at id lines i pattern \<longleftrightarrow> take (length pattern) (drop i lines) = pattern"
  using assms by (auto simp: match_at_nth list_eq_iff_nth_eq)


section \<open>The passes are increasingly permissive\<close>

text \<open>
  What one pass promises the next: lines that the stricter key identifies are identified by
  the looser one, so a pass can only add matches.
\<close>

locale looser_key =
  fixes strict :: "rstring \<Rightarrow> rstring" and loose :: "rstring \<Rightarrow> rstring"
  assumes keeps: "strict a = strict b \<Longrightarrow> loose a = loose b"
begin

lemma match_at_mono: "match_at strict lines i pattern \<Longrightarrow> match_at loose lines i pattern"
  by (induction pattern arbitrary: i) (auto dest: keeps)

lemma search_pass_mono:
  assumes "length pattern \<le> length lines"
    and "search_pass loose lines pattern s = None"
  shows "search_pass strict lines pattern s = None"
  using assms by (auto simp: search_pass_None_iff dest: match_at_mono)

end

interpretation exact_trim_end: looser_key id trim_end
  by unfold_locales simp

interpretation trim_end_trim: looser_key trim_end trim
  by unfold_locales (rule trim_end_eq_imp_trim_eq)

interpretation trim_normalise: looser_key trim normalise
  by unfold_locales (simp add: normalise_def)

lemma match_at_normalise:
  "match_at id lines i pattern \<Longrightarrow> match_at normalise lines i pattern"
  "match_at trim_end lines i pattern \<Longrightarrow> match_at normalise lines i pattern"
  "match_at trim lines i pattern \<Longrightarrow> match_at normalise lines i pattern"
  by (blast intro: exact_trim_end.match_at_mono trim_end_trim.match_at_mono
      trim_normalise.match_at_mono)+


section \<open>What the search returns\<close>

lemma seek_sequence_Some:
  assumes "seek_sequence lines pattern start eof = Some i" and "pattern \<noteq> []"
  shows "search_start_of lines pattern start eof \<le> i" and "i + length pattern \<le> length lines"
    and "match_at normalise lines i pattern"
  using assms match_at_normalise
  by (auto simp: seek_sequence_def Let_def search_pass_Some_iff split: if_splits option.splits)

lemma seek_sequence_None_iff:
  "seek_sequence lines pattern start eof = None \<longleftrightarrow>
     pattern \<noteq> [] \<and>
     (\<forall>j. search_start_of lines pattern start eof \<le> j \<and> j + length pattern \<le> length lines \<longrightarrow>
        \<not> match_at normalise lines j pattern)"
  (is "?l \<longleftrightarrow> ?r")
proof (cases "pattern = [] \<or> length lines < length pattern")
  case True
  then show ?thesis by (auto simp: seek_sequence_def)
next
  case False
  then have len: "length pattern \<le> length lines" by simp
  let ?s = "search_start_of lines pattern start eof"
  have mono: "search_pass normalise lines pattern ?s = None \<Longrightarrow>
      search_pass trim lines pattern ?s = None \<and> search_pass trim_end lines pattern ?s = None \<and>
      search_pass id lines pattern ?s = None"
    using exact_trim_end.search_pass_mono [OF len] trim_end_trim.search_pass_mono [OF len]
      trim_normalise.search_pass_mono [OF len] by metis
  have "?l \<longleftrightarrow> search_pass normalise lines pattern ?s = None"
    using False mono
    by (cases "search_pass normalise lines pattern ?s")
      (auto simp: seek_sequence_def Let_def split: option.splits)
  then show ?thesis using False len by (simp add: search_pass_None_iff)
qed

text \<open>An exact occurrence always wins, and the first one is returned.\<close>

lemma seek_sequence_exact:
  assumes "pattern \<noteq> []" and "search_start_of lines pattern start eof \<le> j"
    and "j + length pattern \<le> length lines" and "match_at id lines j pattern"
  shows "\<exists>i. seek_sequence lines pattern start eof = Some i \<and> i \<le> j \<and> match_at id lines i pattern \<and>
    (\<forall>k. search_start_of lines pattern start eof \<le> k \<and> k < i \<longrightarrow> \<not> match_at id lines k pattern)"
proof -
  let ?s = "search_start_of lines pattern start eof"
  have len: "length pattern \<le> length lines" using assms(3) by simp
  obtain i where i: "search_pass id lines pattern ?s = Some i"
    using assms(2-4) search_pass_None_iff [OF len, of id ?s] by blast
  then have "i \<le> j"
    using assms(2,4) by (meson len not_le search_pass_Some_iff)
  moreover have "seek_sequence lines pattern start eof = Some i"
    using i assms(1) len by (simp add: seek_sequence_def Let_def)
  ultimately show ?thesis
    using i by (auto simp: search_pass_Some_iff [OF len])
qed

lemma search_start_of_eof:
  "length pattern \<le> length lines \<Longrightarrow>
     search_start_of lines pattern start True = length lines - length pattern"
  by (simp add: search_start_of_def)

lemma seek_sequence_bound:
  assumes "seek_sequence lines pattern start eof = Some i" and "start \<le> length lines"
  shows "i + length pattern \<le> length lines"
  using assms seek_sequence_Some(2) [OF assms(1)]
  by (cases "pattern = []") (auto simp: seek_sequence_def)

lemma seek_sequence_ge_start:
  assumes "seek_sequence lines pattern start False = Some i"
  shows "start \<le> i"
  using assms seek_sequence_Some(1) [OF assms]
  by (cases "pattern = []") (auto simp: seek_sequence_def search_start_of_def)


section \<open>The search against occurrences\<close>

text \<open>
  An occurrence up to a key is a block of consecutive lines of the file that the key maps to what it maps the pattern
  to. The keys are those of the four passes, the strictest first.
\<close>

definition occurs :: "(rstring \<Rightarrow> rstring) \<Rightarrow> rstring list \<Rightarrow> rstring list \<Rightarrow> nat \<Rightarrow> bool" where
  "occurs key lines pattern i \<longleftrightarrow> map key (take (length pattern) (drop i lines)) = map key pattern"

definition seek_keys :: "(rstring \<Rightarrow> rstring) list" where
  "seek_keys = [id, trim_end, trim, normalise]"

lemma occurs_bound: "occurs key lines pattern i \<Longrightarrow> pattern \<noteq> [] \<Longrightarrow> i + length pattern \<le> length lines"
proof -
  assume "occurs key lines pattern i" and ne: "pattern \<noteq> []"
  then have "min (length lines - i) (length pattern) = length pattern"
    unfolding occurs_def by (metis length_drop length_map length_take min.commute)
  moreover have "0 < length pattern" using ne by simp
  ultimately show ?thesis by linarith
qed

lemma occurs_match_at:
  assumes "i + length pattern \<le> length lines"
  shows "occurs key lines pattern i \<longleftrightarrow> match_at key lines i pattern"
  using assms by (auto simp: occurs_def match_at_nth list_eq_iff_nth_eq)

lemma search_pass_occurs:
  assumes "length pattern \<le> length lines" and "pattern \<noteq> []"
  shows "search_pass key lines pattern s = Some i \<longleftrightarrow>
      s \<le> i \<and> occurs key lines pattern i \<and> (\<forall>j. s \<le> j \<and> j < i \<longrightarrow> \<not> occurs key lines pattern j)"
    and "search_pass key lines pattern s = None \<longleftrightarrow> (\<forall>j\<ge>s. \<not> occurs key lines pattern j)"
proof -
  show "search_pass key lines pattern s = None \<longleftrightarrow> (\<forall>j\<ge>s. \<not> occurs key lines pattern j)"
    unfolding search_pass_None_iff [OF assms(1)] using occurs_bound [OF _ assms(2)] occurs_match_at by blast
  have "i + length pattern \<le> length lines \<and> match_at key lines i pattern \<longleftrightarrow> occurs key lines pattern i" for i
    using occurs_bound [OF _ assms(2)] occurs_match_at by blast
  moreover have "j + length pattern \<le> length lines" if "i + length pattern \<le> length lines" "j < i" for j
    using that by simp
  ultimately show "search_pass key lines pattern s = Some i \<longleftrightarrow>
      s \<le> i \<and> occurs key lines pattern i \<and> (\<forall>j. s \<le> j \<and> j < i \<longrightarrow> \<not> occurs key lines pattern j)"
    unfolding search_pass_Some_iff [OF assms(1)] by blast
qed

fun first_pass :: "(rstring \<Rightarrow> rstring) list \<Rightarrow> rstring list \<Rightarrow> rstring list \<Rightarrow> nat \<Rightarrow> nat option" where
  "first_pass [] lines pattern s = None"
| "first_pass (key # keys) lines pattern s =
     (case search_pass key lines pattern s of Some i \<Rightarrow> Some i | None \<Rightarrow> first_pass keys lines pattern s)"

lemma seek_sequence_first_pass:
  "pattern \<noteq> [] \<Longrightarrow> length pattern \<le> length lines \<Longrightarrow>
     seek_sequence lines pattern start eof = first_pass seek_keys lines pattern (search_start_of lines pattern start eof)"
  by (simp add: seek_sequence_def seek_keys_def Let_def split: option.splits)

lemma first_pass_Some_iff:
  "first_pass keys lines pattern s = Some i \<longleftrightarrow>
     (\<exists>stricter key looser. keys = stricter @ key # looser \<and> search_pass key lines pattern s = Some i \<and>
        (\<forall>key'\<in>set stricter. search_pass key' lines pattern s = None))"
proof (induction keys)
  case (Cons key keys)
  have split: "(\<exists>stricter k looser. key # keys = stricter @ k # looser \<and> Q stricter k) \<longleftrightarrow>
      Q [] key \<or> (\<exists>stricter k looser. keys = stricter @ k # looser \<and> Q (key # stricter) k)" for Q
  proof
    assume "\<exists>stricter k looser. key # keys = stricter @ k # looser \<and> Q stricter k"
    then obtain stricter k looser where "key # keys = stricter @ k # looser" "Q stricter k" by blast
    then show "Q [] key \<or> (\<exists>stricter k looser. keys = stricter @ k # looser \<and> Q (key # stricter) k)"
      by (cases stricter) auto
  next
    assume "Q [] key \<or> (\<exists>stricter k looser. keys = stricter @ k # looser \<and> Q (key # stricter) k)"
    then show "\<exists>stricter k looser. key # keys = stricter @ k # looser \<and> Q stricter k"
      by (metis append_Cons append_Nil)
  qed
  show ?case
    unfolding split by (cases "search_pass key lines pattern s") (simp_all add: Cons.IH)
qed simp


section \<open>Properties\<close>



text \<open>
  Where the lines occur verbatim, the first verbatim occurrence is returned: the looser
  passes never shadow an exact match.
\<close>

theorem seek_sequence_prefers_exact:
  assumes "pattern \<noteq> []" and "search_start_of lines pattern start eof \<le> j"
    and "j + length pattern \<le> length lines" and "take (length pattern) (drop j lines) = pattern"
  shows "\<exists>i \<le> j. seek_sequence lines pattern start eof = Some i \<and>
    take (length pattern) (drop i lines) = pattern \<and>
    (\<forall>k. search_start_of lines pattern start eof \<le> k \<and> k < i \<longrightarrow>
       take (length pattern) (drop k lines) \<noteq> pattern)"
proof -
  obtain i where i: "seek_sequence lines pattern start eof = Some i" "i \<le> j"
    "match_at id lines i pattern"
    "\<forall>k. search_start_of lines pattern start eof \<le> k \<and> k < i \<longrightarrow> \<not> match_at id lines k pattern"
    using seek_sequence_exact [OF assms(1-3)] assms(3,4) match_at_id_slice by blast
  with assms(3) show ?thesis
    by (intro exI [of _ i]) (auto simp: match_at_id_slice [symmetric])
qed

theorem seek_sequence_prefers_exact_witness:
  "\<exists>i \<le> 1. seek_sequence [lit ''b '', lit ''b''] [lit ''b''] 0 False = Some i \<and>
     take 1 (drop i [lit ''b '', lit ''b'']) = [lit ''b'']"
  using seek_sequence_prefers_exact [of "[lit ''b'']" "[lit ''b '', lit ''b'']" 0 False 1]
  by (auto simp: search_start_of_def lit_def)

text \<open>
  An end-of-file chunk is looked for at one place only, the last lines of the file: the
  start index plays no part, and there is no second search from it when the file ends
  differently, although the comment on \<^verbatim>\<open>seek_sequence\<close> promises that fall-back.
\<close>

theorem seek_sequence_eof_only_at_end:
  assumes "pattern \<noteq> []" and "length pattern \<le> length lines"
  shows "seek_sequence lines pattern start True =
    (if match_at normalise lines (length lines - length pattern) pattern
     then Some (length lines - length pattern) else None)"
proof (cases "seek_sequence lines pattern start True")
  case None
  then show ?thesis
    using assms by (auto simp: seek_sequence_None_iff search_start_of_eof)
next
  case (Some i)
  note s = seek_sequence_Some [OF Some assms(1)]
  then have "i = length lines - length pattern"
    using assms(2) by (simp add: search_start_of_eof)
  with Some s show ?thesis by simp
qed

theorem seek_sequence_eof_only_at_end_witness:
  "seek_sequence [lit ''a'', lit ''b''] [lit ''a''] 0 True = None \<and>
   seek_sequence [lit ''a'', lit ''b''] [lit ''a''] 0 False = Some 0"
proof -
  have "\<not> match_at normalise [lit ''a'', lit ''b''] 1 [lit ''a'']" by code_simp
  moreover have "seek_sequence [lit ''a'', lit ''b''] [lit ''a''] 0 False = Some 0" by code_simp
  ultimately show ?thesis
    using seek_sequence_eof_only_at_end [of "[lit ''a'']" "[lit ''a'', lit ''b'']" 0] by simp
qed

end
