(* ===== verification/Replacements.thy ===== *)
theory Replacements
  imports Patch_Parser Seek_Sequence
begin

text \<open>
  The pure core of \<^verbatim>\<open>codex-rs/apply-patch/src/lib.rs\<close>: from the lines of a file and the chunks
  of an update hunk to the replacements (\<^verbatim>\<open>compute_replacements\<close>), to the new lines
  (\<^verbatim>\<open>apply_replacements\<close>) and to the new contents (\<^verbatim>\<open>derive_new_contents_from_chunks\<close> after the
  file has been read).
\<close>

section \<open>Definitions\<close>

text \<open>A replacement is \<^verbatim>\<open>(start_index, old_len, new_lines)\<close>.\<close>

type_synonym replacement = "nat \<times> nat \<times> rstring list"

definition msg_context_not_found :: "rstring \<Rightarrow> rstring \<Rightarrow> rstring" where
  "msg_context_not_found ctx_line path =
     lit ''Failed to find context '' @ lit [CHR 0x27] @ ctx_line @ lit [CHR 0x27] @ lit '' in '' @ path"

definition msg_lines_not_found :: "rstring \<Rightarrow> rstring list \<Rightarrow> rstring" where
  "msg_lines_not_found path old =
     lit ''Failed to find expected lines in '' @ path @ lit '':'' @ [newline] @ join [newline] old"

definition ends_with_empty :: "rstring list \<Rightarrow> bool" where
  "ends_with_empty ls \<longleftrightarrow> last_opt ls = Some []"

text \<open>The \<^verbatim>\<open>change_context\<close> step: the search index after the context line, if there is one.\<close>

definition seek_context ::
  "rstring list \<Rightarrow> rstring \<Rightarrow> nat \<Rightarrow> update_file_chunk \<Rightarrow> rstring + nat" where
  "seek_context original_lines path line_index chunk =
     (case change_context chunk of
        None \<Rightarrow> Inr line_index
      | Some ctx_line \<Rightarrow>
          (case seek_sequence original_lines [ctx_line] line_index False of
             Some idx \<Rightarrow> Inr (idx + 1)
           | None \<Rightarrow> Inl (msg_context_not_found ctx_line path)))"

definition insertion_idx :: "rstring list \<Rightarrow> nat" where
  "insertion_idx original_lines =
     (if ends_with_empty original_lines then length original_lines - 1 else length original_lines)"

text \<open>
  Locating the old lines: the pattern as it is, then without the empty line at its end that
  stands for the final newline. The result is the replacement for this chunk.
\<close>

definition locate_old_lines ::
  "rstring list \<Rightarrow> rstring \<Rightarrow> nat \<Rightarrow> update_file_chunk \<Rightarrow> rstring + replacement" where
  "locate_old_lines original_lines path line_index chunk =
     (let pattern = old_lines chunk;
          eof = is_end_of_file chunk in
      case seek_sequence original_lines pattern line_index eof of
        Some start_idx \<Rightarrow> Inr (start_idx, length pattern, new_lines chunk)
      | None \<Rightarrow>
          if ends_with_empty pattern then
            (let pattern' = butlast pattern;
                 new_slice = (if ends_with_empty (new_lines chunk) then butlast (new_lines chunk)
                              else new_lines chunk) in
             case seek_sequence original_lines pattern' line_index eof of
               Some start_idx \<Rightarrow> Inr (start_idx, length pattern', new_slice)
             | None \<Rightarrow> Inl (msg_lines_not_found path (old_lines chunk)))
          else Inl (msg_lines_not_found path (old_lines chunk)))"

fun compute_loop ::
  "rstring list \<Rightarrow> rstring \<Rightarrow> nat \<Rightarrow> update_file_chunk list \<Rightarrow> rstring + replacement list" where
  "compute_loop original_lines path line_index [] = Inr []"
| "compute_loop original_lines path line_index (chunk # chunks) =
     (case seek_context original_lines path line_index chunk of
        Inl e \<Rightarrow> Inl e
      | Inr line_index' \<Rightarrow>
          if old_lines chunk = [] then
            map_sum id ((#) (insertion_idx original_lines, 0, new_lines chunk))
              (compute_loop original_lines path line_index' chunks)
          else
            (case locate_old_lines original_lines path line_index' chunk of
               Inl e \<Rightarrow> Inl e
             | Inr (start_idx, old_len, new_slice) \<Rightarrow>
                 map_sum id ((#) (start_idx, old_len, new_slice))
                   (compute_loop original_lines path (start_idx + old_len) chunks)))"

definition compute_replacements ::
  "rstring list \<Rightarrow> rstring \<Rightarrow> update_file_chunk list \<Rightarrow> rstring + replacement list" where
  "compute_replacements original_lines path chunks =
     map_sum id (sort_key fst) (compute_loop original_lines path 0 chunks)"

text \<open>\<^verbatim>\<open>apply_replacements\<close>; \<open>None\<close> is the panic of \<^verbatim>\<open>Vec::insert\<close> past the end.\<close>

fun remove_old :: "nat \<Rightarrow> nat \<Rightarrow> rstring list \<Rightarrow> rstring list" where
  "remove_old 0 start_idx lines = lines"
| "remove_old (Suc n) start_idx lines =
     remove_old n start_idx (if start_idx < length lines then vec_remove start_idx lines else lines)"

fun insert_new :: "nat \<Rightarrow> rstring list \<Rightarrow> rstring list \<Rightarrow> rstring list option" where
  "insert_new idx [] lines = Some lines"
| "insert_new idx (new_line # new_segment) lines =
     Option.bind (vec_insert idx new_line lines) (insert_new (Suc idx) new_segment)"

definition apply_one :: "replacement \<Rightarrow> rstring list \<Rightarrow> rstring list option" where
  "apply_one r lines =
     (case r of (start_idx, old_len, new_segment) \<Rightarrow>
        insert_new start_idx new_segment (remove_old old_len start_idx lines))"

fun apply_in_order :: "replacement list \<Rightarrow> rstring list \<Rightarrow> rstring list option" where
  "apply_in_order [] lines = Some lines"
| "apply_in_order (r # rs) lines = Option.bind (apply_one r lines) (apply_in_order rs)"

definition apply_replacements :: "rstring list \<Rightarrow> replacement list \<Rightarrow> rstring list option" where
  "apply_replacements lines replacements = apply_in_order (rev replacements) lines"

text \<open>
  The part of \<^verbatim>\<open>derive_new_contents_from_chunks\<close> after the file has been read: \<open>Inl\<close> is the
  \<^verbatim>\<open>ComputeReplacements\<close> error, \<open>Inr None\<close> would be a panic.
\<close>

definition file_lines :: "rstring \<Rightarrow> rstring list" where
  "file_lines contents =
     (let ls = split_on newline contents in if ends_with_empty ls then butlast ls else ls)"

definition lines_to_contents :: "rstring list \<Rightarrow> rstring" where
  "lines_to_contents new = join [newline] (if ends_with_empty new then new else new @ [[]])"

definition derive_new_contents ::
  "rstring \<Rightarrow> rstring \<Rightarrow> update_file_chunk list \<Rightarrow> rstring + rstring option" where
  "derive_new_contents original_contents path chunks =
     (let original_lines = file_lines original_contents in
      map_sum id (\<lambda>rs. map_option lines_to_contents (apply_replacements original_lines rs))
        (compute_replacements original_lines path chunks))"


section \<open>Applying one replacement\<close>

lemma remove_old_eq: "remove_old n s ls = take s ls @ drop (s + n) ls"
proof (induction n arbitrary: ls)
  case (Suc n)
  show ?case
  proof (cases "s < length ls")
    case True
    then show ?thesis
      by (simp add: Suc.IH vec_remove_def add.commute)
  qed (simp add: Suc.IH)
qed simp

lemma insert_new_eq:
  "i \<le> length ls \<Longrightarrow> insert_new i seg ls = Some (take i ls @ seg @ drop i ls)"
  by (induction i seg ls rule: insert_new.induct) (auto simp: vec_insert_def)

lemma apply_one_eq:
  "s \<le> length ls \<Longrightarrow> apply_one (s, n, seg) ls = Some (take s ls @ seg @ drop (s + n) ls)"
  by (simp add: apply_one_def remove_old_eq insert_new_eq)

lemma apply_in_order_append:
  "apply_in_order (xs @ ys) ls = Option.bind (apply_in_order xs ls) (apply_in_order ys)"
  by (induction xs arbitrary: ls) (auto split: Option.bind_splits)


section \<open>Replacements that do not overlap\<close>

text \<open>
  The specification: replacements in ascending order, each after the end of the one before
  and inside the file, rebuild the file from left to right.
\<close>

fun well_placed :: "nat \<Rightarrow> replacement list \<Rightarrow> nat \<Rightarrow> bool" where
  "well_placed pos [] len = (pos \<le> len)"
| "well_placed pos ((s, n, seg) # rs) len =
     (pos \<le> s \<and> s + n \<le> len \<and> well_placed (s + n) rs len)"

fun rebuild :: "nat \<Rightarrow> replacement list \<Rightarrow> rstring list \<Rightarrow> rstring list" where
  "rebuild pos [] ls = drop pos ls"
| "rebuild pos ((s, n, seg) # rs) ls =
     take (s - pos) (drop pos ls) @ seg @ rebuild (s + n) rs ls"

lemma apply_in_order_rebuild:
  "well_placed pos rs (length ls) \<Longrightarrow>
     apply_in_order (rev rs) ls = Some (take pos ls @ rebuild pos rs ls)"
proof (induction pos rs "length ls" rule: well_placed.induct)
  case (2 pos s n seg rs)
  then have IH: "apply_in_order (rev rs) ls = Some (take (s + n) ls @ rebuild (s + n) rs ls)"
    and le: "pos \<le> s" "s + n \<le> length ls" by auto
  have "take s ls = take pos ls @ take (s - pos) (drop pos ls)"
    using le(1) by (metis le_add_diff_inverse take_add)
  with le IH show ?case
    by (simp add: apply_in_order_append apply_one_eq min_def)
qed simp

lemma apply_replacements_rebuild:
  "well_placed 0 rs (length ls) \<Longrightarrow> apply_replacements ls rs = Some (rebuild 0 rs ls)"
  using apply_in_order_rebuild [of 0 rs ls] by (simp add: apply_replacements_def)


section \<open>Replacements never panic\<close>

lemma apply_in_order_descending:
  assumes "sorted (map fst (rev rs))" and "\<forall>r \<in> set rs. fst r \<le> length ls"
  shows "\<exists>ls'. apply_in_order rs ls = Some ls'"
  using assms
proof (induction rs arbitrary: ls)
  case (Cons r rs)
  obtain s n seg where r: "r = (s, n, seg)" by (cases r)
  have s: "s \<le> length ls" using Cons.prems r by simp
  then have "apply_one r ls = Some (take s ls @ seg @ drop (s + n) ls)"
    by (simp add: r apply_one_eq)
  moreover have "\<exists>ls'. apply_in_order rs (take s ls @ seg @ drop (s + n) ls) = Some ls'"
    using Cons.prems s r by (intro Cons.IH) (auto simp: sorted_append intro: trans_le_add1)
  ultimately show ?case by simp
qed simp

lemma apply_replacements_total:
  "sorted (map fst rs) \<Longrightarrow> \<forall>r \<in> set rs. fst r \<le> length ls \<Longrightarrow>
     \<exists>ls'. apply_replacements ls rs = Some ls'"
  unfolding apply_replacements_def by (rule apply_in_order_descending) auto

lemma seek_context_bound:
  assumes "seek_context ls path li chunk = Inr li'" and "li \<le> length ls"
  shows "li \<le> li' \<and> li' \<le> length ls"
  using assms seek_sequence_bound [of ls _ li False] seek_sequence_ge_start [of ls _ li]
  by (fastforce simp: seek_context_def split: option.splits)

lemma locate_old_lines_bound:
  assumes "locate_old_lines ls path li chunk = Inr (s, n, seg)" and "li \<le> length ls"
  shows "s + n \<le> length ls"
  using assms seek_sequence_bound [of ls "old_lines chunk" li "is_end_of_file chunk"]
    seek_sequence_bound [of ls "butlast (old_lines chunk)" li "is_end_of_file chunk"]
  by (auto simp: locate_old_lines_def Let_def split: option.splits if_splits)

lemma insertion_idx_bound [simp]: "insertion_idx ls \<le> length ls"
  by (simp add: insertion_idx_def)

text \<open>One iteration of the loop: a pure addition, or a located replacement.\<close>

lemma compute_loop_ConsE:
  assumes "compute_loop ls path li (chunk # chunks) = Inr rs"
  obtains
    (addition) li' rs' where "seek_context ls path li chunk = Inr li'" "old_lines chunk = []"
      "compute_loop ls path li' chunks = Inr rs'"
      "rs = (insertion_idx ls, 0, new_lines chunk) # rs'"
  | (replacement) li' s n seg rs' where "seek_context ls path li chunk = Inr li'"
      "old_lines chunk \<noteq> []" "locate_old_lines ls path li' chunk = Inr (s, n, seg)"
      "compute_loop ls path (s + n) chunks = Inr rs'" "rs = (s, n, seg) # rs'"
  using assms by (auto simp: map_sum_eq_Inr_iff split: sum.splits if_splits)

lemma compute_loop_bounds:
  "compute_loop ls path li chunks = Inr rs \<Longrightarrow> li \<le> length ls \<Longrightarrow>
     \<forall>(s, n, seg) \<in> set rs. s + n \<le> length ls"
proof (induction chunks arbitrary: li rs)
  case (Cons chunk chunks)
  from Cons.prems(1) show ?case
  proof (cases rule: compute_loop_ConsE)
    case (addition li' rs')
    then show ?thesis using Cons.IH Cons.prems(2) seek_context_bound by fastforce
  next
    case (replacement li' s n seg rs')
    have "s + n \<le> length ls"
      using replacement locate_old_lines_bound seek_context_bound Cons.prems(2) by blast
    with Cons.IH replacement show ?thesis by auto
  qed
qed simp

lemma compute_replacements_sorted:
  assumes "compute_replacements ls path chunks = Inr rs"
  shows "sorted (map fst rs)" and "\<forall>(s, n, seg) \<in> set rs. s + n \<le> length ls"
proof -
  obtain rs' where rs': "compute_loop ls path 0 chunks = Inr rs'" "rs = sort_key fst rs'"
    using assms by (cases "compute_loop ls path 0 chunks") (auto simp: compute_replacements_def)
  then show "sorted (map fst rs)" by simp
  show "\<forall>(s, n, seg) \<in> set rs. s + n \<le> length ls"
    using compute_loop_bounds [OF rs'(1)] rs'(2) by simp
qed


section \<open>Ordered chunks give replacements that do not overlap\<close>

text \<open>
  A chunk that replaces lines and is not anchored at the end of the file is searched for at
  or after the end of the previous one. Its replacement starts there.
\<close>

definition in_order_chunk :: "update_file_chunk \<Rightarrow> bool" where
  "in_order_chunk c \<longleftrightarrow> old_lines c \<noteq> [] \<and> \<not> is_end_of_file c"

lemma locate_old_lines_ge:
  assumes "locate_old_lines ls path li chunk = Inr (s, n, seg)" and "\<not> is_end_of_file chunk"
  shows "li \<le> s"
  using assms seek_sequence_ge_start [of ls "old_lines chunk" li]
    seek_sequence_ge_start [of ls "butlast (old_lines chunk)" li]
  by (auto simp: locate_old_lines_def Let_def split: option.splits if_splits)

lemma compute_loop_well_placed:
  "compute_loop ls path li chunks = Inr rs \<Longrightarrow> li \<le> length ls \<Longrightarrow> list_all in_order_chunk chunks \<Longrightarrow>
     pos \<le> li \<Longrightarrow> well_placed pos rs (length ls)"
proof (induction chunks arbitrary: li rs pos)
  case (Cons chunk chunks)
  from Cons.prems(1) show ?case
  proof (cases rule: compute_loop_ConsE)
    case (addition li' rs')
    then show ?thesis using Cons.prems(3) by (simp add: in_order_chunk_def)
  next
    case (replacement li' s n seg rs')
    have li': "li \<le> li'" "li' \<le> length ls"
      using seek_context_bound [OF replacement(1) Cons.prems(2)] by auto
    have "li' \<le> s"
      using locate_old_lines_ge [OF replacement(3)] Cons.prems(3) by (simp add: in_order_chunk_def)
    moreover have sn: "s + n \<le> length ls" using locate_old_lines_bound [OF replacement(3) li'(2)] .
    moreover have "well_placed (s + n) rs' (length ls)"
      using Cons.IH [OF replacement(4) sn] Cons.prems(3) by simp
    ultimately show ?thesis using replacement(5) li' Cons.prems(4) by simp
  qed
qed simp

lemma well_placed_starts: "well_placed pos rs len \<Longrightarrow> r \<in> set rs \<Longrightarrow> pos \<le> fst r"
  by (induction pos rs len rule: well_placed.induct) fastforce+

lemma well_placed_sorted: "well_placed pos rs len \<Longrightarrow> sorted (map fst rs)"
proof (induction pos rs len rule: well_placed.induct)
  case (2 pos s n seg rs len)
  then show ?case using well_placed_starts [of "s + n" rs len] by fastforce
qed simp

lemma compute_replacements_well_placed:
  assumes "compute_replacements ls path chunks = Inr rs" and "list_all in_order_chunk chunks"
  shows "well_placed 0 rs (length ls)" and "compute_loop ls path 0 chunks = Inr rs"
proof -
  obtain rs' where rs': "compute_loop ls path 0 chunks = Inr rs'" "rs = sort_key fst rs'"
    using assms(1) by (auto simp: compute_replacements_def map_sum_eq_Inr_iff)
  have wp: "well_placed 0 rs' (length ls)"
    using compute_loop_well_placed [OF rs'(1) _ assms(2)] by simp
  then have "rs = rs'" using rs'(2) by (simp add: well_placed_sorted sort_key_id_if_sorted)
  with wp rs'(1) show "well_placed 0 rs (length ls)" "compute_loop ls path 0 chunks = Inr rs"
    by simp_all
qed


section \<open>A diff applied to the file it was made from\<close>

text \<open>
  An edit script: gaps that stay, blocks \<open>old\<close> that become \<open>new\<close>, and the rest of the file. It is
  anchored when each block is the first occurrence of its text after the block before it,
  which is what lets a search without context find it.
\<close>

type_synonym edit = "rstring list \<times> rstring list \<times> rstring list"

fun old_text :: "edit list \<Rightarrow> rstring list \<Rightarrow> rstring list" where
  "old_text [] rest = rest"
| "old_text ((gap, old, new) # es) rest = gap @ old @ old_text es rest"

fun new_text :: "edit list \<Rightarrow> rstring list \<Rightarrow> rstring list" where
  "new_text [] rest = rest"
| "new_text ((gap, old, new) # es) rest = gap @ new @ new_text es rest"

fun edit_chunk :: "edit \<Rightarrow> update_file_chunk" where
  "edit_chunk (gap, old, new) =
     \<lparr>change_context = None, old_lines = old, new_lines = new, is_end_of_file = False\<rparr>"

fun anchored :: "edit list \<Rightarrow> rstring list \<Rightarrow> bool" where
  "anchored [] rest = True"
| "anchored ((gap, old, new) # es) rest =
     (old \<noteq> [] \<and>
      list_all (\<lambda>k. take (length old) (drop k (gap @ old @ old_text es rest)) \<noteq> old) [0 ..< length gap] \<and>
      anchored es rest)"

lemma seek_anchored:
  assumes "old \<noteq> []"
    and "\<And>k. k < length gap \<Longrightarrow> take (length old) (drop k (gap @ old @ rest)) \<noteq> old"
  shows "seek_sequence (pre @ gap @ old @ rest) old (length pre) False = Some (length pre + length gap)"
proof -
  let ?ls = "pre @ gap @ old @ rest" and ?j = "length pre + length gap"
  have start: "search_start_of ?ls old (length pre) False = length pre"
    by (simp add: search_start_of_def)
  obtain i where i: "seek_sequence ?ls old (length pre) False = Some i" "i \<le> ?j"
    "match_at id ?ls i old"
    using seek_sequence_exact [OF assms(1), of ?ls "length pre" False ?j]
    by (auto simp: start match_at_id_slice)
  have "length pre \<le> i" using seek_sequence_ge_start [OF i(1)] .
  moreover have "\<not> i < ?j"
  proof
    assume "i < ?j"
    with \<open>length pre \<le> i\<close> obtain k where k: "i = length pre + k" "k < length gap"
      by (metis add_less_cancel_left le_Suc_ex)
    have "take (length old) (drop k (gap @ old @ rest)) = old"
      using i(3) k by (subst (asm) match_at_id_slice) auto
    with assms(2) k show False by blast
  qed
  ultimately show ?thesis using i by simp
qed

lemma compute_loop_edits:
  assumes "anchored es rest"
  shows "\<exists>rs. compute_loop (pre @ old_text es rest) path (length pre) (map edit_chunk es) = Inr rs \<and>
    rebuild (length pre) rs (pre @ old_text es rest) = new_text es rest"
  using assms
proof (induction es arbitrary: pre)
  case (Cons e es)
  obtain gap old new where e: "e = (gap, old, new)" by (cases e)
  let ?ls = "pre @ old_text (e # es) rest" and ?pre = "pre @ gap @ old"
  have seek: "seek_sequence ?ls old (length pre) False = Some (length pre + length gap)"
    using Cons.prems e seek_anchored [of old gap "old_text es rest" pre]
    by (simp add: list_all_iff)
  have "?pre @ old_text es rest = ?ls" by (simp add: e)
  with Cons.IH [of ?pre] Cons.prems e obtain rs where
    "compute_loop ?ls path (length ?pre) (map edit_chunk es) = Inr rs"
    "rebuild (length ?pre) rs ?ls = new_text es rest"
    by force
  with seek Cons.prems e show ?case
    by (auto simp: seek_context_def locate_old_lines_def Let_def add.assoc)
qed simp

lemma edits_apply:
  assumes "anchored es rest"
  shows "\<exists>rs. compute_replacements (old_text es rest) path (map edit_chunk es) = Inr rs \<and>
    apply_replacements (old_text es rest) rs = Some (new_text es rest)"
proof -
  obtain rs where rs: "compute_loop (old_text es rest) path 0 (map edit_chunk es) = Inr rs"
    "rebuild 0 rs (old_text es rest) = new_text es rest"
    using compute_loop_edits [OF assms, of "[]" path] by auto
  have "list_all in_order_chunk (map edit_chunk es)"
    using assms by (induction es rest rule: anchored.induct) (auto simp: in_order_chunk_def)
  moreover have "compute_replacements (old_text es rest) path (map edit_chunk es) = Inr (sort_key fst rs)"
    using rs(1) by (simp add: compute_replacements_def)
  ultimately have "well_placed 0 (sort_key fst rs) (length (old_text es rest))"
    and "sort_key fst rs = rs"
    using compute_replacements_well_placed rs(1) by fastforce+
  with rs show ?thesis
    by (auto simp: compute_replacements_def apply_replacements_rebuild)
qed


section \<open>Contents and lines\<close>

lemma lines_to_contents_newline:
  "lines_to_contents ls = [] \<or> last (lines_to_contents ls) = newline"
proof -
  have "join [newline] (ys @ [[]]) = [] \<or> last (join [newline] (ys @ [[]])) = newline" for ys
    by (cases "ys = []") (auto simp: join_append)
  moreover have "\<exists>ys. lines_to_contents ls = join [newline] (ys @ [[]])"
    by (auto simp: lines_to_contents_def ends_with_empty_def last_opt_Some_iff)
  ultimately show ?thesis by metis
qed

lemma file_lines_no_newline: "l \<in> set (file_lines c) \<Longrightarrow> newline \<notin> set l"
  by (auto simp: file_lines_def Let_def dest: split_on_pieces in_set_butlastD split: if_splits)

text \<open>
  A file is read back from its lines, unless it ends in a blank line: that line's newline is
  taken for the final one.
\<close>

lemma file_lines_join:
  assumes "list_all (\<lambda>l. newline \<notin> set l) ls" and "\<not> ends_with_empty ls" and "ls \<noteq> []"
  shows "file_lines (join [newline] ls) = ls"
proof -
  have "split_on newline (join [newline] ls) = ls"
    using assms(1,3) by (intro split_on_join) (auto simp: list_all_iff)
  with assms(2) show ?thesis by (simp add: file_lines_def)
qed

lemma file_lines_join_final:
  assumes "list_all (\<lambda>l. newline \<notin> set l) ls"
  shows "file_lines (join [newline] (ls @ [[]])) = ls"
proof -
  have "split_on newline (join [newline] (ls @ [[]])) = ls @ [[]]"
    using assms by (intro split_on_join) (auto simp: list_all_iff)
  then show ?thesis by (simp add: file_lines_def ends_with_empty_def last_opt_def)
qed

lemma old_text_append: "old_text es (rest @ tail) = old_text es rest @ tail"
  by (induction es rest rule: old_text.induct) simp_all

lemma new_text_append: "new_text es (rest @ tail) = new_text es rest @ tail"
  by (induction es rest rule: new_text.induct) simp_all

lemma derive_edits:
  assumes "anchored es rest" and "file_lines original = old_text es rest"
  shows "derive_new_contents original path (map edit_chunk es) = Inr (Some (lines_to_contents (new_text es rest)))"
  using edits_apply [OF assms(1), of path] assms(2) by (auto simp: derive_new_contents_def Let_def)

section \<open>Properties\<close>

text \<open>
  C2. Chunks that are searched for in order give replacements that are ordered, disjoint and
  inside the file, and applying them from the last to the first, as the code does in place,
  rebuilds the file as one pass from left to right would.
\<close>

theorem update_in_order_refines:
  assumes "compute_replacements ls path chunks = Inr rs" and "list_all in_order_chunk chunks"
  shows "well_placed 0 rs (length ls) \<and> apply_replacements ls rs = Some (rebuild 0 rs ls)"
  using compute_replacements_well_placed(1) [OF assms] by (simp add: apply_replacements_rebuild)

definition sample_edits :: "edit list" where
  "sample_edits =
     [([lit ''a''], [lit ''b'', lit ''c''], [lit ''B'']), ([lit ''d''], [lit ''b''], [lit ''x'', lit ''y''])]"

theorem update_in_order_refines_witness:
  "apply_replacements (old_text sample_edits [lit ''z'']) [(1, 2, [lit ''B'']), (4, 1, [lit ''x'', lit ''y''])] =
     Some (rebuild 0 [(1, 2, [lit ''B'']), (4, 1, [lit ''x'', lit ''y''])] (old_text sample_edits [lit ''z'']))"
proof -
  have "compute_replacements (old_text sample_edits [lit ''z'']) (lit ''f'') (map edit_chunk sample_edits) =
      Inr [(1, 2, [lit ''B'']), (4, 1, [lit ''x'', lit ''y''])]"
    by code_simp
  moreover have "list_all in_order_chunk (map edit_chunk sample_edits)" by code_simp
  ultimately show ?thesis by (rule update_in_order_refines [THEN conjunct2])
qed



text \<open>
  Whatever the chunks are, an updated file is empty or ends with a newline.
\<close>

theorem updated_file_ends_with_newline:
  assumes "derive_new_contents original path chunks = Inr (Some contents)"
  shows "contents = [] \<or> last contents = newline"
proof -
  obtain ls where "contents = lines_to_contents ls"
    using assms by (auto simp: derive_new_contents_def Let_def map_sum_eq_Inr_iff eq_commute [of "Some contents"])
  then show ?thesis using lines_to_contents_newline by simp
qed

theorem updated_file_ends_with_newline_witness:
  "lit ''b'' @ [newline] = [] \<or> last (lit ''b'' @ [newline]) = newline"
proof (rule updated_file_ends_with_newline)
  show "derive_new_contents (lit ''a'') (lit ''f'') [edit_chunk ([], [lit ''a''], [lit ''b''])] =
    Inr (Some (lit ''b'' @ [newline]))"
    by code_simp
qed

text \<open>
  C21. An update of a file that ends in a blank line loses one newline there, wherever the changes are: for any list of
  chunks without context line and end-of-file mark, each the first occurrence of its text after the one before and none
  touching the blank line, the text that ends in two newlines becomes one that ends in a single newline. The blank line is mistaken for the marker of the final newline.
\<close>

theorem blank_last_line_is_lost:
  assumes "anchored es (rest @ [[]])" and "list_all (\<lambda>l. newline \<notin> set l) (old_text es rest)"
  shows "derive_new_contents (join [newline] (old_text es rest @ [[], []])) path (map edit_chunk es) =
    Inr (Some (join [newline] (new_text es rest @ [[]])))"
proof -
  have "file_lines (join [newline] ((old_text es rest @ [[]]) @ [[]])) = old_text es (rest @ [[]])"
    using assms(2) file_lines_join_final [of "old_text es rest @ [[]]"] by (simp add: old_text_append)
  from derive_edits [OF assms(1) this] show ?thesis
    by (simp add: lines_to_contents_def ends_with_empty_def last_opt_def new_text_append)
qed

theorem blank_last_line_is_lost_witness:
  "derive_new_contents (join [newline] (old_text sample_edits [lit ''z''] @ [[], []])) (lit ''f'') (map edit_chunk sample_edits) =
   Inr (Some (join [newline] (new_text sample_edits [lit ''z''] @ [[]])))"
  by (rule blank_last_line_is_lost; code_simp)

text \<open>
  Two updates whose replacements overlap, so that the later lines are lost without an error: a
  pure addition beside a replacement of the last line, and an end-of-file chunk inside one.
\<close>

lemma addition_lost_beside_last_line:
  "Option.bind
     (case compute_replacements [lit ''a'', []] (lit ''f'')
        [\<lparr>change_context = None, old_lines = [lit ''a'', []], new_lines = [lit ''b'', []], is_end_of_file = False\<rparr>,
         \<lparr>change_context = None, old_lines = [], new_lines = [lit ''x''], is_end_of_file = False\<rparr>] of
        Inl _ \<Rightarrow> None | Inr rs \<Rightarrow> Some rs)
     (apply_replacements [lit ''a'', []]) = Some [lit ''b'', [], []]"
  by code_simp

lemma end_of_file_chunk_lost:
  "Option.bind
     (case compute_replacements [lit ''a'', lit ''b''] (lit ''f'')
        [\<lparr>change_context = None, old_lines = [lit ''a'', lit ''b''], new_lines = [lit ''c'', lit ''d''], is_end_of_file = False\<rparr>,
         \<lparr>change_context = None, old_lines = [lit ''b''], new_lines = [lit ''e''], is_end_of_file = True\<rparr>] of
        Inl _ \<Rightarrow> None | Inr rs \<Rightarrow> Some rs)
     (apply_replacements [lit ''a'', lit ''b'']) = Some [lit ''c'', lit ''d'']"
  by code_simp

end
