(* ===== verification/Apply_Files.thy ===== *)
theory Apply_Files
  imports Replacements
begin

text \<open>
  \<^verbatim>\<open>codex-rs/apply-patch/src/lib.rs\<close>: applying hunks to a file system and recording what was
  committed (\<^verbatim>\<open>AppliedPatchDelta\<close>).

  The file system (\<^verbatim>\<open>ExecutorFileSystem\<close>) and path URIs (\<^verbatim>\<open>PathUri\<close>, built on the \<^verbatim>\<open>url\<close> crate)
  are parameters: a record of operations on an abstract world \<open>'w\<close> and on abstract paths \<open>'u\<close>.
  An operation that may change the world returns the world it leaves, also when it fails.
\<close>

section \<open>Parameters: file system and paths\<close>

datatype io_error_kind = NotFound | InvalidInput | OtherKind

record io_error =
  io_kind :: io_error_kind
  io_message :: rstring

record file_metadata =
  is_directory :: bool
  is_file :: bool
  is_symlink :: bool

record ('w, 'u) executor_file_system =
  read_file_text :: "'w \<Rightarrow> 'u \<Rightarrow> io_error + rstring"
  write_file :: "'w \<Rightarrow> 'u \<Rightarrow> rstring \<Rightarrow> io_error option \<times> 'w"
  create_directory :: "'w \<Rightarrow> 'u \<Rightarrow> io_error option \<times> 'w"
  get_metadata :: "'w \<Rightarrow> 'u \<Rightarrow> io_error + file_metadata"
  remove_file :: "'w \<Rightarrow> 'u \<Rightarrow> io_error option \<times> 'w"

record ('u, 'x) path_ops =
  path_join :: "'u \<Rightarrow> rstring \<Rightarrow> 'x + 'u"
  path_parent :: "'u \<Rightarrow> 'u option"
  native_path_string :: "'u \<Rightarrow> rstring"


section \<open>Changes, deltas and errors\<close>

datatype 'u file_change =
    ChangeAdd rstring "rstring option"
  | ChangeDelete rstring
  | ChangeUpdate "'u option" rstring "rstring option" rstring

type_synonym 'u patch_change = "'u \<times> 'u file_change"

record 'u applied_patch_delta =
  changes :: "'u patch_change list"
  exact :: bool

definition empty_delta :: "'u applied_patch_delta" where
  "empty_delta = \<lparr>changes = [], exact = True\<rparr>"

definition delta_append :: "'u applied_patch_delta \<Rightarrow> 'u applied_patch_delta \<Rightarrow> 'u applied_patch_delta" where
  "delta_append d d' = \<lparr>changes = changes d @ changes d', exact = (exact d \<and> exact d')\<rparr>"

text \<open>
  The \<^verbatim>\<open>anyhow\<close> errors of \<^verbatim>\<open>apply_hunks_to_files\<close>. \<open>IoWithContext\<close> is an \<^verbatim>\<open>io::Error\<close> under a
  context message, which \<^verbatim>\<open>downcast_ref\<close> still finds; \<open>ReadForUpdate\<close> is
  \<^verbatim>\<open>ApplyPatchError::IoError\<close>, which it does not. \<open>Panicked\<close> marks a panic of the pure core.
\<close>

datatype 'x file_error =
    NoFilesModified
  | PathUriError 'x
  | IoWithContext rstring io_error
  | ReadForUpdate rstring io_error
  | ComputeReplacements rstring
  | Panicked

record affected_paths =
  added :: "rstring list"
  modified :: "rstring list"
  deleted :: "rstring list"

record ('w, 'u) apply_state =
  world :: 'w
  delta :: "'u applied_patch_delta"
  affected :: affected_paths


section \<open>Reading, writing and removing with delta bookkeeping\<close>

definition ensure_not_directory ::
  "('w, 'u) executor_file_system \<Rightarrow> 'w \<Rightarrow> 'u \<Rightarrow> io_error option" where
  "ensure_not_directory fs w path =
     (case get_metadata fs w path of
        Inl e \<Rightarrow> Some e
      | Inr metadata \<Rightarrow>
          if is_directory metadata
          then Some \<lparr>io_kind = InvalidInput, io_message = lit ''path is a directory''\<rparr>
          else None)"

definition remove_failure_was_side_effect_free ::
  "('w, 'u) executor_file_system \<Rightarrow> 'w \<Rightarrow> 'u \<Rightarrow> rstring option \<Rightarrow> bool" where
  "remove_failure_was_side_effect_free fs w path expected_content =
     (case expected_content of
        Some expected \<Rightarrow> (case read_file_text fs w path of Inr content \<Rightarrow> content = expected | Inl _ \<Rightarrow> False)
      | None \<Rightarrow> False)"

definition note_existing_path_delta_support ::
  "('w, 'u) executor_file_system \<Rightarrow> 'w \<Rightarrow> 'u \<Rightarrow> bool \<Rightarrow> bool" where
  "note_existing_path_delta_support fs w path ex =
     (case get_metadata fs w path of
        Inr metadata \<Rightarrow> if is_file metadata \<and> \<not> is_symlink metadata then ex else False
      | Inl source \<Rightarrow> if io_kind source = NotFound then ex else False)"

definition read_optional_file_text_for_delta ::
  "('w, 'u) executor_file_system \<Rightarrow> 'w \<Rightarrow> 'u \<Rightarrow> bool \<Rightarrow> rstring option \<times> bool" where
  "read_optional_file_text_for_delta fs w path ex =
     (let ex' = note_existing_path_delta_support fs w path ex in
      case read_file_text fs w path of
        Inr content \<Rightarrow> (Some content, ex')
      | Inl source \<Rightarrow> if io_kind source = NotFound then (None, ex') else (None, False))"

definition write_file_with_missing_parent_retry ::
  "('w, 'u) executor_file_system \<Rightarrow> ('u, 'x) path_ops \<Rightarrow> 'w \<Rightarrow> 'u \<Rightarrow> rstring \<Rightarrow>
   'x file_error option \<times> 'w" where
  "write_file_with_missing_parent_retry fs po w path contents =
     (let write_msg = lit ''Failed to write file '' @ native_path_string po path in
      case write_file fs w path contents of
        (None, w1) \<Rightarrow> (None, w1)
      | (Some err, w1) \<Rightarrow>
          if io_kind err = NotFound then
            (case (case path_parent po path of
                     None \<Rightarrow> (None, w1)
                   | Some parent \<Rightarrow> create_directory fs w1 parent) of
               (Some e, w2) \<Rightarrow>
                 (Some (IoWithContext (lit ''Failed to create parent directories for '' @
                    native_path_string po path) e), w2)
             | (None, w2) \<Rightarrow>
                 (case write_file fs w2 path contents of
                    (Some e, w3) \<Rightarrow> (Some (IoWithContext write_msg e), w3)
                  | (None, w3) \<Rightarrow> (None, w3)))
          else (Some (IoWithContext write_msg err), w1))"

definition derive_new_contents_from_chunks ::
  "('w, 'u) executor_file_system \<Rightarrow> ('u, 'x) path_ops \<Rightarrow> 'w \<Rightarrow> 'u \<Rightarrow> update_file_chunk list \<Rightarrow>
   'x file_error + rstring \<times> rstring" where
  "derive_new_contents_from_chunks fs po w path chunks =
     (case read_file_text fs w path of
        Inl err \<Rightarrow> Inl (ReadForUpdate (lit ''Failed to read file to update '' @ native_path_string po path) err)
      | Inr original_contents \<Rightarrow>
          (case derive_new_contents original_contents (native_path_string po path) chunks of
             Inl msg \<Rightarrow> Inl (ComputeReplacements msg)
           | Inr None \<Rightarrow> Inl Panicked
           | Inr (Some new_contents) \<Rightarrow> Inr (original_contents, new_contents)))"


section \<open>Hunks\<close>

abbreviation set_exact :: "bool \<Rightarrow> ('w, 'u) apply_state \<Rightarrow> ('w, 'u) apply_state" where
  "set_exact ex st \<equiv> st\<lparr>delta := (delta st)\<lparr>exact := ex\<rparr>\<rparr>"

abbreviation push_change :: "'u patch_change \<Rightarrow> ('w, 'u) apply_state \<Rightarrow> ('w, 'u) apply_state" where
  "push_change c st \<equiv> st\<lparr>delta := (delta st)\<lparr>changes := changes (delta st) @ [c]\<rparr>\<rparr>"

definition apply_add_file ::
  "('w, 'u) executor_file_system \<Rightarrow> ('u, 'x) path_ops \<Rightarrow> rstring \<Rightarrow> 'u \<Rightarrow> rstring \<Rightarrow>
   ('w, 'u) apply_state \<Rightarrow> 'x file_error option \<times> ('w, 'u) apply_state" where
  "apply_add_file fs po affected_path path contents st =
     (let (overwritten, ex) = read_optional_file_text_for_delta fs (world st) path (exact (delta st));
          st1 = set_exact ex st in
      case write_file_with_missing_parent_retry fs po (world st1) path contents of
        (Some e, w) \<Rightarrow> (Some e, set_exact False (st1\<lparr>world := w\<rparr>))
      | (None, w) \<Rightarrow>
          (None, (push_change (path, ChangeAdd contents overwritten) (st1\<lparr>world := w\<rparr>))
             \<lparr>affected := (affected st)\<lparr>added := added (affected st) @ [affected_path]\<rparr>\<rparr>))"

definition apply_delete_file ::
  "('w, 'u) executor_file_system \<Rightarrow> ('u, 'x) path_ops \<Rightarrow> rstring \<Rightarrow> 'u \<Rightarrow>
   ('w, 'u) apply_state \<Rightarrow> 'x file_error option \<times> ('w, 'u) apply_state" where
  "apply_delete_file fs po affected_path path st =
     (let msg = lit ''Failed to delete file '' @ native_path_string po path;
          ex = note_existing_path_delta_support fs (world st) path (exact (delta st));
          deleted_content = (case read_file_text fs (world st) path of Inr c \<Rightarrow> Some c | Inl _ \<Rightarrow> None);
          st1 = set_exact (if deleted_content = None then False else ex) st in
      case ensure_not_directory fs (world st1) path of
        Some e \<Rightarrow> (Some (IoWithContext msg e), st1)
      | None \<Rightarrow>
          (case remove_file fs (world st1) path of
             (Some e, w) \<Rightarrow>
               (Some (IoWithContext msg e),
                set_exact (exact (delta st1) \<and>
                    remove_failure_was_side_effect_free fs w path deleted_content)
                  (st1\<lparr>world := w\<rparr>))
           | (None, w) \<Rightarrow>
               (let st2 = st1\<lparr>world := w\<rparr>;
                    st3 = (case deleted_content of
                             Some content \<Rightarrow> push_change (path, ChangeDelete content) st2
                           | None \<Rightarrow> st2) in
                (None, st3\<lparr>affected := (affected st)\<lparr>deleted := deleted (affected st) @ [affected_path]\<rparr>\<rparr>))))"

definition apply_move ::
  "('w, 'u) executor_file_system \<Rightarrow> ('u, 'x) path_ops \<Rightarrow> rstring \<Rightarrow> 'u \<Rightarrow> 'u \<Rightarrow> rstring \<Rightarrow> rstring \<Rightarrow>
   ('w, 'u) apply_state \<Rightarrow> 'x file_error option \<times> ('w, 'u) apply_state" where
  "apply_move fs po affected_path path dest original_contents new_contents st =
     (let msg = lit ''Failed to remove original '' @ native_path_string po path;
          (overwritten, ex) = read_optional_file_text_for_delta fs (world st) dest (exact (delta st));
          st1 = set_exact ex st in
      case write_file_with_missing_parent_retry fs po (world st1) dest new_contents of
        (Some e, w) \<Rightarrow> (Some e, set_exact False (st1\<lparr>world := w\<rparr>))
      | (None, w) \<Rightarrow>
          (let dest_write_change_index = length (changes (delta st1));
               st2 = push_change (dest, ChangeAdd new_contents overwritten) (st1\<lparr>world := w\<rparr>) in
           case ensure_not_directory fs (world st2) path of
             Some e \<Rightarrow> (Some (IoWithContext msg e), st2)
           | None \<Rightarrow>
               (case remove_file fs (world st2) path of
                  (Some e, w') \<Rightarrow>
                    (Some (IoWithContext msg e),
                     set_exact (exact (delta st2) \<and>
                         remove_failure_was_side_effect_free fs w' path (Some original_contents))
                       (st2\<lparr>world := w'\<rparr>))
                | (None, w') \<Rightarrow>
                    (None, st2\<lparr>world := w',
                       delta := (delta st2)\<lparr>changes := (changes (delta st2))[dest_write_change_index :=
                         (path, ChangeUpdate (Some dest) original_contents overwritten new_contents)]\<rparr>,
                       affected := (affected st)\<lparr>modified := modified (affected st) @ [affected_path]\<rparr>\<rparr>))))"

definition apply_update_file ::
  "('w, 'u) executor_file_system \<Rightarrow> ('u, 'x) path_ops \<Rightarrow> 'u \<Rightarrow> rstring \<Rightarrow> 'u \<Rightarrow> rstring option \<Rightarrow>
   update_file_chunk list \<Rightarrow> ('w, 'u) apply_state \<Rightarrow> 'x file_error option \<times> ('w, 'u) apply_state" where
  "apply_update_file fs po cwd affected_path path move_path chunks st =
     (let st1 = set_exact (note_existing_path_delta_support fs (world st) path (exact (delta st))) st in
      case derive_new_contents_from_chunks fs po (world st1) path chunks of
        Inl e \<Rightarrow> (Some e, st1)
      | Inr (original_contents, new_contents) \<Rightarrow>
          (case move_path of
             Some dest \<Rightarrow>
               (case path_join po cwd dest of
                  Inl e \<Rightarrow> (Some (PathUriError e), st1)
                | Inr dest_uri \<Rightarrow>
                    apply_move fs po affected_path path dest_uri original_contents new_contents st1)
           | None \<Rightarrow>
               (case write_file fs (world st1) path new_contents of
                  (Some e, w) \<Rightarrow>
                    (Some (IoWithContext (lit ''Failed to write file '' @ native_path_string po path) e),
                     set_exact False (st1\<lparr>world := w\<rparr>))
                | (None, w) \<Rightarrow>
                    (None, (push_change (path, ChangeUpdate None original_contents None new_contents)
                        (st1\<lparr>world := w\<rparr>))
                      \<lparr>affected := (affected st)\<lparr>modified := modified (affected st) @ [affected_path]\<rparr>\<rparr>))))"

definition apply_hunk ::
  "('w, 'u) executor_file_system \<Rightarrow> ('u, 'x) path_ops \<Rightarrow> 'u \<Rightarrow> hunk \<Rightarrow>
   ('w, 'u) apply_state \<Rightarrow> 'x file_error option \<times> ('w, 'u) apply_state" where
  "apply_hunk fs po cwd hunk st =
     (case path_join po cwd (hunk_source_path hunk) of
        Inl e \<Rightarrow> (Some (PathUriError e), st)
      | Inr path \<Rightarrow>
          (case hunk of
             AddFile _ contents \<Rightarrow> apply_add_file fs po (hunk_path hunk) path contents st
           | DeleteFile _ \<Rightarrow> apply_delete_file fs po (hunk_path hunk) path st
           | UpdateFile _ move_path chunks \<Rightarrow>
               apply_update_file fs po cwd (hunk_path hunk) path move_path chunks st))"

fun apply_hunk_loop ::
  "('w, 'u) executor_file_system \<Rightarrow> ('u, 'x) path_ops \<Rightarrow> 'u \<Rightarrow> hunk list \<Rightarrow>
   ('w, 'u) apply_state \<Rightarrow> 'x file_error option \<times> ('w, 'u) apply_state" where
  "apply_hunk_loop fs po cwd [] st = (None, st)"
| "apply_hunk_loop fs po cwd (h # hs) st =
     (case apply_hunk fs po cwd h st of
        (Some e, st') \<Rightarrow> (Some e, st')
      | (None, st') \<Rightarrow> apply_hunk_loop fs po cwd hs st')"

definition initial_state :: "'w \<Rightarrow> ('w, 'u) apply_state" where
  "initial_state w =
     \<lparr>world = w, delta = empty_delta, affected = \<lparr>added = [], modified = [], deleted = []\<rparr>\<rparr>"

definition apply_hunks_to_files ::
  "('w, 'u) executor_file_system \<Rightarrow> ('u, 'x) path_ops \<Rightarrow> 'u \<Rightarrow> hunk list \<Rightarrow> 'w \<Rightarrow>
   'x file_error option \<times> ('w, 'u) apply_state" where
  "apply_hunks_to_files fs po cwd hs w =
     (if hs = [] then (Some NoFilesModified, initial_state w)
      else apply_hunk_loop fs po cwd hs (initial_state w))"


section \<open>What the delta promises\<close>

text \<open>
  The behaviour of a file system the delta relies on, for a view \<open>content\<close> of a world as the
  texts at each path: reads are truthful, a successful write or remove changes exactly its
  path, a failed write leaves every other path alone, a failed remove does too and at its own
  path can only have removed, and creating directories changes no text.
\<close>

definition text_fs :: "('w, 'u) executor_file_system \<Rightarrow> ('w \<Rightarrow> 'u \<Rightarrow> rstring option) \<Rightarrow> bool" where
  "text_fs fs content \<longleftrightarrow>
     (\<forall>w p c. read_file_text fs w p = Inr c \<longrightarrow> content w p = Some c) \<and>
     (\<forall>w p e. read_file_text fs w p = Inl e \<and> io_kind e = NotFound \<longrightarrow> content w p = None) \<and>
     (\<forall>w p c w'. write_file fs w p c = (None, w') \<longrightarrow> content w' = (content w)(p \<mapsto> c)) \<and>
     (\<forall>w p c e w'. write_file fs w p c = (Some e, w') \<longrightarrow> (\<forall>q. q \<noteq> p \<longrightarrow> content w' q = content w q)) \<and>
     (\<forall>w p r w'. create_directory fs w p = (r, w') \<longrightarrow> content w' = content w) \<and>
     (\<forall>w p w'. remove_file fs w p = (None, w') \<longrightarrow> content w' = (content w)(p := None)) \<and>
     (\<forall>w p e w'. remove_file fs w p = (Some e, w') \<longrightarrow>
        (\<forall>q. q \<noteq> p \<longrightarrow> content w' q = content w q) \<and> (content w' p = content w p \<or> content w' p = None))"

text \<open>Replaying a committed change on the texts before it, and undoing it on the texts after it.\<close>

fun replay_change :: "'u patch_change \<Rightarrow> ('u \<rightharpoonup> rstring) \<Rightarrow> ('u \<rightharpoonup> rstring)" where
  "replay_change (p, ChangeAdd new overwritten) m = m(p \<mapsto> new)"
| "replay_change (p, ChangeDelete old) m = m(p := None)"
| "replay_change (p, ChangeUpdate None old overwritten new) m = m(p \<mapsto> new)"
| "replay_change (p, ChangeUpdate (Some dest) old overwritten new) m = (m(dest \<mapsto> new))(p := None)"

fun undo_change :: "'u patch_change \<Rightarrow> ('u \<rightharpoonup> rstring) \<Rightarrow> ('u \<rightharpoonup> rstring)" where
  "undo_change (p, ChangeAdd new overwritten) m = m(p := overwritten)"
| "undo_change (p, ChangeDelete old) m = m(p \<mapsto> old)"
| "undo_change (p, ChangeUpdate None old overwritten new) m = m(p \<mapsto> old)"
| "undo_change (p, ChangeUpdate (Some dest) old overwritten new) m = (m(dest := overwritten))(p \<mapsto> old)"

definition replay :: "'u patch_change list \<Rightarrow> ('u \<rightharpoonup> rstring) \<Rightarrow> ('u \<rightharpoonup> rstring)" where
  "replay cs m = fold replay_change cs m"

definition undo :: "'u patch_change list \<Rightarrow> ('u \<rightharpoonup> rstring) \<Rightarrow> ('u \<rightharpoonup> rstring)" where
  "undo cs m = foldr undo_change cs m"

text \<open>
  A step from one state of the applier to another: the changes grow, and as long as the delta
  is exact the new changes account for the world in both directions.
\<close>

definition delta_step ::
  "('w \<Rightarrow> 'u \<Rightarrow> rstring option) \<Rightarrow> ('w, 'u) apply_state \<Rightarrow> ('w, 'u) apply_state \<Rightarrow> bool" where
  "delta_step content st st' \<longleftrightarrow>
     (\<exists>cs. changes (delta st') = changes (delta st) @ cs \<and>
        (exact (delta st') \<longrightarrow> exact (delta st) \<and>
           content (world st') = replay cs (content (world st)) \<and>
           undo cs (content (world st')) = content (world st)))"

lemma delta_step_refl [simp]: "delta_step content st st"
  by (auto simp: delta_step_def replay_def undo_def intro: exI [of _ "[]"])

lemma delta_step_trans:
  assumes "delta_step content a b" and "delta_step content b c"
  shows "delta_step content a c"
proof -
  from assms obtain xs ys where
    xs: "changes (delta b) = changes (delta a) @ xs" "exact (delta b) \<longrightarrow> exact (delta a) \<and>
      content (world b) = replay xs (content (world a)) \<and> undo xs (content (world b)) = content (world a)"
    and ys: "changes (delta c) = changes (delta b) @ ys" "exact (delta c) \<longrightarrow> exact (delta b) \<and>
      content (world c) = replay ys (content (world b)) \<and> undo ys (content (world c)) = content (world b)"
    unfolding delta_step_def by auto
  then show ?thesis
    unfolding delta_step_def by (intro exI [of _ "xs @ ys"]) (auto simp: replay_def undo_def)
qed

lemma delta_step_inexact:
  "changes (delta st') = changes (delta st) @ cs \<Longrightarrow> \<not> exact (delta st') \<Longrightarrow> delta_step content st st'"
  by (auto simp: delta_step_def)

lemma delta_step_set_exact:
  "(ex \<Longrightarrow> exact (delta st)) \<Longrightarrow> delta_step content st (set_exact ex st)"
  by (auto simp: delta_step_def replay_def undo_def)

lemma delta_step_one:
  assumes "changes (delta st') = changes (delta st) @ [c]"
    and "exact (delta st') \<Longrightarrow> exact (delta st)"
    and "exact (delta st') \<Longrightarrow> content (world st') = replay_change c (content (world st))"
    and "exact (delta st') \<Longrightarrow> undo_change c (content (world st')) = content (world st)"
  shows "delta_step content st st'"
  using assms by (auto simp: delta_step_def replay_def undo_def)

lemma delta_step_same_content:
  assumes "changes (delta st') = changes (delta st)"
    and "exact (delta st') \<Longrightarrow> exact (delta st) \<and> content (world st') = content (world st)"
  shows "delta_step content st st'"
  using assms by (auto simp: delta_step_def replay_def undo_def intro: exI [of _ "[]"])

subsection \<open>Each operation is such a step\<close>

lemma note_existing_exact:
  "note_existing_path_delta_support fs w path ex \<Longrightarrow> ex"
  by (auto simp: note_existing_path_delta_support_def split: sum.splits if_splits)

lemma read_optional_exact:
  assumes "text_fs fs content" and "read_optional_file_text_for_delta fs w path ex = (ov, True)"
  shows "ex" and "content w path = ov"
  using assms note_existing_exact [of fs w path ex]
  by (auto simp: read_optional_file_text_for_delta_def text_fs_def Let_def split: sum.splits if_splits)

lemma write_retry_content:
  assumes "text_fs fs content" and "write_file_with_missing_parent_retry fs po w path c = (None, w')"
  shows "content w' = (content w)(path \<mapsto> c)"
proof -
  have wr: "write_file fs v path c = (None, v') \<Longrightarrow> content v' = (content v)(path \<mapsto> c)" for v v'
    using assms(1) by (simp add: text_fs_def)
  show ?thesis
  proof (cases "write_file fs w path c")
    case (Pair r w1)
    show ?thesis
    proof (cases r)
      case None
      with Pair assms(2) wr show ?thesis
        by (simp add: write_file_with_missing_parent_retry_def Let_def)
    next
      case (Some e)
      have other: "\<forall>q. q \<noteq> path \<longrightarrow> content w1 q = content w q"
        using assms(1) Pair Some unfolding text_fs_def by blast
      from assms(2) Pair Some obtain w2 where
        w2: "(case path_parent po path of None \<Rightarrow> (None, w1) | Some parent \<Rightarrow> create_directory fs w1 parent)
          = (None, w2)" and w3: "write_file fs w2 path c = (None, w')"
        by (auto simp: write_file_with_missing_parent_retry_def Let_def
            split: if_splits prod.splits option.splits)
      from w2 have "content w2 = content w1"
        using assms(1) unfolding text_fs_def by (auto split: option.splits)
      with wr [OF w3] other show ?thesis by auto
    qed
  qed
qed

lemma remove_failed_laws:
  "text_fs fs content \<Longrightarrow> remove_file fs w path = (Some e, w') \<Longrightarrow>
     (\<forall>q. q \<noteq> path \<longrightarrow> content w' q = content w q) \<and>
     (content w' path = content w path \<or> content w' path = None)"
  by (simp add: text_fs_def)

lemma remove_failed_content:
  assumes "text_fs fs content" and "remove_file fs w path = (Some e, w')"
    and "remove_failure_was_side_effect_free fs w' path expected"
  shows "content w' = content w"
proof -
  have "content w' path \<noteq> None"
    using assms(1,3) by (auto simp: remove_failure_was_side_effect_free_def text_fs_def
        split: option.splits sum.splits)
  with remove_failed_laws [OF assms(1,2)] show ?thesis by (metis ext)
qed

lemma remove_ok_content:
  "text_fs fs content \<Longrightarrow> remove_file fs w path = (None, w') \<Longrightarrow> content w' = (content w)(path := None)"
  by (simp add: text_fs_def)

lemma apply_add_file_step:
  assumes "text_fs fs content"
  shows "delta_step content st (snd (apply_add_file fs po ap path c st))"
proof -
  obtain ov ex where ro: "read_optional_file_text_for_delta fs (world st) path (exact (delta st)) = (ov, ex)"
    by (cases "read_optional_file_text_for_delta fs (world st) path (exact (delta st))")
  obtain r w where wr: "write_file_with_missing_parent_retry fs po (world st) path c = (r, w)"
    by (cases "write_file_with_missing_parent_retry fs po (world st) path c")
  show ?thesis
  proof (cases r)
    case None
    with wr have cw: "content w = (content (world st))(path \<mapsto> c)"
      using write_retry_content [OF assms] by simp
    show ?thesis
      using ro wr None cw read_optional_exact [OF assms, of "world st" path "exact (delta st)" ov]
      by (cases ex)
        (auto simp: apply_add_file_def Let_def intro!: delta_step_one [of _ _ "(path, ChangeAdd c ov)"])
  next
    case (Some e)
    then show ?thesis
      using ro wr by (auto simp: apply_add_file_def Let_def intro!: delta_step_inexact)
  qed
qed


lemma apply_delete_file_step:
  assumes "text_fs fs content"
  shows "delta_step content st (snd (apply_delete_file fs po ap path st))"
proof -
  let ?ex = "note_existing_path_delta_support fs (world st) path (exact (delta st))"
  let ?dc = "case read_file_text fs (world st) path of Inr c \<Rightarrow> Some c | Inl _ \<Rightarrow> None"
  let ?st1 = "set_exact (if ?dc = None then False else ?ex) st"
  have st1: "delta_step content st ?st1"
    by (rule delta_step_set_exact) (auto dest: note_existing_exact split: if_splits)
  obtain r w where rm: "remove_file fs (world st) path = (r, w)"
    by (cases "remove_file fs (world st) path")
  have dc: "?dc = Some c \<Longrightarrow> content (world st) path = Some c" for c
    using assms by (auto simp: text_fs_def split: sum.splits)
  show ?thesis
  proof (cases "ensure_not_directory fs (world st) path")
    case None
    show ?thesis
    proof (cases r)
      case ok: None
      note cw = remove_ok_content [OF assms rm [unfolded ok]]
      have "delta_step content ?st1 (snd (apply_delete_file fs po ap path st))"
      proof (cases "?dc")
        case None': None
        with rm ok None show ?thesis
          by (simp add: apply_delete_file_def Let_def) (rule delta_step_inexact [of _ _ "[]"]; simp)
      next
        case (Some c)
        with rm ok None cw dc [OF Some] show ?thesis
          by (auto simp: apply_delete_file_def Let_def
              intro!: delta_step_one [of _ _ "(path, ChangeDelete c)"])
      qed
      with st1 show ?thesis by (rule delta_step_trans)
    next
      case (Some e)
      have "delta_step content ?st1 (snd (apply_delete_file fs po ap path st))"
        using rm None Some remove_failed_content [OF assms rm [unfolded Some]]
        by (auto simp: apply_delete_file_def Let_def intro!: delta_step_same_content)
      with st1 show ?thesis by (rule delta_step_trans)
    qed
  next
    case (Some e)
    with st1 show ?thesis by (simp add: apply_delete_file_def Let_def)
  qed
qed

lemma apply_move_step:
  assumes "text_fs fs content" and "content (world st) path = Some old"
  shows "delta_step content st (snd (apply_move fs po ap path dest old new st))"
proof -
  obtain ov ex where ro: "read_optional_file_text_for_delta fs (world st) dest (exact (delta st)) = (ov, ex)"
    by (cases "read_optional_file_text_for_delta fs (world st) dest (exact (delta st))")
  obtain r w where wr: "write_file_with_missing_parent_retry fs po (world st) dest new = (r, w)"
    by (cases "write_file_with_missing_parent_retry fs po (world st) dest new")
  have ov: "ex \<Longrightarrow> exact (delta st) \<and> content (world st) dest = ov"
    using read_optional_exact [OF assms(1), of "world st" dest "exact (delta st)" ov] ro
    by (cases ex) auto
  show ?thesis
  proof (cases r)
    case None
    then have cw: "content w = (content (world st))(dest \<mapsto> new)"
      using write_retry_content [OF assms(1)] wr by simp
    let ?st2 = "push_change (dest, ChangeAdd new ov) ((set_exact ex st)\<lparr>world := w\<rparr>)"
    have st2: "delta_step content st ?st2"
      using ov cw by (intro delta_step_one [of _ _ "(dest, ChangeAdd new ov)"]) auto
    obtain r' w' where rm: "remove_file fs w path = (r', w')" by (cases "remove_file fs w path")
    show ?thesis
    proof (cases "ensure_not_directory fs w path")
      case nodir: None
      show ?thesis
      proof (cases r')
        case ok: None
        note cw' = remove_ok_content [OF assms(1) rm [unfolded ok]]
        show ?thesis
          using ro wr None nodir rm ok cw cw' ov assms(2)
          by (auto simp: apply_move_def Let_def
              intro!: delta_step_one [of _ _ "(path, ChangeUpdate (Some dest) old ov new)"])
      next
        case (Some e)
        have "delta_step content ?st2 (snd (apply_move fs po ap path dest old new st))"
          using ro wr None nodir rm Some remove_failed_content [OF assms(1) rm [unfolded Some]]
          by (auto simp: apply_move_def Let_def intro!: delta_step_same_content)
        with st2 show ?thesis by (rule delta_step_trans)
      qed
    next
      case (Some e)
      with st2 ro wr None show ?thesis by (simp add: apply_move_def Let_def)
    qed
  next
    case (Some e)
    then show ?thesis
      using ro wr by (auto simp: apply_move_def Let_def intro!: delta_step_inexact)
  qed
qed

lemma derive_reads:
  "derive_new_contents_from_chunks fs po w path chunks = Inr (old, new) \<Longrightarrow>
     read_file_text fs w path = Inr old"
  by (auto simp: derive_new_contents_from_chunks_def split: sum.splits option.splits)

lemma apply_update_file_step:
  assumes "text_fs fs content"
  shows "delta_step content st (snd (apply_update_file fs po cwd ap path mv chunks st))"
proof -
  let ?st1 = "set_exact (note_existing_path_delta_support fs (world st) path (exact (delta st))) st"
  have st1: "delta_step content st ?st1"
    by (rule delta_step_set_exact) (rule note_existing_exact)
  have "delta_step content ?st1 (snd (apply_update_file fs po cwd ap path mv chunks st))"
  proof (cases "derive_new_contents_from_chunks fs po (world st) path chunks")
    case (Inr on)
    obtain old new where on: "on = (old, new)" by (cases on)
    have old: "content (world ?st1) path = Some old"
      using derive_reads Inr on assms by (fastforce simp: text_fs_def)
    show ?thesis
    proof (cases mv)
      case None
      obtain r w where wr: "write_file fs (world st) path new = (r, w)"
        by (cases "write_file fs (world st) path new")
      show ?thesis
      proof (cases r)
        case ok: None
        have "content w = (content (world st))(path \<mapsto> new)"
          using assms wr ok by (simp add: text_fs_def)
        with Inr on None wr ok old show ?thesis
          by (auto simp: apply_update_file_def Let_def
              intro!: delta_step_one [of _ _ "(path, ChangeUpdate None old None new)"])
      next
        case (Some e)
        with Inr on None wr show ?thesis
          by (auto simp: apply_update_file_def Let_def intro!: delta_step_inexact)
      qed
    next
      case (Some d)
      show ?thesis
      proof (cases "path_join po cwd d")
        case (Inr dest)
        with \<open>derive_new_contents_from_chunks fs po (world st) path chunks = Inr on\<close> on Some
          apply_move_step [OF assms old] show ?thesis
          by (simp add: apply_update_file_def Let_def)
      qed (use Inr on Some in \<open>simp add: apply_update_file_def Let_def\<close>)
    qed
  qed (simp add: apply_update_file_def Let_def)
  with st1 show ?thesis by (rule delta_step_trans)
qed

lemma apply_hunk_step:
  assumes "text_fs fs content"
  shows "delta_step content st (snd (apply_hunk fs po cwd h st))"
  using apply_add_file_step [OF assms] apply_delete_file_step [OF assms] apply_update_file_step [OF assms]
  by (auto simp: apply_hunk_def split: sum.splits hunk.splits)

lemma apply_hunk_loop_step:
  assumes "text_fs fs content"
  shows "delta_step content st (snd (apply_hunk_loop fs po cwd hs st))"
proof (induction hs arbitrary: st)
  case (Cons h hs)
  obtain r st' where r: "apply_hunk fs po cwd h st = (r, st')" by (cases "apply_hunk fs po cwd h st")
  have "delta_step content st st'" using apply_hunk_step [OF assms, of st po cwd h] r by simp
  with Cons.IH [of st'] r show ?case
    by (cases r) (auto intro: delta_step_trans)
qed simp

lemma apply_hunks_to_files_step:
  "text_fs fs content \<Longrightarrow> delta_step content (initial_state w) (snd (apply_hunks_to_files fs po cwd hs w))"
  by (simp add: apply_hunks_to_files_def apply_hunk_loop_step)


section \<open>Affected paths\<close>

text \<open>On success each hunk is listed once, under its kind, in patch order.\<close>

definition added_paths :: "hunk list \<Rightarrow> rstring list" where
  "added_paths hs = map hunk_path (filter (\<lambda>h. case h of AddFile _ _ \<Rightarrow> True | _ \<Rightarrow> False) hs)"

definition modified_paths :: "hunk list \<Rightarrow> rstring list" where
  "modified_paths hs = map hunk_path (filter (\<lambda>h. case h of UpdateFile _ _ _ \<Rightarrow> True | _ \<Rightarrow> False) hs)"

definition deleted_paths :: "hunk list \<Rightarrow> rstring list" where
  "deleted_paths hs = map hunk_path (filter (\<lambda>h. case h of DeleteFile _ \<Rightarrow> True | _ \<Rightarrow> False) hs)"

lemmas affected_defs = added_paths_def modified_paths_def deleted_paths_def

lemma apply_hunk_affected:
  assumes "apply_hunk fs po cwd h st = (None, st')"
  shows "added (affected st') = added (affected st) @ added_paths [h]"
    and "modified (affected st') = modified (affected st) @ modified_paths [h]"
    and "deleted (affected st') = deleted (affected st) @ deleted_paths [h]"
  using assms
  by (auto simp: apply_hunk_def apply_add_file_def apply_delete_file_def apply_update_file_def
      apply_move_def affected_defs Let_def
      split: sum.splits hunk.splits prod.splits option.splits)

lemma apply_hunk_loop_affected:
  "apply_hunk_loop fs po cwd hs st = (None, st') \<Longrightarrow>
     added (affected st') = added (affected st) @ added_paths hs \<and>
     modified (affected st') = modified (affected st) @ modified_paths hs \<and>
     deleted (affected st') = deleted (affected st) @ deleted_paths hs"
proof (induction hs arbitrary: st)
  case (Cons h hs)
  from Cons.prems obtain st1 where st1: "apply_hunk fs po cwd h st = (None, st1)"
    "apply_hunk_loop fs po cwd hs st1 = (None, st')"
    by (auto split: prod.splits option.splits)
  from Cons.IH [OF st1(2)] apply_hunk_affected [OF st1(1)] show ?case
    by (simp add: affected_defs)
qed (simp add: affected_defs)


section \<open>No panic\<close>

lemma derive_new_contents_no_panic: "derive_new_contents c path chunks \<noteq> Inr None"
proof
  assume "derive_new_contents c path chunks = Inr None"
  then obtain rs where rs: "compute_replacements (file_lines c) path chunks = Inr rs"
    "apply_replacements (file_lines c) rs = None"
    by (auto simp: derive_new_contents_def Let_def map_sum_eq_Inr_iff)
  have "\<forall>r \<in> set rs. fst r \<le> length (file_lines c)"
    using compute_replacements_sorted(2) [OF rs(1)] by fastforce
  from apply_replacements_total [OF compute_replacements_sorted(1) [OF rs(1)] this] rs(2)
  show False by simp
qed

lemma apply_hunk_no_panic: "fst (apply_hunk fs po cwd h st) \<noteq> Some Panicked"
  using derive_new_contents_no_panic
  by (auto simp: apply_hunk_def apply_add_file_def apply_delete_file_def apply_update_file_def
      apply_move_def write_file_with_missing_parent_retry_def derive_new_contents_from_chunks_def
      Let_def split: sum.splits hunk.splits prod.splits option.splits if_splits)

section \<open>An instance of the file system\<close>

text \<open>
  Files in memory, with no directories: the laws of \<^const>\<open>text_fs\<close> can hold. Paths are joined to
  the working directory with a slash.
\<close>

definition memory_fs :: "(rstring \<rightharpoonup> rstring, rstring) executor_file_system" where
  "memory_fs =
     (let missing = \<lparr>io_kind = NotFound, io_message = lit ''no such file''\<rparr> in
      \<lparr>read_file_text = (\<lambda>w p. case w p of None \<Rightarrow> Inl missing | Some c \<Rightarrow> Inr c),
       write_file = (\<lambda>w p c. (None, w(p \<mapsto> c))),
       create_directory = (\<lambda>w p. (None, w)),
       get_metadata = (\<lambda>w p. case w p of None \<Rightarrow> Inl missing
         | Some _ \<Rightarrow> Inr \<lparr>is_directory = False, is_file = True, is_symlink = False\<rparr>),
       remove_file = (\<lambda>w p. case w p of None \<Rightarrow> (Some missing, w) | Some _ \<Rightarrow> (None, w(p := None)))\<rparr>)"

definition memory_paths :: "(rstring, unit) path_ops" where
  "memory_paths =
     \<lparr>path_join = (\<lambda>cwd p. Inr (cwd @ [47] @ p)), path_parent = (\<lambda>p. None), native_path_string = (\<lambda>p. p)\<rparr>"

definition memory_world :: "rstring \<rightharpoonup> rstring" where
  "memory_world = [lit ''/r/a'' \<mapsto> lit ''one'' @ [newline], lit ''/r/b'' \<mapsto> lit ''two'' @ [newline]]"

definition memory_hunks :: "hunk list" where
  "memory_hunks =
     [AddFile (lit ''new'') (lit ''x'' @ [newline]),
      UpdateFile (lit ''a'') (Some (lit ''c'')) [edit_chunk ([], [lit ''one''], [lit ''uno''])],
      DeleteFile (lit ''b'')]"

lemma memory_fs_text: "text_fs memory_fs (\<lambda>w. w)"
  by (auto simp: text_fs_def memory_fs_def Let_def split: option.splits)


section \<open>Properties\<close>

text \<open>
  C22. Applying hunks never panics, whatever the hunks, the files and the failures of the file
  system are: \<^verbatim>\<open>apply_replacements\<close> only inserts at positions inside the vector.
\<close>

theorem apply_hunks_never_panics: "fst (apply_hunks_to_files fs po cwd hs w) \<noteq> Some Panicked"
proof -
  have "fst (apply_hunk_loop fs po cwd hs st) \<noteq> Some Panicked" for st
  proof (induction hs arbitrary: st)
    case (Cons h hs)
    then show ?case
      using apply_hunk_no_panic [of fs po cwd h st] by (auto split: prod.splits option.splits)
  qed simp
  then show ?thesis by (simp add: apply_hunks_to_files_def)
qed

text \<open>
  C23. Moving a file onto itself deletes it: the new contents are written to the destination,
  which is then removed as the original.
\<close>

theorem move_onto_itself_deletes:
  assumes "text_fs fs content" and "path_join po cwd f = Inr p" and "path_join po cwd d = Inr p"
    and "apply_hunk fs po cwd (UpdateFile f (Some d) chunks) st = (None, st')"
  shows "content (world st') p = None"
proof -
  from assms(2-4) obtain old new st1 where
    "apply_move fs po d p p old new st1 = (None, st')"
    by (auto simp: apply_hunk_def apply_update_file_def Let_def
        split: sum.splits prod.splits)
  then obtain w1 w2 where "remove_file fs w1 p = (None, w2)" "world st' = w2"
    by (auto simp: apply_move_def Let_def split: prod.splits option.splits)
  with remove_ok_content [OF assms(1)] show ?thesis by fastforce
qed

theorem move_onto_itself_deletes_witness:
  "world (snd (apply_hunk memory_fs memory_paths (lit ''/r'')
     (UpdateFile (lit ''a'') (Some (lit ''a'')) [edit_chunk ([], [lit ''one''], [lit ''uno''])])
     (initial_state memory_world))) (lit ''/r/a'') = None"
proof -
  let ?r = "apply_hunk memory_fs memory_paths (lit ''/r'')
     (UpdateFile (lit ''a'') (Some (lit ''a'')) [edit_chunk ([], [lit ''one''], [lit ''uno''])])
     (initial_state memory_world)"
  have "fst ?r = None" by code_simp
  then have "?r = (None, snd ?r)" by (metis prod.collapse)
  then show ?thesis
    by (intro move_onto_itself_deletes [OF memory_fs_text, of memory_paths "lit ''/r''" "lit ''a''" _ "lit ''a''"])
      (auto simp: memory_paths_def lit_def)
qed

end
