(* ===== verification/Patch_Grammar.thy ===== *)
theory Patch_Grammar
  imports Patch_Parser
begin

text \<open>
  The documented grammar of a patch (the comment that opens \<^verbatim>\<open>parser.rs\<close>) as an abstract
  syntax with a printer, and the proof that the streaming parser reads every printed patch
  back as the hunks it stands for. Lines carry arbitrary text: nothing a context, added or
  removed line contains can be mistaken for a marker.
\<close>

section \<open>Abstract syntax and printer\<close>

datatype diff_line = Context rstring | Added rstring | Removed rstring

text \<open>
  A chunk is a header, diff lines and an optional end-of-file mark. The header is absent, or
  \<^verbatim>\<open>@@\<close>, or \<^verbatim>\<open>@@ \<close> followed by a context line; only the first chunk of a hunk may lack it.
\<close>

datatype chunk_header = NoHeader | EmptyHeader | ContextHeader rstring

datatype patch_chunk = PChunk chunk_header "diff_line list" bool

datatype patch_hunk =
    PAdd rstring "rstring list"
  | PDelete rstring
  | PUpdate rstring "rstring option" "patch_chunk list"

fun print_diff_line :: "diff_line \<Rightarrow> rstring" where
  "print_diff_line (Context l) = 32 # l"
| "print_diff_line (Added l) = 43 # l"
| "print_diff_line (Removed l) = 45 # l"

fun print_header :: "chunk_header \<Rightarrow> rstring list" where
  "print_header NoHeader = []"
| "print_header EmptyHeader = [EMPTY_CHANGE_CONTEXT_MARKER]"
| "print_header (ContextHeader c) = [CHANGE_CONTEXT_MARKER @ c]"

fun print_chunk :: "patch_chunk \<Rightarrow> rstring list" where
  "print_chunk (PChunk h ls eof) =
     print_header h @ map print_diff_line ls @ (if eof then [EOF_MARKER] else [])"

fun print_hunk :: "patch_hunk \<Rightarrow> rstring list" where
  "print_hunk (PAdd path ls) = (ADD_FILE_MARKER @ path) # map (\<lambda>l. 43 # l) ls"
| "print_hunk (PDelete path) = [DELETE_FILE_MARKER @ path]"
| "print_hunk (PUpdate path mv cs) =
     (UPDATE_FILE_MARKER @ path) #
     (case mv of None \<Rightarrow> [] | Some m \<Rightarrow> [MOVE_TO_MARKER @ m]) @ concat (map print_chunk cs)"

definition print_environment :: "rstring option \<Rightarrow> rstring list" where
  "print_environment env =
     (case env of None \<Rightarrow> [] | Some e \<Rightarrow> [ENVIRONMENT_ID_MARKER @ 32 # e])"

definition print_body :: "rstring option \<Rightarrow> patch_hunk list \<Rightarrow> rstring list" where
  "print_body env hs =
     BEGIN_PATCH_MARKER # print_environment env @ concat (map print_hunk hs)"

definition print_patch :: "rstring option \<Rightarrow> patch_hunk list \<Rightarrow> rstring" where
  "print_patch env hs = join [newline] (print_body env hs @ [END_PATCH_MARKER])"

section \<open>Meaning of the syntax\<close>

fun old_of :: "diff_line list \<Rightarrow> rstring list" where
  "old_of [] = []"
| "old_of (Context l # ls) = l # old_of ls"
| "old_of (Removed l # ls) = l # old_of ls"
| "old_of (Added l # ls) = old_of ls"

fun new_of :: "diff_line list \<Rightarrow> rstring list" where
  "new_of [] = []"
| "new_of (Context l # ls) = l # new_of ls"
| "new_of (Added l # ls) = l # new_of ls"
| "new_of (Removed l # ls) = new_of ls"

fun header_context :: "chunk_header \<Rightarrow> rstring option" where
  "header_context (ContextHeader c) = Some c"
| "header_context _ = None"

fun chunk_of :: "patch_chunk \<Rightarrow> update_file_chunk" where
  "chunk_of (PChunk h ls eof) =
     \<lparr>change_context = header_context h, old_lines = old_of ls, new_lines = new_of ls,
      is_end_of_file = eof\<rparr>"

fun hunk_of :: "patch_hunk \<Rightarrow> hunk" where
  "hunk_of (PAdd path ls) = AddFile path (concat (map (\<lambda>l. l @ [newline]) ls))"
| "hunk_of (PDelete path) = DeleteFile path"
| "hunk_of (PUpdate path mv cs) = UpdateFile path mv (map chunk_of cs)"

section \<open>Well-formed syntax\<close>

text \<open>
  Text that stands on a line of its own has no line feed and no carriage return before one;
  what follows a marker must in addition be non-empty and not end in white space, since the
  parser trims header lines.
\<close>

definition line_ok :: "rstring \<Rightarrow> bool" where
  "line_ok l \<longleftrightarrow> newline \<notin> set l \<and> (l = [] \<or> last l \<noteq> carriage_return)"

definition name_ok :: "rstring \<Rightarrow> bool" where
  "name_ok s \<longleftrightarrow> newline \<notin> set s \<and> s \<noteq> [] \<and> \<not> is_whitespace (last s)"

fun diff_text :: "diff_line \<Rightarrow> rstring" where
  "diff_text (Context l) = l" | "diff_text (Added l) = l" | "diff_text (Removed l) = l"

fun header_ok :: "chunk_header \<Rightarrow> bool" where
  "header_ok (ContextHeader c) = name_ok c"
| "header_ok _ = True"

fun chunk_ok :: "patch_chunk \<Rightarrow> bool" where
  "chunk_ok (PChunk h ls eof) = (header_ok h \<and> ls \<noteq> [] \<and> list_all (line_ok \<circ> diff_text) ls)"

fun has_header :: "patch_chunk \<Rightarrow> bool" where
  "has_header (PChunk h ls eof) = (h \<noteq> NoHeader)"

fun hunk_ok :: "patch_hunk \<Rightarrow> bool" where
  "hunk_ok (PAdd path ls) = (name_ok path \<and> list_all line_ok ls)"
| "hunk_ok (PDelete path) = name_ok path"
| "hunk_ok (PUpdate path mv cs) =
     (name_ok path \<and> (case mv of None \<Rightarrow> True | Some m \<Rightarrow> name_ok m) \<and>
      cs \<noteq> [] \<and> list_all chunk_ok cs \<and> list_all has_header (tl cs))"

definition environment_ok :: "rstring option \<Rightarrow> bool" where
  "environment_ok env \<longleftrightarrow>
     (case env of None \<Rightarrow> True | Some e \<Rightarrow> name_ok e \<and> \<not> is_whitespace (hd e))"

section \<open>Markers\<close>

lemma is_whitespace_marker_chars [simp]:
  "\<not> is_whitespace 42" "\<not> is_whitespace 64" "\<not> is_whitespace 43" "\<not> is_whitespace 45"
  "is_whitespace 32" "is_whitespace 13" "is_whitespace 10"
  by (simp_all add: is_whitespace_def)

lemma trim_end_marker:
  "name_ok s \<Longrightarrow> trim_end (m @ s) = m @ s"
  by (simp add: name_ok_def trim_end_append_nonws)

lemma trim_star_marker:
  "name_ok s \<Longrightarrow> trim (42 # m @ s) = 42 # m @ s"
  by (simp add: trim_Cons_nonws trim_end_marker)

lemma marker_star:
  "ADD_FILE_MARKER = 42 # tl ADD_FILE_MARKER" "DELETE_FILE_MARKER = 42 # tl DELETE_FILE_MARKER"
  "UPDATE_FILE_MARKER = 42 # tl UPDATE_FILE_MARKER"
  by (simp_all add: marker_defs lit_def)

lemma trim_headers:
  assumes "name_ok path"
  shows "trim (ADD_FILE_MARKER @ path) = ADD_FILE_MARKER @ path"
    and "trim (DELETE_FILE_MARKER @ path) = DELETE_FILE_MARKER @ path"
    and "trim (UPDATE_FILE_MARKER @ path) = UPDATE_FILE_MARKER @ path"
  using trim_star_marker [OF assms] marker_star by (metis append_Cons)+

lemma trim_fixed_markers [simp]:
  "trim BEGIN_PATCH_MARKER = BEGIN_PATCH_MARKER" "trim END_PATCH_MARKER = END_PATCH_MARKER"
  "trim_end END_PATCH_MARKER = END_PATCH_MARKER" "trim_end EOF_MARKER = EOF_MARKER"
  "trim_end EMPTY_CHANGE_CONTEXT_MARKER = EMPTY_CHANGE_CONTEXT_MARKER"
  by (simp_all add: marker_defs lit_def trim_def trim_start_def trim_end_def is_whitespace_def)

lemma header_markers_distinct [simp]:
  "ADD_FILE_MARKER @ path \<noteq> END_PATCH_MARKER" "DELETE_FILE_MARKER @ path \<noteq> END_PATCH_MARKER"
  "UPDATE_FILE_MARKER @ path \<noteq> END_PATCH_MARKER"
  "strip_prefix ENVIRONMENT_ID_MARKER (ADD_FILE_MARKER @ path) = None"
  "strip_prefix ENVIRONMENT_ID_MARKER (DELETE_FILE_MARKER @ path) = None"
  "strip_prefix ENVIRONMENT_ID_MARKER (UPDATE_FILE_MARKER @ path) = None"
  "strip_prefix ENVIRONMENT_ID_MARKER END_PATCH_MARKER = None"
  "strip_prefix ADD_FILE_MARKER (DELETE_FILE_MARKER @ path) = None"
  "strip_prefix ADD_FILE_MARKER (UPDATE_FILE_MARKER @ path) = None"
  "strip_prefix DELETE_FILE_MARKER (UPDATE_FILE_MARKER @ path) = None"
  by (simp_all add: marker_defs lit_def)

text \<open>A line that starts with none of the marker letters is no header.\<close>

lemma no_header:
  "l = [] \<or> hd l \<noteq> 42 \<Longrightarrow> handle_hunk_headers_and_end_patch p l = Inr None"
  by (cases l)
    (auto simp: handle_hunk_headers_and_end_patch_def marker_defs lit_def split: option.splits)

lemma move_or_eof_no_header [simp]:
  "mode p \<noteq> StartedPatch \<Longrightarrow> handle_hunk_headers_and_end_patch p (MOVE_TO_MARKER @ m) = Inr None"
  "mode p \<noteq> StartedPatch \<Longrightarrow> handle_hunk_headers_and_end_patch p EOF_MARKER = Inr None"
  by (simp_all add: handle_hunk_headers_and_end_patch_def marker_defs lit_def)

section \<open>Hunks\<close>

text \<open>A parser that can take the next header: started, not ended, its last hunk complete.\<close>

definition ready :: "patch_parser \<Rightarrow> bool" where
  "ready p \<longleftrightarrow>
     (case mode p of NotStarted \<Rightarrow> False | EndedPatch \<Rightarrow> False | _ \<Rightarrow> True) \<and>
     (case last_opt (hunks p) of
        Some (UpdateFile path mv cs) \<Rightarrow> cs \<noteq> [] \<and> \<not> last_chunk_has_no_lines cs
      | _ \<Rightarrow> True)"

lemma ready_take_line [simp]: "ready (take_line p) = ready p"
  by (simp add: ready_def)

lemma ready_line_buffer [simp]: "ready (p\<lparr>line_buffer := b\<rparr>) = ready p"
  by (simp add: ready_def)

lemma ready_ensure: "ready p \<Longrightarrow> ensure_update_hunk_is_not_empty p l = None"
  by (auto simp: ready_def ensure_update_hunk_is_not_empty_def
      split: option.splits hunk.splits list.splits)

lemma ready_header:
  assumes "ready p" and "trim l = l" and "handle_hunk_headers_and_end_patch p l = Inr (Some p')"
  shows "process_line p l = Inr p'"
proof -
  have "trim_end l = l"
    using assms(2) by (metis trim_def trim_end_idem)
  with assms show ?thesis
    by (auto simp: ready_def process_line_def process_header_line_def process_add_line_def
        process_update_line_def split: parser_mode.splits)
qed

lemma ready_add_header:
  assumes "ready p" and "name_ok path"
  shows "process_line p (ADD_FILE_MARKER @ path) =
    Inr (p\<lparr>hunks := hunks p @ [AddFile path []], mode := AddFileMode\<rparr>)"
  by (rule ready_header [OF assms(1) trim_headers(1) [OF assms(2)]])
    (simp add: handle_hunk_headers_and_end_patch_def begin_hunk_Some_iff ready_ensure assms)

lemma ready_delete_header:
  assumes "ready p" and "name_ok path"
  shows "process_line p (DELETE_FILE_MARKER @ path) =
    Inr (p\<lparr>hunks := hunks p @ [DeleteFile path], mode := DeleteFileMode\<rparr>)"
  by (rule ready_header [OF assms(1) trim_headers(2) [OF assms(2)]])
    (simp add: handle_hunk_headers_and_end_patch_def begin_hunk_Some_iff ready_ensure assms)

lemma ready_update_header:
  assumes "ready p" and "name_ok path"
  shows "process_line p (UPDATE_FILE_MARKER @ path) =
    Inr (p\<lparr>hunks := hunks p @ [UpdateFile path None []], mode := UpdateFileMode (line_number p)\<rparr>)"
  by (rule ready_header [OF assms(1) trim_headers(3) [OF assms(2)]])
    (simp add: handle_hunk_headers_and_end_patch_def begin_hunk_Some_iff ready_ensure assms)

subsection \<open>Added files\<close>

lemma process_added_line:
  assumes "mode p = AddFileMode" and "hunks p = hs @ [AddFile path c]"
  shows "process_line p (43 # l) = Inr (p\<lparr>hunks := hs @ [AddFile path (c @ l @ [newline])]\<rparr>)"
  using assms
  by (simp add: process_line_def process_add_line_def trim_Cons_nonws no_header)

lemma process_added_lines:
  assumes "mode p = AddFileMode" and "hunks p = hs @ [AddFile path c]"
  shows "\<exists>p'. process_lines p (map (\<lambda>l. 43 # l) ls) = Inr p' \<and> mode p' = AddFileMode \<and>
    environment_id p' = environment_id p \<and>
    hunks p' = hs @ [AddFile path (c @ concat (map (\<lambda>l. l @ [newline]) ls))] \<and>
    (line_buffer p = [] \<longrightarrow> line_buffer p' = [])"
  using assms
proof (induction ls arbitrary: p c)
  case (Cons l ls)
  let ?p = "(take_line p)\<lparr>hunks := hs @ [AddFile path (c @ l @ [newline])]\<rparr>"
  from Cons.prems have "process_line (take_line p) (43 # l) = Inr ?p"
    by (intro process_added_line) simp_all
  with Cons.IH [of ?p "c @ l @ [newline]"] Cons.prems show ?case by force
qed auto


subsection \<open>Updated files\<close>

text \<open>The parser inside an update hunk, with everything that later lines can still see.\<close>

definition updating ::
  "hunk list \<Rightarrow> rstring \<Rightarrow> rstring option \<Rightarrow> rstring option \<Rightarrow> update_file_chunk list \<Rightarrow>
   patch_parser \<Rightarrow> bool" where
  "updating hs path env mv cs p \<longleftrightarrow>
     (\<exists>n. mode p = UpdateFileMode n) \<and> hunks p = hs @ [UpdateFile path mv cs] \<and>
     environment_id p = env \<and> line_buffer p = []"

definition steps_to ::
  "patch_parser \<Rightarrow> rstring list \<Rightarrow> (patch_parser \<Rightarrow> bool) \<Rightarrow> bool" where
  "steps_to p ls Q \<longleftrightarrow> (\<exists>p'. process_lines p ls = Inr p' \<and> Q p')"

lemma steps_to_Nil [simp]: "steps_to p [] Q = Q p"
  by (simp add: steps_to_def)

lemma steps_to_append:
  "steps_to p xs P \<Longrightarrow> (\<And>p'. P p' \<Longrightarrow> steps_to p' ys Q) \<Longrightarrow> steps_to p (xs @ ys) Q"
  by (force simp: steps_to_def process_lines_append)

lemma steps_to_Cons:
  "steps_to p [x] P \<Longrightarrow> (\<And>p'. P p' \<Longrightarrow> steps_to p' ys Q) \<Longrightarrow> steps_to p (x # ys) Q"
  using steps_to_append [of p "[x]" P ys Q] by simp

lemma updating_step:
  assumes "updating hs path env mv cs p"
    and "\<And>q. mode q \<noteq> StartedPatch \<Longrightarrow> handle_hunk_headers_and_end_patch q (trim_end l) = Inr None"
    and "\<And>ln. update_line_step ln l mv cs = Inr (mv', cs')"
  shows "steps_to p [l] (updating hs path env mv' cs')"
proof -
  from assms(1) obtain n where "mode p = UpdateFileMode n" by (auto simp: updating_def)
  with assms show ?thesis
    by (simp add: steps_to_def updating_def process_line_def process_update_line_def)
qed

definition at_eof :: "update_file_chunk list \<Rightarrow> bool" where
  "at_eof cs \<longleftrightarrow> (case last_opt cs of None \<Rightarrow> False | Some c \<Rightarrow> is_end_of_file c)"

definition extend :: "diff_line list \<Rightarrow> update_file_chunk \<Rightarrow> update_file_chunk" where
  "extend ds c = c\<lparr>old_lines := old_lines c @ old_of ds, new_lines := new_lines c @ new_of ds\<rparr>"

lemma extend_Nil [simp]: "extend [] c = c"
  by (simp add: extend_def)

lemma extend_Cons: "extend (d # ds) c = extend ds (extend [d] c)"
  by (cases d) (simp_all add: extend_def)

lemma extend_eof [simp]: "is_end_of_file (extend ds c) = is_end_of_file c"
  by (simp add: extend_def)

lemma extend_has_lines: "ds \<noteq> [] \<Longrightarrow> \<not> chunk_has_no_lines (extend ds c)"
  by (cases ds; cases "hd ds") (simp_all add: extend_def chunk_has_no_lines_def)

lemma trim_end_shape: "trim_end (c # l) = [] \<or> (\<exists>r. trim_end (c # l) = c # r)"
proof (cases "is_whitespace c")
  case True
  then show ?thesis by (auto simp: trim_end_def dropWhile_append) (metis rev_rev_ident)
qed (simp add: trim_end_Cons_nonws)

lemma trim_end_diff_line:
  "trim_end (print_diff_line d) = [] \<or> hd (trim_end (print_diff_line d)) \<notin> {42, 64}"
  using trim_end_shape [of 32 "diff_text d"] trim_end_shape [of 43 "diff_text d"]
    trim_end_shape [of 45 "diff_text d"]
  by (cases d) auto

lemma not_marker_line:
  assumes "l = [] \<or> hd l \<notin> {42, 64}"
  shows "\<not> is_context_marker l" "strip_prefix MOVE_TO_MARKER l = None"
    "strip_prefix CHANGE_CONTEXT_MARKER l = None" "l \<noteq> EOF_MARKER" "l \<noteq> EMPTY_CHANGE_CONTEXT_MARKER"
  using assms
  by (cases l; simp add: is_context_marker_def starts_with_def marker_defs lit_def)+

lemma update_line_step_diff:
  assumes "\<not> at_eof cs"
  shows "update_line_step ln (print_diff_line d) mv cs =
    Inr (mv, map_last (extend [d]) (ensure_chunk cs))"
proof -
  note nm = not_marker_line [OF trim_end_diff_line [of d]]
  have "\<not> (case last_opt cs of None \<Rightarrow> False | Some c \<Rightarrow> is_end_of_file c)"
    using assms by (simp add: at_eof_def)
  then show ?thesis
    using nm
    by (cases d)
      (simp_all add: update_line_step_def Let_def map_last_def push_old_def push_new_def extend_def)
qed

lemma process_diff_lines:
  assumes "updating hs path env mv (cs @ [c]) p" and "\<not> is_end_of_file c"
  shows "steps_to p (map print_diff_line ds) (updating hs path env mv (cs @ [extend ds c]))"
  using assms
proof (induction ds arbitrary: p c)
  case (Cons d ds)
  have "steps_to p [print_diff_line d] (updating hs path env mv (cs @ [extend [d] c]))"
    using Cons.prems trim_end_diff_line [of d]
    by (intro updating_step [OF Cons.prems(1)] no_header)
      (auto simp: update_line_step_diff at_eof_def ensure_chunk_def)
  then show ?case
    using Cons.IH [of "extend [d] c"] Cons.prems(2)
    by (simp add: extend_Cons [of d ds]) (rule steps_to_Cons, assumption, simp)
qed simp

lemma process_first_diff_lines:
  assumes "updating hs path env mv [] p" and "ds \<noteq> []"
  shows "steps_to p (map print_diff_line ds) (updating hs path env mv [extend ds (empty_chunk None)])"
proof -
  obtain d ds' where ds: "ds = d # ds'" using assms(2) by (cases ds) auto
  have "steps_to p [print_diff_line d] (updating hs path env mv ([] @ [extend [d] (empty_chunk None)]))"
    using trim_end_diff_line [of d]
    by (intro updating_step [OF assms(1)] no_header)
      (auto simp: update_line_step_diff at_eof_def ensure_chunk_def map_last_def)
  then show ?thesis
    unfolding ds extend_Cons [of d ds'] list.map
    by (rule steps_to_Cons)
      (use process_diff_lines [of hs path env mv "[]"] in \<open>simp add: empty_chunk_def\<close>)
qed

lemma process_chunk_header:
  assumes "updating hs path env mv cs p" and "header_ok h" and "h \<noteq> NoHeader"
    and "\<not> last_chunk_has_no_lines cs"
  shows "steps_to p (print_header h) (updating hs path env mv (cs @ [empty_chunk (header_context h)]))"
proof (cases h)
  case EmptyHeader
  then show ?thesis
    using assms
    by (auto intro!: updating_step [OF assms(1)] no_header
        simp: update_line_step_def Let_def is_context_marker_def)
      (simp_all add: marker_defs lit_def)
next
  case (ContextHeader c)
  have "trim_end (CHANGE_CONTEXT_MARKER @ c) = CHANGE_CONTEXT_MARKER @ c"
    using assms(2) ContextHeader by (simp add: trim_end_marker)
  moreover have "c \<noteq> []" using assms(2) ContextHeader by (simp add: name_ok_def)
  moreover have "CHANGE_CONTEXT_MARKER @ c \<noteq> EMPTY_CHANGE_CONTEXT_MARKER"
    "hd (CHANGE_CONTEXT_MARKER @ c) \<noteq> 42" "strip_prefix MOVE_TO_MARKER (CHANGE_CONTEXT_MARKER @ c) = None"
    by (simp_all add: marker_defs lit_def)
  ultimately show ?thesis
    using assms ContextHeader
    by (auto intro!: updating_step [OF assms(1)] no_header
        simp: update_line_step_def Let_def is_context_marker_def starts_with_def)
qed (use assms in simp)

lemma process_eof_marker:
  assumes "updating hs path env mv (cs @ [c]) p" and "\<not> is_end_of_file c" "\<not> chunk_has_no_lines c"
  shows "steps_to p [EOF_MARKER] (updating hs path env mv (cs @ [c\<lparr>is_end_of_file := True\<rparr>]))"
proof -
  have "\<not> is_context_marker EOF_MARKER" "strip_prefix CHANGE_CONTEXT_MARKER EOF_MARKER = None"
    "EOF_MARKER \<noteq> EMPTY_CHANGE_CONTEXT_MARKER"
    by (simp_all add: is_context_marker_def starts_with_def marker_defs lit_def)
  then show ?thesis
    using assms
    by (intro updating_step [OF assms(1)])
      (auto simp: update_line_step_def Let_def last_chunk_has_no_lines_def)
qed

lemma process_chunk:
  assumes "updating hs path env mv cs p" and "chunk_ok ch" and "has_header ch \<or> cs = []"
    and "\<not> last_chunk_has_no_lines cs"
  shows "steps_to p (print_chunk ch) (updating hs path env mv (cs @ [chunk_of ch]))"
proof -
  obtain h ds eof where ch: "ch = PChunk h ds eof" by (cases ch)
  let ?c = "extend ds (empty_chunk (header_context h))"
  have ds: "ds \<noteq> []" and h: "header_ok h" using assms(2) ch by auto
  have hdr: "steps_to p (print_header h @ map print_diff_line ds) (updating hs path env mv (cs @ [?c]))"
  proof (cases "h = NoHeader")
    case True
    with assms ch ds show ?thesis
      using process_first_diff_lines [of hs path env mv p ds] by simp
  next
    case False
    show ?thesis
      by (rule steps_to_append [OF process_chunk_header [OF assms(1) h False assms(4)]],
          rule process_diff_lines) (simp_all add: empty_chunk_def)
  qed
  have body: "?c\<lparr>is_end_of_file := eof\<rparr> = chunk_of ch"
    by (simp add: ch extend_def empty_chunk_def)
  show ?thesis
  proof (cases eof)
    case True
    have "steps_to p ((print_header h @ map print_diff_line ds) @ [EOF_MARKER])
        (updating hs path env mv (cs @ [?c\<lparr>is_end_of_file := True\<rparr>]))"
      by (rule steps_to_append [OF hdr], rule process_eof_marker)
        (simp_all add: extend_has_lines ds, simp add: empty_chunk_def)
    with True body ch show ?thesis by simp
  next
    case False
    moreover have "?c = ?c\<lparr>is_end_of_file := False\<rparr>"
      by (simp add: empty_chunk_def extend_def)
    ultimately show ?thesis using hdr body ch by simp
  qed
qed

lemma chunk_ok_has_lines: "chunk_ok ch \<Longrightarrow> \<not> chunk_has_no_lines (chunk_of ch)"
  using extend_has_lines [of _ "empty_chunk None"]
  by (cases ch) (force simp: chunk_has_no_lines_def extend_def empty_chunk_def)

lemma process_chunks:
  assumes "updating hs path env mv cs p" and "list_all chunk_ok chs"
    and "list_all has_header (if cs = [] then tl chs else chs)" and "\<not> last_chunk_has_no_lines cs"
  shows "steps_to p (concat (map print_chunk chs)) (updating hs path env mv (cs @ map chunk_of chs))"
  using assms
proof (induction chs arbitrary: p cs)
  case (Cons ch chs)
  have "steps_to p (print_chunk ch) (updating hs path env mv (cs @ [chunk_of ch]))"
    using Cons.prems by (intro process_chunk) (auto split: if_splits)
  moreover have "steps_to p' (concat (map print_chunk chs))
      (updating hs path env mv ((cs @ [chunk_of ch]) @ map chunk_of chs))"
    if "updating hs path env mv (cs @ [chunk_of ch]) p'" for p'
    using Cons.prems
    by (intro Cons.IH [OF that])
      (auto simp: last_chunk_has_no_lines_def chunk_ok_has_lines split: if_splits)
  ultimately have "steps_to p (print_chunk ch @ concat (map print_chunk chs))
      (updating hs path env mv ((cs @ [chunk_of ch]) @ map chunk_of chs))"
    by (rule steps_to_append)
  then show ?case by simp
qed simp

subsection \<open>Hunks and bodies\<close>

text \<open>The parser between hunks: it can take a header and its text buffer is empty.\<close>

definition between :: "rstring option \<Rightarrow> hunk list \<Rightarrow> patch_parser \<Rightarrow> bool" where
  "between env hs p \<longleftrightarrow>
     ready p \<and> hunks p = hs \<and> environment_id p = env \<and> line_buffer p = []"

lemma process_hunk:
  assumes "between env hs p" and "hunk_ok h"
  shows "steps_to p (print_hunk h) (between env (hs @ [hunk_of h]))"
proof (cases h)
  case (PAdd path ls)
  let ?p = "(take_line p)\<lparr>hunks := hs @ [AddFile path []], mode := AddFileMode\<rparr>"
  have "process_line (take_line p) (ADD_FILE_MARKER @ path) = Inr ?p"
    using assms PAdd ready_add_header [of "take_line p" path] by (simp add: between_def)
  with process_added_lines [of ?p hs path "[]" ls] assms PAdd show ?thesis
    by (auto simp: steps_to_def between_def ready_def)
next
  case (PDelete path)
  have "process_line (take_line p) (DELETE_FILE_MARKER @ path) =
      Inr ((take_line p)\<lparr>hunks := hs @ [DeleteFile path], mode := DeleteFileMode\<rparr>)"
    using assms PDelete ready_delete_header [of "take_line p" path] by (simp add: between_def)
  then show ?thesis
    using assms PDelete by (simp add: steps_to_def between_def ready_def)
next
  case (PUpdate path mv cs)
  have "steps_to p [UPDATE_FILE_MARKER @ path] (updating hs path env None [])"
    using assms PUpdate ready_update_header [of "take_line p" path]
    by (simp add: steps_to_def between_def updating_def)
  moreover have "steps_to p' (case mv of None \<Rightarrow> [] | Some m \<Rightarrow> [MOVE_TO_MARKER @ m])
      (updating hs path env mv [])" if "updating hs path env None [] p'" for p'
  proof (cases mv)
    case (Some m)
    then have "trim_end (MOVE_TO_MARKER @ m) = MOVE_TO_MARKER @ m"
      using assms(2) PUpdate by (simp add: trim_end_marker)
    then show ?thesis
      using Some by (auto intro!: updating_step [OF that] simp: update_line_step_def Let_def)
  qed (use that in simp)
  moreover have "steps_to p' (concat (map print_chunk cs)) (updating hs path env mv (map chunk_of cs))"
    if "updating hs path env mv [] p'" for p'
    using process_chunks [OF that, of cs] assms(2) PUpdate
    by (simp add: last_chunk_has_no_lines_def)
  ultimately have "steps_to p (print_hunk h) (updating hs path env mv (map chunk_of cs))"
    unfolding PUpdate print_hunk.simps by (blast intro: steps_to_Cons steps_to_append)
  moreover have "cs \<noteq> []" "\<not> last_chunk_has_no_lines (map chunk_of cs)"
    using assms(2) PUpdate
    by (cases cs rule: rev_cases; simp add: last_chunk_has_no_lines_def chunk_ok_has_lines)+
  ultimately show ?thesis
    using PUpdate by (auto simp: steps_to_def updating_def between_def ready_def)
qed

lemma process_hunks:
  "between env hs p \<Longrightarrow> list_all hunk_ok phs \<Longrightarrow>
     steps_to p (concat (map print_hunk phs)) (between env (hs @ map hunk_of phs))"
proof (induction phs arbitrary: p hs)
  case (Cons h phs)
  have "steps_to p (print_hunk h) (between env (hs @ [hunk_of h]))"
    using Cons.prems by (simp add: process_hunk)
  moreover have "steps_to p' (concat (map print_hunk phs)) (between env ((hs @ [hunk_of h]) @ map hunk_of phs))"
    if "between env (hs @ [hunk_of h]) p'" for p'
    using Cons.IH [OF that] Cons.prems by simp
  ultimately have "steps_to p (print_hunk h @ concat (map print_hunk phs))
      (between env ((hs @ [hunk_of h]) @ map hunk_of phs))"
    by (rule steps_to_append)
  then show ?case by simp
qed simp

lemma process_environment:
  assumes "between None [] p" and "mode p = StartedPatch" and "environment_ok env"
  shows "steps_to p (print_environment env) (between env [])"
proof (cases env)
  case (Some e)
  have e: "name_ok e" "\<not> is_whitespace (hd e)" and ne: "e \<noteq> []"
    using assms(3) Some by (auto simp: environment_ok_def name_ok_def)
  have "trim (ENVIRONMENT_ID_MARKER @ 32 # e) = ENVIRONMENT_ID_MARKER @ 32 # e"
    using e(1) ne
    by (intro trim_id) (simp_all add: name_ok_def marker_defs lit_def)
  moreover have "trim (32 # e) = e"
    using e ne by (simp add: trim_def trim_start_Cons name_ok_def trim_end_id trim_start_def)
      (cases e; simp add: trim_end_id)
  ultimately show ?thesis
    using assms Some ne
    by (auto simp: steps_to_def print_environment_def between_def ready_def process_line_def
        process_header_line_def handle_hunk_headers_and_end_patch_def handle_environment_id_def)
qed (use assms in \<open>simp add: print_environment_def\<close>)

lemma process_body:
  assumes "environment_ok env" and "list_all hunk_ok phs"
  shows "steps_to default_parser (print_body env phs) (between env (map hunk_of phs))"
proof -
  have "steps_to default_parser [BEGIN_PATCH_MARKER]
      (\<lambda>p. between None [] p \<and> mode p = StartedPatch)"
    by (simp add: steps_to_def process_line_def default_parser_def between_def ready_def take_line_def)
  moreover have "steps_to p (print_environment env @ concat (map print_hunk phs))
      (between env (map hunk_of phs))" if "between None [] p \<and> mode p = StartedPatch" for p
    by (rule steps_to_append [OF process_environment])
      (use that assms process_hunks [of env "[]" _ phs] in auto)
  ultimately show ?thesis
    unfolding print_body_def by (rule steps_to_Cons)
qed


section \<open>From lines to text\<close>

lemma process_line_frame:
  "process_line p l = Inr p' \<Longrightarrow> line_buffer p' = line_buffer p \<and> line_number p' = line_number p"
  by (auto simp: process_line_def process_header_line_def process_add_line_def process_update_line_def
      split: parser_mode.splits if_splits sum.splits option.splits list.splits hunk.splits prod.splits
      dest: handle_headers_frame)

lemma push_chars_no_newline:
  "newline \<notin> set l \<Longrightarrow> push_chars p l = (None, p\<lparr>line_buffer := line_buffer p @ l\<rparr>)"
  by (induction l arbitrary: p) auto

lemma push_chars_lines:
  assumes "list_all (\<lambda>l. newline \<notin> set l) ls" and "line_buffer p = []"
    and "process_lines p (map strip_cr ls) = Inr p'"
  shows "push_chars p (concat (map (\<lambda>l. l @ [newline]) ls)) = (None, p') \<and> line_buffer p' = []"
  using assms
proof (induction ls arbitrary: p)
  case (Cons l ls)
  from Cons.prems(3) obtain q where q: "process_line (take_line p) (strip_cr l) = Inr q"
    "process_lines q (map strip_cr ls) = Inr p'" by (auto split: sum.splits)
  have "line_buffer q = []" using process_line_frame [OF q(1)] by simp
  then show ?case
    using Cons q by (simp add: push_chars_append push_chars_no_newline)
qed simp

lemma join_snoc: "join [newline] (ls @ [x]) = concat (map (\<lambda>l. l @ [newline]) ls) @ x"
  by (induction ls) (auto simp: join_Cons)

lemma finish_end_marker:
  assumes "ready p" and "line_buffer p = END_PATCH_MARKER"
  shows "finish p = (Inr (hunks p), (take_line p)\<lparr>mode := EndedPatch\<rparr>)"
proof -
  have "END_PATCH_MARKER \<noteq> []" by (simp add: marker_defs)
  with assms show ?thesis
    by (simp add: finish_def finish_line_def ready_ensure)
qed

lemma line_ok_print_diff_line: "line_ok (diff_text d) \<Longrightarrow> line_ok (print_diff_line d)"
  by (cases d) (auto simp: line_ok_def)

lemma line_ok_marker: "name_ok s \<Longrightarrow> newline \<notin> set m \<Longrightarrow> line_ok (m @ s)"
  by (auto simp: line_ok_def name_ok_def)

lemma newline_notin_markers [simp]:
  "newline \<notin> set ADD_FILE_MARKER" "newline \<notin> set DELETE_FILE_MARKER"
  "newline \<notin> set UPDATE_FILE_MARKER" "newline \<notin> set MOVE_TO_MARKER"
  "newline \<notin> set CHANGE_CONTEXT_MARKER" "newline \<notin> set ENVIRONMENT_ID_MARKER"
  by (simp_all add: marker_defs lit_def)

lemma line_ok_fixed_markers [simp]:
  "line_ok BEGIN_PATCH_MARKER" "line_ok END_PATCH_MARKER" "line_ok EOF_MARKER"
  "line_ok EMPTY_CHANGE_CONTEXT_MARKER"
  by (simp_all add: marker_defs lit_def line_ok_def)

lemma print_chunk_lines_ok: "chunk_ok c \<Longrightarrow> list_all line_ok (print_chunk c)"
proof (cases c)
  case (PChunk h ds eof)
  assume "chunk_ok c"
  with PChunk show ?thesis
    by (cases h) (auto simp: list_all_iff line_ok_print_diff_line line_ok_marker)
qed

lemma print_hunk_lines_ok: "hunk_ok h \<Longrightarrow> list_all line_ok (print_hunk h)"
proof (cases h)
  case (PUpdate path mv cs)
  assume "hunk_ok h"
  with PUpdate show ?thesis
    using print_chunk_lines_ok
    by (cases mv) (auto simp: list_all_iff line_ok_marker)
qed (auto simp: list_all_iff line_ok_marker, auto simp: line_ok_def)

lemma print_body_lines_ok:
  assumes "environment_ok env" and "list_all hunk_ok phs"
  shows "list_all line_ok (print_body env phs)"
proof -
  have "name_ok e \<Longrightarrow> line_ok (ENVIRONMENT_ID_MARKER @ 32 # e)" for e
    using line_ok_marker [of e "ENVIRONMENT_ID_MARKER @ [32]"] by simp
  with assms print_hunk_lines_ok show ?thesis
    by (auto simp: print_body_def print_environment_def environment_ok_def list_all_iff
        split: option.splits)
qed

lemma line_ok_strip_cr: "list_all line_ok ls \<Longrightarrow> map strip_cr ls = ls"
  by (auto simp: list_all_iff line_ok_def strip_cr_id intro!: map_idI)

lemma parse_printed_lines:
  assumes "environment_ok env" and "list_all hunk_ok phs"
  shows "\<exists>p p'. push_delta default_parser (print_patch env phs) = (Inr (map hunk_of phs), p) \<and>
     finish p = (Inr (map hunk_of phs), p') \<and> environment_id p' = env"
proof -
  let ?ls = "print_body env phs"
  have ok: "list_all line_ok ?ls" using assms by (rule print_body_lines_ok)
  obtain q where q: "process_lines default_parser (map strip_cr ?ls) = Inr q"
    and bq: "between env (map hunk_of phs) q"
    using process_body [OF assms] line_ok_strip_cr [OF ok] by (auto simp: steps_to_def)
  have "list_all (\<lambda>l. newline \<notin> set l) ?ls"
    using ok by (simp add: list_all_iff line_ok_def)
  from push_chars_lines [OF this _ q]
  have "push_chars default_parser (concat (map (\<lambda>l. l @ [newline]) ?ls)) = (None, q)"
    by (simp add: default_parser_def)
  then have "push_chars default_parser (print_patch env phs) =
      (None, q\<lparr>line_buffer := END_PATCH_MARKER\<rparr>)"
    using bq unfolding print_patch_def join_snoc
    by (simp add: push_chars_append push_chars_no_newline between_def)
      (simp add: push_chars_no_newline marker_defs lit_def)
  moreover have "ready (q\<lparr>line_buffer := END_PATCH_MARKER\<rparr>)"
    using bq by (simp add: between_def)
  ultimately show ?thesis
    using bq by (simp add: push_delta_eq finish_end_marker between_def)
qed

text \<open>
  A patch as a stream: every line but the end marker is ended by a line feed, with a carriage return before it
  where the flag of the line says so.
\<close>

definition stream_patch :: "bool list \<Rightarrow> rstring option \<Rightarrow> patch_hunk list \<Rightarrow> rstring" where
  "stream_patch crs env phs =
     concat (map2 (\<lambda>cr l. l @ (if cr then [carriage_return] else []) @ [newline]) crs (print_body env phs)) @ END_PATCH_MARKER"

lemma strip_cr_ended:
  "length crs = length ls \<Longrightarrow> list_all line_ok ls \<Longrightarrow>
     map strip_cr (map2 (\<lambda>cr l. l @ (if cr then [carriage_return] else [])) crs ls) = ls"
proof (induction crs ls rule: list_induct2)
  case (Cons cr crs l ls)
  have "strip_cr (l @ [carriage_return]) = l"
    by (simp add: strip_cr_def strip_suffix_def)
  moreover have "strip_cr l = l" using line_ok_strip_cr [of "[l]"] Cons.prems by simp
  ultimately show ?case using Cons by simp
qed simp

lemma parse_streamed_lines:
  assumes "environment_ok env" and "list_all hunk_ok phs" and "length crs = length (print_body env phs)"
  shows "\<exists>p p'. push_chars default_parser (stream_patch crs env phs) = (None, p) \<and> hunks p = map hunk_of phs \<and>
     finish p = (Inr (map hunk_of phs), p') \<and> environment_id p' = env"
proof -
  let ?ls = "map2 (\<lambda>cr l. l @ (if cr then [carriage_return] else [])) crs (print_body env phs)"
  have ok: "list_all line_ok (print_body env phs)" using assms(1,2) by (rule print_body_lines_ok)
  obtain q where q: "process_lines default_parser (map strip_cr ?ls) = Inr q"
    and bq: "between env (map hunk_of phs) q"
    using process_body [OF assms(1,2)] strip_cr_ended [OF assms(3) ok] by (auto simp: steps_to_def)
  have "list_all (\<lambda>l. newline \<notin> set l) ?ls"
    using ok by (auto simp: list_all_iff line_ok_def dest!: set_zip_rightD)
  from push_chars_lines [OF this _ q]
  have "push_chars default_parser (concat (map (\<lambda>l. l @ [newline]) ?ls)) = (None, q)"
    by (simp add: default_parser_def)
  moreover have "stream_patch crs env phs = concat (map (\<lambda>l. l @ [newline]) ?ls) @ END_PATCH_MARKER"
    by (simp add: stream_patch_def comp_def case_prod_unfold)
  ultimately have "push_chars default_parser (stream_patch crs env phs) = (None, q\<lparr>line_buffer := END_PATCH_MARKER\<rparr>)"
    using bq by (simp add: push_chars_append between_def) (simp add: push_chars_no_newline marker_defs lit_def)
  moreover have "ready (q\<lparr>line_buffer := END_PATCH_MARKER\<rparr>)"
    using bq by (simp add: between_def)
  ultimately show ?thesis
    using bq by (simp add: finish_end_marker between_def)
qed

text \<open>
  How the reported hunks change while a patch streams in: the list never becomes shorter, and only its last hunk
  is still open.
\<close>

definition hunks_grow :: "hunk list \<Rightarrow> hunk list \<Rightarrow> bool" where
  "hunks_grow a b \<longleftrightarrow> length a \<le> length b \<and> prefix (butlast a) b"

lemma hunks_grow_refl [simp]: "hunks_grow a a"
  by (cases a rule: rev_cases) (simp_all add: hunks_grow_def)

lemma hunks_grow_append [simp]: "hunks_grow a (a @ b)"
  by (cases a rule: rev_cases) (simp_all add: hunks_grow_def)

lemma hunks_grow_last: "a \<noteq> [] \<Longrightarrow> hunks_grow a (butlast a @ [h])"
  by (simp add: hunks_grow_def)

lemma hunks_grow_trans: "hunks_grow a b \<Longrightarrow> hunks_grow b c \<Longrightarrow> hunks_grow a c"
proof -
  assume ab: "hunks_grow a b" and bc: "hunks_grow b c"
  have "prefix (butlast b) b" by (cases b rule: rev_cases) simp_all
  moreover have "length (butlast a) \<le> length (butlast b)" using ab by (simp add: hunks_grow_def diff_le_mono)
  ultimately have "prefix (butlast a) (butlast b)"
    using ab prefix_length_prefix [of "butlast a" b "butlast b"] by (simp add: hunks_grow_def)
  with ab bc show ?thesis by (auto simp: hunks_grow_def)
qed

lemma handle_headers_grow:
  "handle_hunk_headers_and_end_patch p l = Inr (Some p') \<Longrightarrow> hunks_grow (hunks p) (hunks p')"
  by (auto simp: handle_hunk_headers_and_end_patch_def begin_hunk_def handle_environment_id_def Let_def
      split: option.splits if_splits)

lemma hunks_grow_last_opt: "last_opt a = Some x \<Longrightarrow> hunks_grow a (butlast a @ [h])"
  by (auto simp: last_opt_def intro: hunks_grow_last)

lemma process_line_grow: "process_line p l = Inr p' \<Longrightarrow> hunks_grow (hunks p) (hunks p')"
  by (auto simp: process_line_def process_header_line_def process_add_line_def process_update_line_def
      split: parser_mode.splits if_splits sum.splits option.splits list.splits hunk.splits prod.splits
      dest: handle_headers_grow intro: hunks_grow_last_opt)

lemma push_chars_grow: "push_chars p s = (None, p') \<Longrightarrow> hunks_grow (hunks p) (hunks p')"
proof (induction p s rule: push_chars.induct)
  case (2 p ch s)
  show ?case
  proof (cases "ch = newline")
    case True
    with "2.prems" obtain q where q: "process_line (take_line p) (strip_cr (line_buffer p)) = Inr q"
      "push_chars q s = (None, p')" by (auto split: sum.splits)
    from hunks_grow_trans [OF process_line_grow [OF q(1)] "2.IH"(1) [OF True q]] show ?thesis by simp
  next
    case False
    with 2 show ?thesis by simp
  qed
qed simp

lemma print_patch_trim: "trim (print_patch env phs) = print_patch env phs"
proof (rule trim_id)
  show "print_patch env phs \<noteq> []"
    by (simp add: print_patch_def join_snoc marker_defs)
  show "\<not> is_whitespace (hd (print_patch env phs))"
    unfolding print_patch_def join_snoc by (simp add: print_body_def marker_defs lit_def)
  show "\<not> is_whitespace (last (print_patch env phs))"
    by (simp add: print_patch_def join_snoc marker_defs lit_def is_whitespace_def)
qed

lemma print_patch_lines:
  assumes "environment_ok env" and "list_all hunk_ok phs"
  shows "str_lines (print_patch env phs) = print_body env phs @ [END_PATCH_MARKER]"
  unfolding print_patch_def
  using print_body_lines_ok [OF assms]
  by (intro str_lines_join) (auto simp: list_all_iff line_ok_def, auto simp: marker_defs lit_def)

lemma boundaries_printed:
  "check_patch_boundaries_strict (print_body env phs @ [END_PATCH_MARKER]) =
     Inr (print_body env phs @ [END_PATCH_MARKER])"
proof -
  have "first_opt (print_body env phs @ [END_PATCH_MARKER]) = Some BEGIN_PATCH_MARKER"
    by (simp add: print_body_def first_opt_def)
  then show ?thesis
    by (simp add: check_patch_boundaries_strict_def check_start_and_end_lines_strict_def)
qed

lemma parse_patch_print:
  assumes "environment_ok env" and "list_all hunk_ok phs"
  shows "parse_patch (print_patch env phs) =
    Inr \<lparr>patch = print_patch env phs, args_hunks = map hunk_of phs, workdir = None,
         args_environment_id = env\<rparr>"
  using parse_printed_lines [OF assms]
  by (auto simp: parse_patch_def parse_patch_text_def PARSE_IN_STRICT_MODE_def Let_def
      print_patch_trim print_patch_lines [OF assms] check_patch_boundaries_lenient_def
      boundaries_printed simp flip: print_patch_def)

text \<open>A patch that arrives as a literal here-document is read as the patch inside it.\<close>

definition heredoc_wrap :: "rstring \<Rightarrow> rstring \<Rightarrow> rstring" where
  "heredoc_wrap opener text = opener @ [newline] @ text @ [newline] @ lit ''EOF''"

lemma heredoc_openers_ok:
  "opener \<in> set heredoc_openers \<Longrightarrow>
     line_ok opener \<and> trim opener \<noteq> BEGIN_PATCH_MARKER \<and> opener \<noteq> [] \<and> hd opener = 60"
  by (auto simp: heredoc_openers_def marker_defs lit_def line_ok_def trim_def trim_start_def
      trim_end_def is_whitespace_def)

lemma parse_patch_heredoc:
  assumes "environment_ok env" and "list_all hunk_ok phs" and "opener \<in> set heredoc_openers"
  shows "parse_patch (heredoc_wrap opener (print_patch env phs)) =
    parse_patch (print_patch env phs)"
proof -
  let ?body = "print_body env phs @ [END_PATCH_MARKER]"
  let ?ls = "opener # ?body @ [lit ''EOF'']"
  note op = heredoc_openers_ok [OF assms(3)]
  have wrapped: "heredoc_wrap opener (print_patch env phs) = join [newline] ?ls"
    using join_append [of ?body "[lit ''EOF'']" "[newline]"]
    by (simp add: heredoc_wrap_def print_patch_def join_Cons)
  have "str_lines (join [newline] ?ls) = ?ls"
    using print_body_lines_ok [OF assms(1,2)] op
    by (intro str_lines_join)
      (auto simp: list_all_iff line_ok_def butlast_append, auto simp: marker_defs lit_def)
  moreover have "trim (join [newline] ?ls) = join [newline] ?ls"
    unfolding wrapped [symmetric] using op
    by (intro trim_id) (auto simp: heredoc_wrap_def lit_def is_whitespace_def)
  moreover have "check_patch_boundaries_lenient ?ls = Inr ?body"
  proof -
    have "check_patch_boundaries_strict ?ls = Inl (InvalidPatchError msg_first_line)"
      using op by (simp add: check_patch_boundaries_strict_def check_start_and_end_lines_strict_def
          first_opt_def last_opt_def)
    moreover have "ends_with (lit ''EOF'') (last ?ls)"
      by (simp add: ends_with_iff)
    moreover have "4 \<le> length ?ls" by (simp add: print_body_def)
    ultimately show ?thesis
      using assms(3) boundaries_printed [of env phs]
      by (simp add: check_patch_boundaries_lenient_def butlast_append)
  qed
  moreover have "str_lines (trim (print_patch env phs)) = ?body"
    by (simp add: print_patch_trim print_patch_lines assms)
  moreover have "check_patch_boundaries_lenient ?body = Inr ?body"
    by (simp add: check_patch_boundaries_lenient_def boundaries_printed)
  ultimately show ?thesis
    unfolding wrapped parse_patch_def parse_patch_text_def
    by (simp add: PARSE_IN_STRICT_MODE_def Let_def)
qed


section \<open>Properties\<close>

text \<open>
  C1. Round trip: every well-formed patch that follows the documented grammar is parsed into
  exactly the hunks and the environment it denotes, whatever text its lines contain.
\<close>

theorem parse_patch_roundtrip:
  assumes "environment_ok env" and "list_all hunk_ok phs"
  shows "parse_patch (print_patch env phs) =
    Inr \<lparr>patch = print_patch env phs, args_hunks = map hunk_of phs, workdir = None,
         args_environment_id = env\<rparr>"
  using assms by (rule parse_patch_print)

definition sample_hunks :: "patch_hunk list" where
  "sample_hunks =
     [PAdd (lit ''new.txt'') [lit ''*** End Patch'', []],
      PDelete (lit ''gone.txt''),
      PUpdate (lit ''a.py'') (Some (lit ''b.py''))
        [PChunk NoHeader [Context (lit ''import x''), Removed (lit ''@@ y''), Added []] False,
         PChunk (ContextHeader (lit ''def f():'')) [Removed (lit ''pass'')] True]]"

lemma sample_hunks_ok: "list_all hunk_ok sample_hunks" "environment_ok (Some (lit ''dev box''))"
  by (simp_all add: sample_hunks_def name_ok_def line_ok_def environment_ok_def lit_def is_whitespace_def)

theorem parse_patch_roundtrip_witness:
  "parse_patch (print_patch (Some (lit ''dev box'')) sample_hunks) =
     Inr \<lparr>patch = print_patch (Some (lit ''dev box'')) sample_hunks,
          args_hunks = map hunk_of sample_hunks, workdir = None,
          args_environment_id = Some (lit ''dev box'')\<rparr>"
  by (rule parse_patch_roundtrip) (rule sample_hunks_ok)+

text \<open>
  C15. Streaming: a well-formed patch whose lines end in a line feed or in a carriage return and a line feed, and which
  arrives in deltas cut at any place, also inside a line or between the carriage return and the line feed, is parsed without
  an error into exactly the hunks and the environment it denotes. After every delta the parser reports hunks all of which,
  but the last, are already those of the whole patch.
\<close>

theorem streamed_patch_roundtrip:
  assumes "environment_ok env" and "list_all hunk_ok phs" and "length crs = length (print_body env phs)"
    and "concat ds = stream_patch crs env phs"
  shows "(\<exists>p p'. push_deltas default_parser ds = (None, p) \<and> hunks p = map hunk_of phs \<and>
      finish p = (Inr (map hunk_of phs), p') \<and> environment_id p' = env) \<and>
    (\<forall>k. \<exists>p. push_deltas default_parser (take k ds) = (None, p) \<and>
      prefix (butlast (hunks p)) (map hunk_of phs))"
proof -
  obtain p p' where p: "push_chars default_parser (concat ds) = (None, p)" "hunks p = map hunk_of phs"
    "finish p = (Inr (map hunk_of phs), p')" "environment_id p' = env"
    using parse_streamed_lines [OF assms(1-3)] unfolding assms(4) by blast
  have "\<exists>q. push_chars default_parser (concat (take k ds)) = (None, q) \<and> prefix (butlast (hunks q)) (map hunk_of phs)" for k
  proof -
    have "concat ds = concat (take k ds) @ concat (drop k ds)"
      by (metis append_take_drop_id concat_append)
    with p(1) obtain q where q: "push_chars default_parser (concat (take k ds)) = (None, q)"
      "push_chars q (concat (drop k ds)) = (None, p)"
      by (auto simp: push_chars_append split: prod.splits option.splits)
    with push_chars_grow [OF q(2)] p(2) show ?thesis by (auto simp: hunks_grow_def)
  qed
  with p show ?thesis by (auto simp: push_deltas_concat)
qed

theorem streamed_patch_roundtrip_witness:
  "let ds = [lit ''*** Begin Pa'', lit ''tch'' @ [carriage_return], newline # lit ''*** Add File: a'' @ [newline, 43],
         lit ''x'' @ [newline] @ lit ''*** Delete File: b'' @ [newline] @ lit ''*** End'', lit '' Patch'']
   in \<exists>p p'. push_deltas default_parser ds = (None, p) \<and>
        finish p = (Inr [AddFile (lit ''a'') (lit ''x'' @ [newline]), DeleteFile (lit ''b'')], p')"
proof -
  let ?phs = "[PAdd (lit ''a'') [lit ''x''], PDelete (lit ''b'')]" and ?crs = "[True, False, False, False]"
  let ?ds = "[lit ''*** Begin Pa'', lit ''tch'' @ [carriage_return], newline # lit ''*** Add File: a'' @ [newline, 43],
         lit ''x'' @ [newline] @ lit ''*** Delete File: b'' @ [newline] @ lit ''*** End'', lit '' Patch'']"
  have a: "environment_ok None" by (simp add: environment_ok_def)
  have b: "list_all hunk_ok ?phs" by (simp add: name_ok_def line_ok_def lit_def is_whitespace_def)
  have c: "length ?crs = length (print_body None ?phs)" by code_simp
  have d: "concat ?ds = stream_patch ?crs None ?phs" by code_simp
  have e: "map hunk_of ?phs = [AddFile (lit ''a'') (lit ''x'' @ [newline]), DeleteFile (lit ''b'')]" by code_simp
  from streamed_patch_roundtrip [OF a b c d] show ?thesis unfolding Let_def e by blast
qed

text \<open>
  A patch that is passed as a literal here-document, with any of the three accepted
  openers, is parsed like the patch inside it.
\<close>

theorem parse_patch_heredoc_equiv:
  assumes "environment_ok env" and "list_all hunk_ok phs" and "opener \<in> set heredoc_openers"
  shows "parse_patch (heredoc_wrap opener (print_patch env phs)) = parse_patch (print_patch env phs)"
  using assms by (rule parse_patch_heredoc)

theorem parse_patch_heredoc_equiv_witness:
  "parse_patch (heredoc_wrap (lit ''<<EOF'') (print_patch (Some (lit ''dev box'')) sample_hunks)) =
     parse_patch (print_patch (Some (lit ''dev box'')) sample_hunks)"
  by (rule parse_patch_heredoc_equiv [OF sample_hunks_ok(2) sample_hunks_ok(1)])
    (simp add: heredoc_openers_def)

end
