(* ===== verification/Apply_Patch.thy ===== *)
theory Apply_Patch
  imports Apply_Files Patch_Grammar
begin

text \<open>
  The entry points of \<^verbatim>\<open>codex-rs/apply-patch\<close>: \<^verbatim>\<open>apply_patch\<close>, \<^verbatim>\<open>apply_hunks\<close> and
  \<^verbatim>\<open>print_summary\<close> (\<^verbatim>\<open>src/lib.rs\<close>), and the recognition and verification of invocations
  (\<^verbatim>\<open>src/invocation.rs\<close>).

  Parameters: an output stream is a state \<open>'o\<close> with an operation that writes one line; the
  unified diff of two texts (crate \<^verbatim>\<open>similar\<close>) is a function; the matches of the Tree-sitter
  query over a shell script are a function from the script to lists of named captures.
\<close>

section \<open>Output\<close>

type_synonym 'o line_writer = "'o \<Rightarrow> rstring \<Rightarrow> io_error option \<times> 'o"

fun write_lines :: "'o line_writer \<Rightarrow> 'o \<Rightarrow> rstring list \<Rightarrow> io_error option \<times> 'o" where
  "write_lines wr out [] = (None, out)"
| "write_lines wr out (l # ls) =
     (case wr out l of (Some e, out') \<Rightarrow> (Some e, out') | (None, out') \<Rightarrow> write_lines wr out' ls)"

definition summary_lines :: "affected_paths \<Rightarrow> rstring list" where
  "summary_lines aff =
     [lit ''Success. Updated the following files:''] @
     map (\<lambda>path. lit ''A '' @ path) (added aff) @
     map (\<lambda>path. lit ''M '' @ path) (modified aff) @
     map (\<lambda>path. lit ''D '' @ path) (deleted aff)"

definition print_summary :: "'o line_writer \<Rightarrow> affected_paths \<Rightarrow> 'o \<Rightarrow> io_error option \<times> 'o" where
  "print_summary wr aff out = write_lines wr out (summary_lines aff)"


section \<open>apply\_hunks and apply\_patch\<close>

datatype 'x apply_patch_error =
    ParseError parse_error
  | IoError rstring io_error
  | ComputeReplacementsError rstring
  | PathUri 'x
  | ImplicitInvocation

record ('u, 'x) apply_patch_failure =
  failure_error :: "'x apply_patch_error"
  failure_delta :: "'u applied_patch_delta"

definition io_other :: "rstring \<Rightarrow> io_error" where
  "io_other msg = \<lparr>io_kind = OtherKind, io_message = msg\<rparr>"

definition from_io_error :: "io_error \<Rightarrow> 'x apply_patch_error" where
  "from_io_error err = IoError (lit ''I/O error'') err"

fun file_error_message :: "('x \<Rightarrow> rstring) \<Rightarrow> 'x file_error \<Rightarrow> rstring" where
  "file_error_message show_uri NoFilesModified = lit ''No files were modified.''"
| "file_error_message show_uri (PathUriError x) = show_uri x"
| "file_error_message show_uri (IoWithContext ctx e) = ctx"
| "file_error_message show_uri (ReadForUpdate ctx e) = ctx @ lit '': '' @ io_message e"
| "file_error_message show_uri (ComputeReplacements msg) = msg"
| "file_error_message show_uri Panicked = []"

fun apply_error_of :: "('x \<Rightarrow> rstring) \<Rightarrow> 'x file_error \<Rightarrow> 'x apply_patch_error" where
  "apply_error_of show_uri (IoWithContext ctx e) = from_io_error e"
| "apply_error_of show_uri e =
     IoError (file_error_message show_uri e) (io_other (file_error_message show_uri e))"

definition apply_hunks ::
  "('w, 'u) executor_file_system \<Rightarrow> ('u, 'x) path_ops \<Rightarrow> ('x \<Rightarrow> rstring) \<Rightarrow> 'o line_writer \<Rightarrow>
   'u \<Rightarrow> hunk list \<Rightarrow> 'w \<Rightarrow> 'o \<Rightarrow> 'o \<Rightarrow>
   (('u, 'x) apply_patch_failure + 'u applied_patch_delta) \<times> 'w \<times> 'o \<times> 'o" where
  "apply_hunks fs po show_uri wr cwd hs w out err =
     (case apply_hunks_to_files fs po cwd hs w of
        (None, st) \<Rightarrow>
          (case print_summary wr (affected st) out of
             (Some e, out') \<Rightarrow>
               (Inl \<lparr>failure_error = from_io_error e, failure_delta = delta st\<rparr>, world st, out', err)
           | (None, out') \<Rightarrow> (Inr (delta st), world st, out', err))
      | (Some e, st) \<Rightarrow>
          (case wr err (file_error_message show_uri e) of
             (Some io, err') \<Rightarrow>
               (Inl \<lparr>failure_error = from_io_error io, failure_delta = delta st\<rparr>, world st, out, err')
           | (None, err') \<Rightarrow>
               (Inl \<lparr>failure_error = apply_error_of show_uri e, failure_delta = delta st\<rparr>,
                world st, out, err')))"

fun parse_error_message :: "parse_error \<Rightarrow> rstring" where
  "parse_error_message (InvalidPatchError msg) = lit ''Invalid patch: '' @ msg"
| "parse_error_message (InvalidHunkError msg n) =
     lit ''Invalid patch hunk on line '' @ show_nat n @ lit '': '' @ msg"

definition apply_patch ::
  "('w, 'u) executor_file_system \<Rightarrow> ('u, 'x) path_ops \<Rightarrow> ('x \<Rightarrow> rstring) \<Rightarrow> 'o line_writer \<Rightarrow>
   rstring \<Rightarrow> 'u \<Rightarrow> 'w \<Rightarrow> 'o \<Rightarrow> 'o \<Rightarrow>
   (('u, 'x) apply_patch_failure + 'u applied_patch_delta) \<times> 'w \<times> 'o \<times> 'o" where
  "apply_patch fs po show_uri wr ptext cwd w out err =
     (case parse_patch ptext of
        Inl e \<Rightarrow>
          (case wr err (parse_error_message e) of
             (Some io, err') \<Rightarrow>
               (Inl \<lparr>failure_error = from_io_error io, failure_delta = empty_delta\<rparr>, w, out, err')
           | (None, err') \<Rightarrow>
               (Inl \<lparr>failure_error = ParseError e, failure_delta = empty_delta\<rparr>, w, out, err'))
      | Inr source \<Rightarrow> apply_hunks fs po show_uri wr cwd (args_hunks source) w out err)"


section \<open>Recognising an invocation (invocation.rs)\<close>

definition APPLY_PATCH_COMMANDS :: "rstring list" where
  "APPLY_PATCH_COMMANDS = [lit ''apply_patch'', lit ''applypatch'']"

datatype apply_patch_shell = UnixShell | PowerShell | Cmd

datatype path_convention = Posix | Windows

datatype extract_heredoc_error =
    CommandDidNotStartWithApplyPatch
  | FailedToLoadBashGrammar
  | HeredocNotUtf8
  | FailedToParsePatchIntoAst
  | FailedToFindHeredocBody

datatype maybe_apply_patch =
    MaybeBody apply_patch_args
  | MaybeShellParseError extract_heredoc_error
  | MaybePatchParseError parse_error
  | MaybeNotApplyPatch

text \<open>The last segment of a path under a convention; splitting always gives one.\<close>

definition last_path_segment :: "path_convention \<Rightarrow> rstring \<Rightarrow> rstring" where
  "last_path_segment conv path =
     last (case conv of
             Posix \<Rightarrow> split_on 47 path
           | Windows \<Rightarrow> split_on 47 (map (\<lambda>c. if c = 92 then 47 else c) path))"

definition classify_shell_name :: "rstring \<Rightarrow> path_convention \<Rightarrow> rstring" where
  "classify_shell_name shell conv =
     (let basename = last_path_segment conv shell;
          stem = (case rsplit_once 46 basename of
                    Some (stem, extension) \<Rightarrow> if stem \<noteq> [] then stem else basename
                  | None \<Rightarrow> basename)
      in to_ascii_lowercase stem)"

definition classify_shell :: "rstring \<Rightarrow> rstring \<Rightarrow> path_convention \<Rightarrow> apply_patch_shell option" where
  "classify_shell shell flag conv =
     (let name = classify_shell_name shell conv in
      if name \<in> {lit ''bash'', lit ''zsh'', lit ''sh''} \<and> flag \<in> {lit ''-lc'', lit ''-c''} then Some UnixShell
      else if name \<in> {lit ''pwsh'', lit ''powershell''} \<and> to_ascii_lowercase flag = lit ''-command''
        then Some PowerShell
      else if name = lit ''cmd'' \<and> to_ascii_lowercase flag = lit ''/c'' then Some Cmd
      else None)"

definition can_skip_flag :: "rstring \<Rightarrow> rstring \<Rightarrow> path_convention \<Rightarrow> bool" where
  "can_skip_flag shell flag conv \<longleftrightarrow>
     classify_shell_name shell conv \<in> {lit ''pwsh'', lit ''powershell''} \<and>
     to_ascii_lowercase flag = lit ''-noprofile''"

fun parse_shell_script ::
  "rstring list \<Rightarrow> path_convention option \<Rightarrow> (apply_patch_shell \<times> rstring) option" where
  "parse_shell_script argv None = None"
| "parse_shell_script [shell, flag, script] (Some conv) =
     map_option (\<lambda>shell_type. (shell_type, script)) (classify_shell shell flag conv)"
| "parse_shell_script [shell, skip_flag, flag, script] (Some conv) =
     (if \<not> can_skip_flag shell skip_flag conv then None
      else map_option (\<lambda>shell_type. (shell_type, script)) (classify_shell shell flag conv))"
| "parse_shell_script argv (Some conv) = None"

text \<open>
  A match of the query is its captures in order: a capture name and the text of the node, or
  \<open>None\<close> where the node is not UTF-8. The loop keeps the last capture of each name; the first
  match with a here-document wins.
\<close>

type_synonym capture = "rstring \<times> rstring option"

fun read_captures ::
  "rstring option \<Rightarrow> rstring option \<Rightarrow> capture list \<Rightarrow>
   extract_heredoc_error + rstring option \<times> rstring option" where
  "read_captures heredoc_text cd_path [] = Inr (heredoc_text, cd_path)"
| "read_captures heredoc_text cd_path ((name, text) # cs) =
     (if name = lit ''heredoc'' then
        (case text of None \<Rightarrow> Inl HeredocNotUtf8
         | Some t \<Rightarrow> read_captures (Some (trim_end_matches newline t)) cd_path cs)
      else if name = lit ''cd_path'' then
        (case text of None \<Rightarrow> Inl HeredocNotUtf8
         | Some t \<Rightarrow> read_captures heredoc_text (Some t) cs)
      else if name = lit ''cd_raw_string'' then
        (case text of None \<Rightarrow> Inl HeredocNotUtf8
         | Some raw \<Rightarrow>
             read_captures heredoc_text
               (Some (case Option.bind (strip_prefix [39] raw) (strip_suffix [39]) of
                        Some trimmed \<Rightarrow> trimmed | None \<Rightarrow> raw)) cs)
      else read_captures heredoc_text cd_path cs)"

fun first_heredoc ::
  "capture list list \<Rightarrow> extract_heredoc_error + rstring \<times> rstring option" where
  "first_heredoc [] = Inl CommandDidNotStartWithApplyPatch"
| "first_heredoc (m # ms) =
     (case read_captures None None m of
        Inl e \<Rightarrow> Inl e
      | Inr (Some heredoc, cd_path) \<Rightarrow> Inr (heredoc, cd_path)
      | Inr (None, cd_path) \<Rightarrow> first_heredoc ms)"

type_synonym script_query = "rstring \<Rightarrow> extract_heredoc_error + capture list list"

definition extract_apply_patch_from_bash ::
  "script_query \<Rightarrow> rstring \<Rightarrow> extract_heredoc_error + rstring \<times> rstring option" where
  "extract_apply_patch_from_bash query src =
     (case query src of Inl e \<Rightarrow> Inl e | Inr ms \<Rightarrow> first_heredoc ms)"

definition parse_extracted ::
  "script_query \<Rightarrow> rstring \<Rightarrow> maybe_apply_patch" where
  "parse_extracted query script =
     (case extract_apply_patch_from_bash query script of
        Inr (body, wd) \<Rightarrow>
          (case parse_patch body of
             Inr source \<Rightarrow> MaybeBody (source\<lparr>workdir := wd\<rparr>)
           | Inl e \<Rightarrow> MaybePatchParseError e)
      | Inl CommandDidNotStartWithApplyPatch \<Rightarrow> MaybeNotApplyPatch
      | Inl e \<Rightarrow> MaybeShellParseError e)"

definition maybe_parse_apply_patch ::
  "script_query \<Rightarrow> rstring list \<Rightarrow> path_convention option \<Rightarrow> maybe_apply_patch" where
  "maybe_parse_apply_patch query argv conv =
     (if length argv = 2 \<and> hd argv \<in> set APPLY_PATCH_COMMANDS then
        (case parse_patch (argv ! 1) of
           Inr source \<Rightarrow> MaybeBody source
         | Inl e \<Rightarrow> MaybePatchParseError e)
      else
        (case parse_shell_script argv conv of
           Some (shell, script) \<Rightarrow> parse_extracted query script
         | None \<Rightarrow> MaybeNotApplyPatch))"


section \<open>Verification against the file system\<close>

datatype 'u proposed_change =
    ProposeAdd rstring
  | ProposeDelete rstring
  | ProposeUpdate rstring "'u option" rstring

record 'u apply_patch_action =
  action_changes :: "'u \<rightharpoonup> 'u proposed_change"
  action_patch :: rstring
  action_cwd :: 'u

datatype ('u, 'x) maybe_verified =
    VerifiedBody "'u apply_patch_action"
  | VerifiedShellParseError extract_heredoc_error
  | CorrectnessError "'x apply_patch_error"
  | VerifiedNotApplyPatch

fun derive_error_of :: "'x file_error \<Rightarrow> 'x apply_patch_error" where
  "derive_error_of (ReadForUpdate ctx e) = IoError ctx e"
| "derive_error_of (ComputeReplacements msg) = ComputeReplacementsError msg"
| "derive_error_of (PathUriError x) = PathUri x"
| "derive_error_of (IoWithContext ctx e) = from_io_error e"
| "derive_error_of e = IoError [] (io_other [])"

type_synonym text_diff = "rstring \<Rightarrow> rstring \<Rightarrow> nat \<Rightarrow> rstring"

definition unified_diff_from_chunks ::
  "('w, 'u) executor_file_system \<Rightarrow> ('u, 'x) path_ops \<Rightarrow> text_diff \<Rightarrow> 'w \<Rightarrow> 'u \<Rightarrow>
   update_file_chunk list \<Rightarrow> 'x apply_patch_error + rstring \<times> rstring \<times> rstring" where
  "unified_diff_from_chunks fs po diff w path chunks =
     (case derive_new_contents_from_chunks fs po w path chunks of
        Inl e \<Rightarrow> Inl (derive_error_of e)
      | Inr (original_contents, new_contents) \<Rightarrow>
          Inr (diff original_contents new_contents 1, original_contents, new_contents))"

definition propose_change ::
  "('w, 'u) executor_file_system \<Rightarrow> ('u, 'x) path_ops \<Rightarrow> text_diff \<Rightarrow> 'w \<Rightarrow> 'u \<Rightarrow> hunk \<Rightarrow>
   'x apply_patch_error + 'u \<times> 'u proposed_change" where
  "propose_change fs po diff w cwd hunk =
     (case path_join po cwd (hunk_source_path hunk) of
        Inl x \<Rightarrow> Inl (PathUri x)
      | Inr path \<Rightarrow>
          (case hunk of
             AddFile _ contents \<Rightarrow> Inr (path, ProposeAdd contents)
           | DeleteFile _ \<Rightarrow>
               (case read_file_text fs w path of
                  Inl source \<Rightarrow>
                    Inl (IoError (lit ''Failed to read '' @ native_path_string po path) source)
                | Inr content \<Rightarrow> Inr (path, ProposeDelete content))
           | UpdateFile _ move_path chunks \<Rightarrow>
               (case unified_diff_from_chunks fs po diff w path chunks of
                  Inl e \<Rightarrow> Inl e
                | Inr (unified_diff, _, contents) \<Rightarrow>
                    (case move_path of
                       None \<Rightarrow> Inr (path, ProposeUpdate unified_diff None contents)
                     | Some mv \<Rightarrow>
                         (case path_join po cwd mv of
                            Inl x \<Rightarrow> Inl (PathUri x)
                          | Inr dest \<Rightarrow> Inr (path, ProposeUpdate unified_diff (Some dest) contents))))))"

fun propose_changes ::
  "('w, 'u) executor_file_system \<Rightarrow> ('u, 'x) path_ops \<Rightarrow> text_diff \<Rightarrow> 'w \<Rightarrow> 'u \<Rightarrow> hunk list \<Rightarrow>
   ('u \<rightharpoonup> 'u proposed_change) \<Rightarrow> 'x apply_patch_error + ('u \<rightharpoonup> 'u proposed_change)" where
  "propose_changes fs po diff w cwd [] m = Inr m"
| "propose_changes fs po diff w cwd (h # hs) m =
     (case propose_change fs po diff w cwd h of
        Inl e \<Rightarrow> Inl e
      | Inr (path, c) \<Rightarrow> propose_changes fs po diff w cwd hs (m(path \<mapsto> c)))"

definition try_verify_apply_patch_args ::
  "('w, 'u) executor_file_system \<Rightarrow> ('u, 'x) path_ops \<Rightarrow> text_diff \<Rightarrow> 'w \<Rightarrow> 'u \<Rightarrow>
   apply_patch_args \<Rightarrow> 'x apply_patch_error + 'u apply_patch_action" where
  "try_verify_apply_patch_args fs po diff w cwd args =
     (case (case workdir args of None \<Rightarrow> Inr cwd | Some dir \<Rightarrow> path_join po cwd dir) of
        Inl x \<Rightarrow> Inl (PathUri x)
      | Inr effective_cwd \<Rightarrow>
          map_sum id (\<lambda>m. \<lparr>action_changes = m, action_patch = patch args, action_cwd = effective_cwd\<rparr>)
            (propose_changes fs po diff w effective_cwd (args_hunks args) Map.empty))"

definition verify_apply_patch_args ::
  "('w, 'u) executor_file_system \<Rightarrow> ('u, 'x) path_ops \<Rightarrow> text_diff \<Rightarrow> 'w \<Rightarrow> 'u \<Rightarrow>
   apply_patch_args \<Rightarrow> ('u, 'x) maybe_verified" where
  "verify_apply_patch_args fs po diff w cwd args =
     (case try_verify_apply_patch_args fs po diff w cwd args of
        Inr action \<Rightarrow> VerifiedBody action
      | Inl e \<Rightarrow> CorrectnessError e)"

definition parses :: "rstring \<Rightarrow> bool" where
  "parses s \<longleftrightarrow> (case parse_patch s of Inr _ \<Rightarrow> True | Inl _ \<Rightarrow> False)"

definition maybe_parse_apply_patch_verified ::
  "('w, 'u) executor_file_system \<Rightarrow> ('u, 'x) path_ops \<Rightarrow> text_diff \<Rightarrow> script_query \<Rightarrow> 'w \<Rightarrow>
   rstring list \<Rightarrow> 'u \<Rightarrow> path_convention option \<Rightarrow> ('u, 'x) maybe_verified" where
  "maybe_parse_apply_patch_verified fs po diff query w argv cwd conv =
     (if (case argv of [body] \<Rightarrow> parses body | _ \<Rightarrow> False) then CorrectnessError ImplicitInvocation
      else if (case parse_shell_script argv conv of Some (_, script) \<Rightarrow> parses script | None \<Rightarrow> False)
        then CorrectnessError ImplicitInvocation
      else (case maybe_parse_apply_patch query argv conv of
              MaybeBody args \<Rightarrow> verify_apply_patch_args fs po diff w cwd args
            | MaybeShellParseError e \<Rightarrow> VerifiedShellParseError e
            | MaybePatchParseError e \<Rightarrow> CorrectnessError (ParseError e)
            | MaybeNotApplyPatch \<Rightarrow> VerifiedNotApplyPatch))"


section \<open>The preview is what gets applied\<close>

text \<open>The texts after a proposed change, and the paths a hunk touches.\<close>

fun proposal_effect :: "'u \<Rightarrow> 'u proposed_change \<Rightarrow> ('u \<rightharpoonup> rstring) \<Rightarrow> ('u \<rightharpoonup> rstring)" where
  "proposal_effect p (ProposeAdd c) m = m(p \<mapsto> c)"
| "proposal_effect p (ProposeDelete c) m = m(p := None)"
| "proposal_effect p (ProposeUpdate d None c) m = m(p \<mapsto> c)"
| "proposal_effect p (ProposeUpdate d (Some dest) c) m = (m(dest \<mapsto> c))(p := None)"

fun proposal_touches :: "'u \<Rightarrow> 'u proposed_change \<Rightarrow> 'u list" where
  "proposal_touches p (ProposeUpdate d (Some dest) c) = [p, dest]"
| "proposal_touches p pc = [p]"

lemma proposal_effect_other:
  "q \<notin> set (proposal_touches p pc) \<Longrightarrow> proposal_effect p pc m q = m q"
  by (cases "(p, pc, m)" rule: proposal_effect.cases) auto

lemma proposal_effect_touched:
  "q \<in> set (proposal_touches p pc) \<Longrightarrow> proposal_effect p pc m q = proposal_effect p pc m' q"
  by (cases "(p, pc, m)" rule: proposal_effect.cases) auto

lemma add_file_content:
  assumes "text_fs fs content" and "apply_add_file fs po ap path c st = (None, st')"
  shows "content (world st') = (content (world st))(path \<mapsto> c)"
  using assms(2) write_retry_content [OF assms(1), of po]
  by (auto simp: apply_add_file_def Let_def split: prod.splits option.splits)

lemma delete_file_content:
  assumes "text_fs fs content" and "apply_delete_file fs po ap path st = (None, st')"
  shows "content (world st') = (content (world st))(path := None)"
  using assms(2) remove_ok_content [OF assms(1)]
  by (auto simp: apply_delete_file_def Let_def split: prod.splits option.splits)

lemma move_content:
  assumes "text_fs fs content" and "apply_move fs po ap path dest old new st = (None, st')"
  shows "content (world st') = ((content (world st))(dest \<mapsto> new))(path := None)"
  using assms(2) remove_ok_content [OF assms(1)] write_retry_content [OF assms(1), of po]
  by (auto simp: apply_move_def Let_def split: prod.splits option.splits)

lemma derive_same_content:
  assumes "text_fs fs content" and "content w path = content w0 path"
    and "derive_new_contents_from_chunks fs po w path chunks = Inr (old, new)"
    and "derive_new_contents_from_chunks fs po w0 path chunks = Inr (old', new')"
  shows "new = new'"
proof -
  have "content w path = Some old" "content w0 path = Some old'"
    using derive_reads [OF assms(3)] derive_reads [OF assms(4)] assms(1) by (simp_all add: text_fs_def)
  with assms(2) have "old = old'" by simp
  with assms(3,4) show ?thesis
    by (auto simp: derive_new_contents_from_chunks_def split: sum.splits option.splits)
qed

lemma update_file_content:
  assumes "text_fs fs content" and "apply_update_file fs po cwd ap path mv chunks st = (None, st')"
    and "content (world st) path = content w0 path"
    and "derive_new_contents_from_chunks fs po w0 path chunks = Inr (old', new)"
  shows "mv = None \<Longrightarrow> content (world st') = (content (world st))(path \<mapsto> new)"
    and "mv = Some d \<Longrightarrow> path_join po cwd d = Inr dest \<Longrightarrow>
      content (world st') = ((content (world st))(dest \<mapsto> new))(path := None)"
proof -
  from assms(2) obtain old new' where
    d: "derive_new_contents_from_chunks fs po (world st) path chunks = Inr (old, new')"
    by (auto simp: apply_update_file_def Let_def split: sum.splits prod.splits)
  then have new: "new' = new" using derive_same_content [OF assms(1,3)] assms(4) by blast
  show "content (world st') = (content (world st))(path \<mapsto> new)" if "mv = None"
  proof -
    from assms(2) d that new obtain w where "write_file fs (world st) path new = (None, w)" "world st' = w"
      by (auto simp: apply_update_file_def Let_def split: prod.splits option.splits)
    with assms(1) show ?thesis by (simp add: text_fs_def)
  qed
  show "content (world st') = ((content (world st))(dest \<mapsto> new))(path := None)"
    if "mv = Some d" "path_join po cwd d = Inr dest"
    using assms(2) d that new move_content [OF assms(1)]
    by (fastforce simp: apply_update_file_def Let_def)
qed

lemma apply_hunk_effect:
  assumes "text_fs fs content" and "propose_change fs po diff w0 cwd h = Inr (p, pc)"
    and "apply_hunk fs po cwd h st = (None, st')" and "content (world st) p = content w0 p"
  shows "content (world st') = proposal_effect p pc (content (world st))"
proof -
  from assms(2) have p: "path_join po cwd (hunk_source_path h) = Inr p"
    by (auto simp: propose_change_def split: sum.splits hunk.splits option.splits)
  show ?thesis
  proof (cases h)
    case (AddFile f c)
    with assms p show ?thesis
      by (auto simp: propose_change_def apply_hunk_def dest: add_file_content)
  next
    case (DeleteFile f)
    with assms p show ?thesis
      by (auto simp: propose_change_def apply_hunk_def dest: delete_file_content split: sum.splits)
  next
    case (UpdateFile f mv chunks)
    from assms(2) UpdateFile p obtain old new where
      d: "derive_new_contents_from_chunks fs po w0 p chunks = Inr (old, new)"
      by (auto simp: propose_change_def unified_diff_from_chunks_def split: sum.splits prod.splits)
    have ap: "apply_update_file fs po cwd (hunk_path h) p mv chunks st = (None, st')"
      using assms(3) UpdateFile p by (simp add: apply_hunk_def)
    note upd = update_file_content [OF assms(1) ap assms(4) d]
    show ?thesis
      using assms(2) UpdateFile p d upd
      by (cases mv) (auto simp: propose_change_def unified_diff_from_chunks_def split: sum.splits)
  qed
qed

text \<open>The proposals of a list of hunks, in order.\<close>

fun proposals ::
  "('w, 'u) executor_file_system \<Rightarrow> ('u, 'x) path_ops \<Rightarrow> text_diff \<Rightarrow> 'w \<Rightarrow> 'u \<Rightarrow> hunk list \<Rightarrow>
   ('u \<times> 'u proposed_change) list" where
  "proposals fs po diff w cwd [] = []"
| "proposals fs po diff w cwd (h # hs) =
     (case propose_change fs po diff w cwd h of
        Inl e \<Rightarrow> []
      | Inr pc \<Rightarrow> pc # proposals fs po diff w cwd hs)"

lemma propose_changes_proposals:
  "propose_changes fs po diff w cwd hs m = Inr m' \<Longrightarrow>
     m' = m ++ map_of (rev (proposals fs po diff w cwd hs))"
  by (induction hs arbitrary: m) (auto simp: map_add_assoc split: sum.splits)

lemma apply_loop_effect:
  assumes "text_fs fs content"
    and "propose_changes fs po diff w0 cwd hs m = Inr m'"
    and "apply_hunk_loop fs po cwd hs st = (None, st')"
    and "distinct (concat (map (\<lambda>(p, pc). proposal_touches p pc) (proposals fs po diff w0 cwd hs)))"
    and "\<forall>(p, pc) \<in> set (proposals fs po diff w0 cwd hs). content (world st) p = content w0 p"
  shows "content (world st') =
    fold (\<lambda>(p, pc). proposal_effect p pc) (proposals fs po diff w0 cwd hs) (content (world st))"
  using assms(2-)
proof (induction hs arbitrary: st m)
  case (Cons h hs)
  from Cons.prems(1) obtain p pc where pc: "propose_change fs po diff w0 cwd h = Inr (p, pc)"
    and ms: "propose_changes fs po diff w0 cwd hs (m(p \<mapsto> pc)) = Inr m'"
    by (auto split: sum.splits)
  from Cons.prems(2) obtain st1 where st1: "apply_hunk fs po cwd h st = (None, st1)"
    "apply_hunk_loop fs po cwd hs st1 = (None, st')"
    by (auto split: prod.splits option.splits)
  have eff: "content (world st1) = proposal_effect p pc (content (world st))"
    using apply_hunk_effect [OF assms(1) pc st1(1)] Cons.prems(4) pc by simp
  have "content (world st1) q = content w0 q"
    if "(q, qc) \<in> set (proposals fs po diff w0 cwd hs)" for q qc
  proof -
    have "q \<in> set (proposal_touches q qc)" by (cases "(q, qc)" rule: proposal_touches.cases) auto
    with that Cons.prems(3) pc have "q \<notin> set (proposal_touches p pc)" by fastforce
    then show ?thesis using eff that Cons.prems(4) pc by (auto simp: proposal_effect_other)
  qed
  with Cons.IH [OF ms st1(2)] Cons.prems(3) pc eff show ?case by auto
qed simp

lemma fold_proposals_content:
  assumes "(p, pc) \<in> set ps" and "distinct (concat (map (\<lambda>(p, pc). proposal_touches p pc) ps))"
    and "q \<in> set (proposal_touches p pc)"
  shows "fold (\<lambda>(p, pc). proposal_effect p pc) ps m q = proposal_effect p pc Map.empty q"
  using assms
proof (induction ps arbitrary: m rule: rev_induct)
  case (snoc x xs)
  obtain p' pc' where x: "x = (p', pc')" by (cases x)
  show ?case
  proof (cases "(p, pc) = x")
    case True
    with x snoc.prems(3) show ?thesis by (auto intro: proposal_effect_touched)
  next
    case False
    with snoc.prems have "(p, pc) \<in> set xs" by simp
    moreover from this snoc.prems x have "q \<notin> set (proposal_touches p' pc')" by fastforce
    ultimately show ?thesis
      using snoc x by (simp add: proposal_effect_other)
  qed
qed simp

lemma fold_proposals_untouched:
  "(\<And>p pc. (p, pc) \<in> set ps \<Longrightarrow> q \<notin> set (proposal_touches p pc)) \<Longrightarrow>
     fold (\<lambda>(p, pc). proposal_effect p pc) ps m q = m q"
proof (induction ps arbitrary: m)
  case (Cons x ps)
  obtain p pc where x: "x = (p, pc)" by (cases x)
  have "q \<notin> set (proposal_touches p pc)" using Cons.prems [of p pc] x by simp
  with Cons x show ?case by (simp add: proposal_effect_other)
qed simp

lemma proposal_touches_self: "p \<in> set (proposal_touches p pc)"
  by (cases "(p, pc)" rule: proposal_touches.cases) auto

lemma distinct_proposal_paths:
  assumes "distinct (concat (map (\<lambda>(p, pc). proposal_touches p pc) ps))"
  shows "distinct (map fst ps)"
  using assms
proof (induction ps)
  case (Cons x ps)
  obtain p pc where x: "x = (p, pc)" by (cases x)
  have "p \<noteq> q" if "(q, qc) \<in> set ps" for q qc
    using Cons.prems x that proposal_touches_self [of p pc] proposal_touches_self [of q qc] by auto
  then have "p \<notin> fst ` set ps" by (metis imageE prod.collapse)
  with Cons x show ?case by simp
qed simp


section \<open>Properties\<close>

text \<open>The delta that a call of \<^verbatim>\<open>apply_patch\<close> reports, in success and in failure.\<close>

definition reported_delta ::
  "('u, 'x) apply_patch_failure + 'u applied_patch_delta \<Rightarrow> 'u applied_patch_delta" where
  "reported_delta r = (case r of Inl f \<Rightarrow> failure_delta f | Inr d \<Rightarrow> d)"

lemma apply_hunks_delta:
  "reported_delta (fst (apply_hunks fs po show_uri wr cwd hs w out err)) =
     delta (snd (apply_hunks_to_files fs po cwd hs w))"
  "fst (snd (apply_hunks fs po show_uri wr cwd hs w out err)) =
     world (snd (apply_hunks_to_files fs po cwd hs w))"
  by (auto simp: apply_hunks_def reported_delta_def split: prod.splits option.splits)

text \<open>A patch over \<^const>\<open>memory_world\<close>, and a stream that collects its lines.\<close>

definition memory_patch :: rstring where
  "memory_patch = print_patch None
     [PAdd (lit ''new'') [lit ''x''],
      PUpdate (lit ''a'') (Some (lit ''c'')) [PChunk NoHeader [Removed (lit ''one''), Added (lit ''uno'')] False],
      PDelete (lit ''b'')]"

definition collect_line :: "rstring list line_writer" where
  "collect_line out l = (None, out @ [l])"

definition memory_apply ::
  "rstring \<Rightarrow> ((rstring, unit) apply_patch_failure + rstring applied_patch_delta) \<times>
     (rstring \<rightharpoonup> rstring) \<times> rstring list \<times> rstring list" where
  "memory_apply ptext = apply_patch memory_fs memory_paths (\<lambda>_. []) collect_line ptext (lit ''/r'') memory_world [] []"

text \<open>
  C8. The reported delta accounts for the file system: if it is marked exact, replaying its
  changes on the texts before gives the texts after, and undoing them in reverse order gives
  the texts before, also when the patch failed half-way.
\<close>

theorem reported_delta_exact:
  assumes "text_fs fs content"
    and "apply_patch fs po show_uri wr ptext cwd w out err = (r, w', out', err')"
    and "exact (reported_delta r)"
  shows "content w' = replay (changes (reported_delta r)) (content w) \<and>
    undo (changes (reported_delta r)) (content w') = content w"
proof (cases "parse_patch ptext")
  case (Inl e)
  with assms(2) show ?thesis
    by (auto simp: apply_patch_def reported_delta_def empty_delta_def replay_def undo_def
        split: prod.splits option.splits)
next
  case (Inr a)
  let ?st = "snd (apply_hunks_to_files fs po cwd (args_hunks a) w)"
  have r: "reported_delta r = delta ?st" "w' = world ?st"
    using assms(2) Inr apply_hunks_delta [of fs po show_uri wr cwd "args_hunks a" w out err]
    by (simp_all add: apply_patch_def)
  show ?thesis
    using apply_hunks_to_files_step [OF assms(1), of w po cwd "args_hunks a"] assms(3) r
    by (auto simp: delta_step_def initial_state_def empty_delta_def)
qed

theorem reported_delta_exact_witness:
  "exact (reported_delta (fst (memory_apply memory_patch))) \<and>
   undo (changes (reported_delta (fst (memory_apply memory_patch)))) (fst (snd (memory_apply memory_patch))) =
     memory_world"
proof -
  have "exact (reported_delta (fst (memory_apply memory_patch)))" by code_simp
  then show ?thesis
    using reported_delta_exact [OF memory_fs_text, of memory_paths "\<lambda>_. []" collect_line memory_patch
        "lit ''/r''" memory_world "[]" "[]" "fst (memory_apply memory_patch)"
        "fst (snd (memory_apply memory_patch))"]
    by (metis memory_apply_def prod.collapse)
qed

text \<open>
  A patch that does not parse changes nothing: the file system is untouched, the reported
  delta is empty and exact, and nothing is written to standard output.
\<close>

theorem unparsable_patch_changes_nothing:
  assumes "parse_patch ptext = Inl e"
    and "apply_patch fs po show_uri wr ptext cwd w out err = (r, w', out', err')"
  shows "w' = w \<and> out' = out \<and> reported_delta r = empty_delta \<and>
    (fst (wr err (parse_error_message e)) = None \<longrightarrow>
       r = Inl \<lparr>failure_error = ParseError e, failure_delta = empty_delta\<rparr>)"
  using assms
  by (auto simp: apply_patch_def reported_delta_def split: prod.splits option.splits)

theorem unparsable_patch_changes_nothing_witness:
  "fst (snd (memory_apply (lit ''bad''))) = memory_world \<and>
   reported_delta (fst (memory_apply (lit ''bad''))) = empty_delta"
proof -
  obtain e where "parse_patch (lit ''bad'') = Inl e"
  proof (cases "parse_patch (lit ''bad'')")
    case (Inr a)
    moreover have "\<not> parses (lit ''bad'')" by code_simp
    ultimately show ?thesis by (simp add: parses_def)
  qed
  then show ?thesis
    using unparsable_patch_changes_nothing [of "lit ''bad''" e memory_fs memory_paths "\<lambda>_. []" collect_line
        "lit ''/r''" memory_world "[]" "[]"]
    by (metis memory_apply_def prod.collapse)
qed

text \<open>
  On success the summary lists every hunk of the patch once, under its kind and in patch
  order, and nothing else.
\<close>

theorem summary_lists_every_hunk:
  assumes "parse_patch ptext = Inr a"
    and "apply_patch fs po show_uri wr ptext cwd w out err = (Inr d, w', out', err')"
  shows "(None, out') = write_lines wr out
    ([lit ''Success. Updated the following files:''] @
     map (\<lambda>p. lit ''A '' @ p) (added_paths (args_hunks a)) @
     map (\<lambda>p. lit ''M '' @ p) (modified_paths (args_hunks a)) @
     map (\<lambda>p. lit ''D '' @ p) (deleted_paths (args_hunks a))) \<and> err' = err"
proof -
  from assms obtain st where st: "apply_hunks_to_files fs po cwd (args_hunks a) w = (None, st)"
    "print_summary wr (affected st) out = (None, out')" "err' = err"
    by (auto simp: apply_patch_def apply_hunks_def split: prod.splits option.splits)
  then have "apply_hunk_loop fs po cwd (args_hunks a) (initial_state w) = (None, st)"
    by (auto simp: apply_hunks_to_files_def split: if_splits)
  from apply_hunk_loop_affected [OF this] st show ?thesis
    by (simp add: print_summary_def summary_lines_def initial_state_def)
qed

theorem summary_lists_every_hunk_witness:
  "\<exists>a. parse_patch memory_patch = Inr a \<and>
     (None, fst (snd (snd (memory_apply memory_patch)))) = write_lines collect_line []
       ([lit ''Success. Updated the following files:''] @
        map (\<lambda>p. lit ''A '' @ p) (added_paths (args_hunks a)) @
        map (\<lambda>p. lit ''M '' @ p) (modified_paths (args_hunks a)) @
        map (\<lambda>p. lit ''D '' @ p) (deleted_paths (args_hunks a)))"
proof -
  obtain r w' o' e' where m: "memory_apply memory_patch = (r, w', o', e')" by (metis prod.collapse)
  have "case fst (memory_apply memory_patch) of Inl _ \<Rightarrow> False | Inr _ \<Rightarrow> True" by code_simp
  then obtain d where r: "r = Inr d" using m by (cases r) auto
  have "parses memory_patch" by code_simp
  then obtain a where "parse_patch memory_patch = Inr a" by (auto simp: parses_def split: sum.splits)
  with summary_lists_every_hunk [OF this m [unfolded memory_apply_def r]] m show ?thesis by auto
qed

text \<open>
  C7. What a verified action shows for approval is what applying the patch does: if no two
  hunks touch the same path, every path a shown change touches ends up with the shown contents
  and every other path is left alone.
\<close>

theorem verified_action_is_what_is_applied:
  assumes "text_fs fs content"
    and "try_verify_apply_patch_args fs po diff w cwd args = Inr action"
    and "apply_hunks_to_files fs po (action_cwd action) (args_hunks args) w = (None, st)"
    and "distinct (concat (map (\<lambda>(p, pc). proposal_touches p pc)
           (proposals fs po diff w (action_cwd action) (args_hunks args))))"
  shows "(\<forall>p pc q. action_changes action p = Some pc \<and> q \<in> set (proposal_touches p pc) \<longrightarrow>
            content (world st) q = proposal_effect p pc Map.empty q) \<and>
    (\<forall>q. (\<forall>p pc. action_changes action p = Some pc \<longrightarrow> q \<notin> set (proposal_touches p pc)) \<longrightarrow>
            content (world st) q = content w q)"
proof -
  let ?cwd = "action_cwd action" and ?ps = "proposals fs po diff w (action_cwd action) (args_hunks args)"
  have pcs: "propose_changes fs po diff w ?cwd (args_hunks args) Map.empty = Inr (action_changes action)"
    using assms(2) by (auto simp: try_verify_apply_patch_args_def map_sum_eq_Inr_iff split: sum.splits option.splits)
  then have acts: "action_changes action = map_of (rev ?ps)"
    using propose_changes_proposals by fastforce
  have "apply_hunk_loop fs po ?cwd (args_hunks args) (initial_state w) = (None, st)"
    using assms(3) by (auto simp: apply_hunks_to_files_def split: if_splits)
  from apply_loop_effect [OF assms(1) pcs this assms(4)]
  have st: "content (world st) = fold (\<lambda>(p, pc). proposal_effect p pc) ?ps (content w)"
    by (simp add: initial_state_def)
  have "distinct (map fst (rev ?ps))"
    using distinct_proposal_paths [OF assms(4)] by (simp add: rev_map [symmetric])
  then have "action_changes action p = Some pc \<longleftrightarrow> (p, pc) \<in> set ?ps" for p pc
    by (simp add: acts map_of_eq_Some_iff)
  then show ?thesis
    unfolding st using fold_proposals_content [OF _ assms(4)] fold_proposals_untouched [of ?ps] by simp
qed

definition memory_args :: apply_patch_args where
  "memory_args = \<lparr>patch = [], args_hunks = memory_hunks, workdir = None, args_environment_id = None\<rparr>"

theorem verified_action_is_what_is_applied_witness:
  "world (snd (apply_hunks_to_files memory_fs memory_paths (lit ''/r'') memory_hunks memory_world))
     (lit ''/r/c'') = Some (lit ''uno'' @ [newline])"
proof -
  let ?action = "try_verify_apply_patch_args memory_fs memory_paths (\<lambda>a b n. []) memory_world (lit ''/r'') memory_args"
  let ?r = "apply_hunks_to_files memory_fs memory_paths (lit ''/r'') memory_hunks memory_world"
  have "case ?action of Inl _ \<Rightarrow> False | Inr a \<Rightarrow>
      action_cwd a = lit ''/r'' \<and>
      action_changes a (lit ''/r/a'') = Some (ProposeUpdate [] (Some (lit ''/r/c'')) (lit ''uno'' @ [newline]))"
    by code_simp
  then obtain a where a: "?action = Inr a" "action_cwd a = lit ''/r''"
    "action_changes a (lit ''/r/a'') = Some (ProposeUpdate [] (Some (lit ''/r/c'')) (lit ''uno'' @ [newline]))"
    by (auto split: sum.splits)
  have "fst ?r = None" by code_simp
  then have r: "apply_hunks_to_files memory_fs memory_paths (action_cwd a) (args_hunks memory_args) memory_world
      = (None, snd ?r)"
    by (simp add: a memory_args_def prod_eq_iff)
  have d: "distinct (concat (map (\<lambda>(p, pc). proposal_touches p pc)
      (proposals memory_fs memory_paths (\<lambda>a b n. []) memory_world (action_cwd a) (args_hunks memory_args))))"
    unfolding a(2) by code_simp
  have ne: "lit ''/r/c'' \<noteq> lit ''/r/a''" by code_simp
  have "world (snd ?r) (lit ''/r/c'') =
      proposal_effect (lit ''/r/a'') (ProposeUpdate [] (Some (lit ''/r/c'')) (lit ''uno'' @ [newline]))
        Map.empty (lit ''/r/c'')"
    by (rule verified_action_is_what_is_applied [OF memory_fs_text a(1) r d, THEN conjunct1, rule_format])
      (simp add: a(3))
  with ne show ?thesis by simp
qed

text \<open>
  A patch body passed without the \<^verbatim>\<open>apply_patch\<close> command, bare or as the script of a
  recognised shell, is always answered with the implicit-invocation error, and nothing is read
  from the file system to decide it.
\<close>

theorem implicit_invocation_rejected:
  assumes "parse_patch body = Inr a"
    and "argv = [body] \<or> (\<exists>shell. parse_shell_script argv conv = Some (shell, body))"
  shows "maybe_parse_apply_patch_verified fs po diff query w argv cwd conv = CorrectnessError ImplicitInvocation"
  using assms by (auto simp: maybe_parse_apply_patch_verified_def parses_def)

theorem implicit_invocation_rejected_witness:
  "maybe_parse_apply_patch_verified memory_fs memory_paths (\<lambda>a b n. []) (\<lambda>s. Inr []) memory_world
     [lit ''/bin/bash'', lit ''-lc'', memory_patch] (lit ''/r'') (Some Posix) = CorrectnessError ImplicitInvocation"
proof -
  have "parses memory_patch" by code_simp
  then obtain a where a: "parse_patch memory_patch = Inr a" by (auto simp: parses_def split: sum.splits)
  have "classify_shell (lit ''/bin/bash'') (lit ''-lc'') Posix = Some UnixShell" by code_simp
  then show ?thesis by (intro implicit_invocation_rejected [OF a]) simp
qed

end
