(* ===== verification/Absolute_Path.thy ===== *)
theory Absolute_Path
  imports Rust_Prelude
begin

text \<open>
  \<^verbatim>\<open>codex-rs/utils/absolute-path/src\<close>: lexical normalisation of paths (\<^verbatim>\<open>absolutize.rs\<close>) and the
  constructors of \<^verbatim>\<open>AbsolutePathBuf\<close> (\<^verbatim>\<open>lib.rs\<close>), in the Unix configuration.

  A path is the list of its components, which is what the standard library compares when it
  compares paths. The home directory, the current directory and the file system (symbolic
  links, canonicalisation) are parameters.
\<close>

section \<open>Paths of the standard library\<close>

datatype component = RootDir | CurDir | ParentDir | Normal rstring

type_synonym path = "component list"

text \<open>
  \<^verbatim>\<open>Path::components\<close>: a leading slash is the root, repeated slashes and inner \<^verbatim>\<open>.\<close> segments
  are dropped, a leading \<^verbatim>\<open>.\<close> of a relative path is kept.
\<close>

fun segment_component :: "rstring \<Rightarrow> component list" where
  "segment_component s =
     (if s = [] \<or> s = [46] then [] else if s = [46, 46] then [ParentDir] else [Normal s])"

definition path_components :: "rstring \<Rightarrow> path" where
  "path_components s =
     (let segments = split_on 47 s in
      (if starts_with [47] s then [RootDir] else if hd segments = [46] then [CurDir] else []) @
      concat (map segment_component segments))"

definition path_is_absolute :: "path \<Rightarrow> bool" where
  "path_is_absolute p \<longleftrightarrow> first_opt p = Some RootDir"

definition path_file_name :: "path \<Rightarrow> rstring option" where
  "path_file_name p = (case last_opt p of Some (Normal s) \<Rightarrow> Some s | _ \<Rightarrow> None)"

definition path_parent_dir :: "path \<Rightarrow> path option" where
  "path_parent_dir p =
     (case last_opt p of None \<Rightarrow> None | Some RootDir \<Rightarrow> None | Some _ \<Rightarrow> Some (butlast p))"

text \<open>\<^verbatim>\<open>PathBuf::push\<close> of one component, \<^verbatim>\<open>PathBuf::pop\<close> and \<^verbatim>\<open>Path::join\<close>.\<close>

definition path_push :: "path \<Rightarrow> component \<Rightarrow> path" where
  "path_push p c = (if c = RootDir then [RootDir] else p @ [c])"

definition path_pop :: "path \<Rightarrow> path" where
  "path_pop p = (case path_parent_dir p of Some q \<Rightarrow> q | None \<Rightarrow> p)"

definition path_join_std :: "path \<Rightarrow> path \<Rightarrow> path" where
  "path_join_std base p =
     (if path_is_absolute p then p
      else if base = [] then p
      else base @ filter (\<lambda>c. c \<noteq> CurDir) p)"

text \<open>\<^verbatim>\<open>Path::ancestors\<close>: the path itself, then its parents; at most one step per component.\<close>

fun ancestors_from :: "nat \<Rightarrow> path \<Rightarrow> path list" where
  "ancestors_from 0 p = [p]"
| "ancestors_from (Suc n) p =
     p # (case path_parent_dir p of None \<Rightarrow> [] | Some q \<Rightarrow> ancestors_from n q)"

definition path_ancestors :: "path \<Rightarrow> path list" where
  "path_ancestors p = ancestors_from (length p) p"

text \<open>The text of a path.\<close>

fun component_name :: "component \<Rightarrow> rstring" where
  "component_name RootDir = [47]"
| "component_name CurDir = [46]"
| "component_name ParentDir = [46, 46]"
| "component_name (Normal s) = s"

definition path_string :: "path \<Rightarrow> rstring" where
  "path_string p =
     (case p of
        RootDir # cs \<Rightarrow> 47 # join [47] (map component_name cs)
      | cs \<Rightarrow> join [47] (map component_name cs))"


section \<open>absolutize.rs\<close>

definition normalize_step :: "path \<Rightarrow> component \<Rightarrow> path" where
  "normalize_step normalized component =
     (case component of
        CurDir \<Rightarrow> normalized
      | ParentDir \<Rightarrow> path_pop normalized
      | _ \<Rightarrow> path_push normalized component)"

definition normalize_path :: "path \<Rightarrow> path" where
  "normalize_path p =
     (let normalized = foldl normalize_step [] p in
      if normalized = [] then [CurDir] else normalized)"

definition path_with_base :: "path \<Rightarrow> path \<Rightarrow> path" where
  "path_with_base p base_path = (if path_is_absolute p then p else path_join_std base_path p)"

definition absolutize_from :: "path \<Rightarrow> path \<Rightarrow> path" where
  "absolutize_from p base_path = normalize_path (path_with_base p base_path)"

text \<open>The environment: \<^verbatim>\<open>dirs::home_dir\<close> and \<^verbatim>\<open>std::env::current_dir\<close>, \<open>'e\<close> being its error.\<close>

record 'e path_env =
  home_dir :: "path option"
  current_dir :: "'e + path"

definition absolutize :: "'e path_env \<Rightarrow> path \<Rightarrow> 'e + path" where
  "absolutize env p =
     (if path_is_absolute p then Inr (normalize_path p)
      else map_sum id (absolutize_from p) (current_dir env))"


section \<open>AbsolutePathBuf\<close>

definition trim_start_matches :: "rchar \<Rightarrow> rstring \<Rightarrow> rstring" where
  "trim_start_matches c s = dropWhile (\<lambda>x. x = c) s"

definition maybe_expand_home_directory :: "path option \<Rightarrow> rstring \<Rightarrow> path" where
  "maybe_expand_home_directory home path_str =
     (case (home, strip_prefix [126] path_str) of
        (Some h, Some rest) \<Rightarrow>
          if rest = [] then h
          else (case strip_prefix [47] rest of
                  Some rest' \<Rightarrow> path_join_std h (path_components (trim_start_matches 47 rest'))
                | None \<Rightarrow> path_components path_str)
      | _ \<Rightarrow> path_components path_str)"

definition resolve_path_against_base :: "path option \<Rightarrow> rstring \<Rightarrow> path \<Rightarrow> path" where
  "resolve_path_against_base home p base_path =
     absolutize_from (maybe_expand_home_directory home p) base_path"

definition from_absolute_path :: "'e path_env \<Rightarrow> rstring \<Rightarrow> 'e + path" where
  "from_absolute_path env p = absolutize env (maybe_expand_home_directory (home_dir env) p)"

definition from_absolute_path_checked :: "path option \<Rightarrow> rstring \<Rightarrow> rstring + path" where
  "from_absolute_path_checked home p =
     (let expanded = maybe_expand_home_directory home p in
      if \<not> path_is_absolute expanded then Inl (lit ''path is not absolute: '' @ p)
      else Inr (absolutize_from expanded [RootDir]))"

definition abs_join :: "path option \<Rightarrow> path \<Rightarrow> rstring \<Rightarrow> path" where
  "abs_join home self p = resolve_path_against_base home p self"

definition abs_parent :: "path \<Rightarrow> path option" where
  "abs_parent self = path_parent_dir self"

definition abs_current_dir :: "'e path_env \<Rightarrow> 'e + path" where
  "abs_current_dir env =
     (case current_dir env of Inl e \<Rightarrow> Inl e | Inr cwd \<Rightarrow> from_absolute_path env (path_string cwd))"

definition relative_to_current_dir :: "'e path_env \<Rightarrow> rstring \<Rightarrow> 'e + path" where
  "relative_to_current_dir env p =
     (case current_dir env of Inl e \<Rightarrow> Inl e | Inr cwd \<Rightarrow> Inr (resolve_path_against_base (home_dir env) p cwd))"

definition abs_canonicalize :: "(rstring \<Rightarrow> 'e + path) \<Rightarrow> path \<Rightarrow> 'e + path" where
  "abs_canonicalize canon self = canon (path_string self)"

text \<open>
  Deserialisation of the text of a path: \<open>guard\<close> is the base path that a live \<^verbatim>\<open>AbsolutePathBufGuard\<close> has put into
  the thread-local \<^verbatim>\<open>ABSOLUTE_PATH_BASE\<close>.
\<close>

definition abs_deserialize :: "'e path_env \<Rightarrow> path option \<Rightarrow> rstring \<Rightarrow> ('e + rstring) + path" where
  "abs_deserialize env guard p =
     (case guard of
        Some base \<Rightarrow> Inr (resolve_path_against_base (home_dir env) p base)
      | None \<Rightarrow>
          if path_is_absolute (path_components p) then map_sum Inl id (from_absolute_path env p)
          else Inl (Inr (lit ''AbsolutePathBuf deserialized without a base path'')))"

text \<open>Windows device namespaces, on any host.\<close>

definition is_windows_drive_absolute_path :: "rstring \<Rightarrow> bool" where
  "is_windows_drive_absolute_path p =
     (case p of
        a # b # c # _ \<Rightarrow> (65 \<le> a \<and> a \<le> 90 \<or> 97 \<le> a \<and> a \<le> 122) \<and> b = 58 \<and> (c = 92 \<or> c = 47)
      | _ \<Rightarrow> False)"

definition device_prefix :: "rchar \<Rightarrow> rstring" where
  "device_prefix c = [92, 92, c, 92]"

definition normalize_windows_device_path :: "rstring \<Rightarrow> rstring option" where
  "normalize_windows_device_path p =
     (let unc = lit ''UNC'' @ [92] in
      case strip_prefix (device_prefix 63 @ unc) p of
        Some u \<Rightarrow> Some ([92, 92] @ u)
      | None \<Rightarrow>
          (case strip_prefix (device_prefix 46 @ unc) p of
             Some u \<Rightarrow> Some ([92, 92] @ u)
           | None \<Rightarrow>
               (case strip_prefix (device_prefix 63) p of
                  Some q \<Rightarrow>
                    if is_windows_drive_absolute_path q then Some q
                    else (case strip_prefix (device_prefix 46) p of
                            Some q \<Rightarrow> if is_windows_drive_absolute_path q then Some q else None
                          | None \<Rightarrow> None)
                | None \<Rightarrow>
                    (case strip_prefix (device_prefix 46) p of
                       Some q \<Rightarrow> if is_windows_drive_absolute_path q then Some q else None
                     | None \<Rightarrow> None))))"

text \<open>
  Canonicalisation that keeps nested symbolic links: \<open>symlink\<close> is \<^verbatim>\<open>symlink_metadata\<close> reduced to
  whether the path is a link (\<open>None\<close> on error), \<open>canon\<close> is \<^verbatim>\<open>dunce::canonicalize\<close>.
\<close>

definition should_preserve_logical_path :: "(path \<Rightarrow> bool option) \<Rightarrow> path \<Rightarrow> bool" where
  "should_preserve_logical_path symlink logical =
     list_ex (\<lambda>a. symlink a = Some True \<and> Option.bind (path_parent_dir a) path_parent_dir \<noteq> None)
       (path_ancestors logical)"

definition canonicalize_preserving_symlinks ::
  "'e path_env \<Rightarrow> (path \<Rightarrow> bool option) \<Rightarrow> (rstring \<Rightarrow> 'e + path) \<Rightarrow> rstring \<Rightarrow> 'e + path" where
  "canonicalize_preserving_symlinks env symlink canon p =
     (case from_absolute_path env p of
        Inl e \<Rightarrow> Inl e
      | Inr logical \<Rightarrow>
          (case canon p of
             Inr canonical \<Rightarrow>
               if should_preserve_logical_path symlink logical \<and> canonical \<noteq> logical
               then Inr logical else Inr canonical
           | Inl _ \<Rightarrow> Inr logical))"

definition canonicalize_existing_preserving_symlinks ::
  "'e path_env \<Rightarrow> (path \<Rightarrow> bool option) \<Rightarrow> (rstring \<Rightarrow> 'e + path) \<Rightarrow> rstring \<Rightarrow> 'e + path" where
  "canonicalize_existing_preserving_symlinks env symlink canon p =
     (case from_absolute_path env p of
        Inl e \<Rightarrow> Inl e
      | Inr logical \<Rightarrow>
          (case canon p of
             Inr canonical \<Rightarrow>
               if should_preserve_logical_path symlink logical \<and> canonical \<noteq> logical
               then Inr logical else Inr canonical
           | Inl e \<Rightarrow> Inl e))"


section \<open>Absolute and normal paths\<close>

text \<open>What \<^verbatim>\<open>AbsolutePathBuf\<close> promises: the root, then names only.\<close>

fun is_normal :: "component \<Rightarrow> bool" where
  "is_normal (Normal s) = True"
| "is_normal c = False"

definition absolute_normal :: "path \<Rightarrow> bool" where
  "absolute_normal p = (case p of RootDir # cs \<Rightarrow> list_all is_normal cs | _ \<Rightarrow> False)"

lemma absolute_normal_iff:
  "absolute_normal p \<longleftrightarrow> (\<exists>cs. p = RootDir # cs \<and> list_all is_normal cs)"
  by (auto simp: absolute_normal_def split: list.splits component.splits)

lemma path_is_absolute_iff: "path_is_absolute p \<longleftrightarrow> (\<exists>cs. p = RootDir # cs)"
  by (auto simp: path_is_absolute_def first_opt_def split: list.splits)

lemma absolute_normal_absolute [intro]: "absolute_normal p \<Longrightarrow> path_is_absolute p"
  by (auto simp: absolute_normal_iff path_is_absolute_iff)

text \<open>On an absolute prefix the loop keeps the root: a parent of the root is the root.\<close>

lemma path_pop_root:
  "list_all is_normal cs \<Longrightarrow> path_pop (RootDir # cs) = RootDir # butlast cs"
  by (cases cs rule: rev_cases)
    (auto simp: path_pop_def path_parent_dir_def last_opt_def butlast_append split: component.splits)

lemma list_all_butlast: "list_all P xs \<Longrightarrow> list_all P (butlast xs)"
  by (auto simp: list_all_iff dest: in_set_butlastD)

lemma normalize_step_absolute:
  "absolute_normal p \<Longrightarrow> absolute_normal (normalize_step p c)"
  by (cases c)
    (auto simp: normalize_step_def absolute_normal_iff path_pop_root path_push_def list_all_butlast)

lemma foldl_normalize_absolute:
  "absolute_normal p \<Longrightarrow> absolute_normal (foldl normalize_step p cs)"
  by (induction cs arbitrary: p) (simp_all add: normalize_step_absolute)

lemma normalize_path_absolute:
  assumes "path_is_absolute p"
  shows "absolute_normal (normalize_path p)"
proof -
  obtain cs where p: "p = RootDir # cs" using assms by (auto simp: path_is_absolute_iff)
  have "absolute_normal (foldl normalize_step [RootDir] cs)"
    by (rule foldl_normalize_absolute) (simp add: absolute_normal_iff)
  then show ?thesis
    by (auto simp: normalize_path_def Let_def p normalize_step_def path_push_def absolute_normal_iff)
qed

lemma foldl_normalize_normal:
  "list_all is_normal cs \<Longrightarrow> foldl normalize_step p cs = p @ cs"
proof (induction cs arbitrary: p)
  case (Cons c cs)
  then show ?case by (cases c) (simp_all add: normalize_step_def path_push_def)
qed simp

lemma normalize_path_id: "absolute_normal p \<Longrightarrow> normalize_path p = p"
  by (auto simp: absolute_normal_iff normalize_path_def Let_def normalize_step_def path_push_def
      foldl_normalize_normal)

lemma path_with_base_absolute:
  "path_is_absolute base \<Longrightarrow> path_is_absolute (path_with_base p base)"
  by (auto simp: path_with_base_def path_join_std_def path_is_absolute_iff)

lemma absolutize_from_absolute_normal:
  "path_is_absolute base \<Longrightarrow> absolute_normal (absolutize_from p base)"
  by (simp add: absolutize_from_def normalize_path_absolute path_with_base_absolute)

lemma path_parent_absolute_normal:
  "absolute_normal p \<Longrightarrow> path_parent_dir p = Some q \<Longrightarrow> absolute_normal q"
  by (cases p rule: rev_cases)
    (auto simp: absolute_normal_iff path_parent_dir_def last_opt_def Cons_eq_append_conv
      list_all_butlast split: component.splits)

text \<open>Resolution is a fold, so it composes; \<^verbatim>\<open>.\<close> components do not count.\<close>

lemma foldl_normalize_filter:
  "foldl normalize_step p (filter (\<lambda>c. c \<noteq> CurDir) cs) = foldl normalize_step p cs"
  by (induction cs arbitrary: p) (auto simp: normalize_step_def)

lemma normalize_path_append:
  assumes "path_is_absolute p"
  shows "normalize_path (normalize_path p @ cs) = normalize_path (p @ cs)"
proof -
  have nonempty: "absolute_normal r \<Longrightarrow> r \<noteq> []" for r by (auto simp: absolute_normal_iff)
  obtain qs where p: "p = RootDir # qs" using assms by (auto simp: path_is_absolute_iff)
  have root: "absolute_normal [RootDir]" by (simp add: absolute_normal_iff)
  have np: "normalize_path (p @ ds) = foldl normalize_step [RootDir] (qs @ ds)" for ds
    using nonempty [OF foldl_normalize_absolute [OF root, of "qs @ ds"]]
    by (simp add: p normalize_path_def normalize_step_def path_push_def)
  let ?n = "foldl normalize_step [RootDir] qs"
  have n: "absolute_normal ?n" by (rule foldl_normalize_absolute [OF root])
  have "foldl normalize_step [] (?n @ cs) = foldl normalize_step ?n cs"
    using n by (auto simp: absolute_normal_iff normalize_step_def path_push_def foldl_normalize_normal)
  moreover have "foldl normalize_step ?n cs \<noteq> []"
    by (rule nonempty) (rule foldl_normalize_absolute [OF n])
  ultimately show ?thesis using np [of "[]"] np [of cs] by (simp add: normalize_path_def)
qed

lemma normalize_path_snoc:
  assumes "path_is_absolute p"
  shows "normalize_path (p @ [Normal s]) = normalize_path p @ [Normal s]"
proof -
  have "normalize_path (p @ [Normal s]) = normalize_path (normalize_path p @ [Normal s])"
    using normalize_path_append [OF assms] by simp
  moreover have "absolute_normal (normalize_path p @ [Normal s])"
    using normalize_path_absolute [OF assms] by (auto simp: absolute_normal_iff)
  ultimately show ?thesis by (simp add: normalize_path_id)
qed


section \<open>Properties\<close>

lemma resolve_against_base_absolute_normal:
  "path_is_absolute base \<Longrightarrow> absolute_normal (resolve_path_against_base home p base)"
  by (simp add: resolve_path_against_base_def absolutize_from_absolute_normal)

lemma from_absolute_path_absolute_normal:
  assumes "\<And>cwd. current_dir env = Inr cwd \<Longrightarrow> path_is_absolute cwd" and "from_absolute_path env p = Inr q"
  shows "absolute_normal q"
  using assms by (auto simp: from_absolute_path_def absolutize_def map_sum_eq_Inr_iff
      intro: normalize_path_absolute absolutize_from_absolute_normal split: if_splits)

lemma from_absolute_path_checked_absolute_normal:
  "from_absolute_path_checked home p = Inr q \<Longrightarrow> absolute_normal q"
  using absolutize_from_absolute_normal [of "[RootDir]"]
  by (auto simp: from_absolute_path_checked_def Let_def path_is_absolute_iff [of "[RootDir]"] split: if_splits)

lemma ancestors_from_absolute_normal: "absolute_normal p \<Longrightarrow> list_all absolute_normal (ancestors_from n p)"
  by (induction n p rule: ancestors_from.induct) (auto intro: path_parent_absolute_normal split: option.splits)


definition sample_path_env :: "unit path_env" where
  "sample_path_env = \<lparr>home_dir = Some [RootDir, Normal (lit ''h'')], current_dir = Inr [RootDir, Normal (lit ''w'')]\<rparr>"


text \<open>
  A relative base gives a relative \<^verbatim>\<open>AbsolutePathBuf\<close>, also when it is the base of deserialisation.
\<close>

lemma relative_base_gives_relative_path:
  "abs_deserialize sample_path_env (Some [Normal (lit ''b'')]) (lit ''a'') = Inr [Normal (lit ''b''), Normal (lit ''a'')]"
  by code_simp

text \<open>
  Resolution composes: resolving a relative path against a base that was itself resolved
  is resolving the two joined paths at once, so it does not matter where \<^verbatim>\<open>..\<close> is removed.
\<close>

theorem absolutize_from_compose:
  assumes "path_is_absolute base" and "\<not> path_is_absolute q"
  shows "absolutize_from q (absolutize_from p base) = absolutize_from (path_join_std p q) base"
proof -
  have pb: "path_is_absolute (path_with_base p base)" by (rule path_with_base_absolute [OF assms(1)])
  then have n: "normalize_path (path_with_base p base) \<noteq> []"
    using normalize_path_absolute by (fastforce simp: absolute_normal_iff)
  have cur: "normalize_path (r @ filter (\<lambda>c. c \<noteq> CurDir) q) = normalize_path (r @ q)" for r
    by (simp add: normalize_path_def foldl_normalize_filter)
  have "absolutize_from q (absolutize_from p base) = normalize_path (path_with_base p base @ q)"
    using assms(2) n by (simp add: absolutize_from_def [of q] absolutize_from_def [of p]
        path_with_base_def [of q] path_join_std_def [of _ q] cur normalize_path_append [OF pb])
  also have "\<dots> = normalize_path (path_with_base (path_join_std p q) base)"
  proof (cases "path_is_absolute p")
    case True
    then have "p \<noteq> []" and "path_is_absolute (p @ filter (\<lambda>c. c \<noteq> CurDir) q)"
      by (auto simp: path_is_absolute_iff)
    with True assms(2) show ?thesis
      by (simp add: path_with_base_def path_join_std_def cur)
  next
    case False
    from assms(1) have "base \<noteq> []" by (auto simp: path_is_absolute_iff)
    have "\<not> path_is_absolute (path_join_std p q)"
      using False assms(2) by (auto simp: path_join_std_def path_is_absolute_iff append_eq_Cons_conv)
    with False \<open>base \<noteq> []\<close> assms(2) show ?thesis
      by (auto simp: path_with_base_def path_join_std_def normalize_path_def
          foldl_normalize_filter foldl_append)
  qed
  finally show ?thesis by (simp add: absolutize_from_def)
qed

theorem absolutize_from_compose_witness:
  "absolutize_from [ParentDir, Normal (lit ''c'')] (absolutize_from [Normal (lit ''b'')] [RootDir, Normal (lit ''a'')]) =
   absolutize_from [Normal (lit ''b''), ParentDir, Normal (lit ''c'')] [RootDir, Normal (lit ''a'')]"
  using absolutize_from_compose [of "[RootDir, Normal (lit ''a'')]" "[ParentDir, Normal (lit ''c'')]" "[Normal (lit ''b'')]"]
  by (simp add: path_is_absolute_iff path_join_std_def)

end
