(* ===== verification/Exec_Rules.thy ===== *)
theory Exec_Rules
  imports Absolute_Path "HOL-Library.List_Lexorder"
begin

text \<open>
  \<^verbatim>\<open>codex-rs/execpolicy/src\<close>: decisions (\<^verbatim>\<open>decision.rs\<close>), executable names
  (\<^verbatim>\<open>executable_name.rs\<close>, not Windows), patterns, rules and network hosts (\<^verbatim>\<open>rule.rs\<close>), and the
  errors of the crate (\<^verbatim>\<open>error.rs\<close>).

  Where an error carries text rendered for a reader (the \<^verbatim>\<open>Debug\<close> form of a rule, a command
  quoted by \<^verbatim>\<open>shlex\<close>), the model keeps the rule or the command itself.
\<close>

section \<open>Decisions\<close>

datatype decision = Allow | Prompt | Forbidden

text \<open>The derived order: a later constructor is more restrictive.\<close>

fun severity :: "decision \<Rightarrow> nat" where
  "severity Allow = 0"
| "severity Prompt = 1"
| "severity Forbidden = 2"

lemma severity_inject [simp]: "severity a = severity b \<longleftrightarrow> a = b"
  by (cases a; cases b) simp_all

instantiation decision :: linorder
begin

definition less_eq_decision :: "decision \<Rightarrow> decision \<Rightarrow> bool" where
  "a \<le> b \<longleftrightarrow> severity a \<le> severity b"

definition less_decision :: "decision \<Rightarrow> decision \<Rightarrow> bool" where
  "a < b \<longleftrightarrow> severity a < severity b"

instance
  by standard (auto simp: less_eq_decision_def less_decision_def)

end

lemma Allow_least [simp]: "Allow \<le> d"
  by (simp add: less_eq_decision_def)

lemma Forbidden_greatest [simp]: "d \<le> Forbidden"
  by (cases d) (simp_all add: less_eq_decision_def)

lemma Forbidden_le_iff [simp]: "Forbidden \<le> d \<longleftrightarrow> d = Forbidden"
  by (cases d) (simp_all add: less_eq_decision_def)

lemma le_Allow_iff [simp]: "d \<le> Allow \<longleftrightarrow> d = Allow"
  by (cases d) (simp_all add: less_eq_decision_def)


section \<open>Patterns and rules\<close>

datatype pattern_token = Single rstring | Alts "rstring list"

fun token_matches :: "pattern_token \<Rightarrow> rstring \<Rightarrow> bool" where
  "token_matches (Single expected) token = (expected = token)"
| "token_matches (Alts alts) token = list_ex (\<lambda>alt. alt = token) alts"

fun alternatives :: "pattern_token \<Rightarrow> rstring list" where
  "alternatives (Single expected) = [expected]"
| "alternatives (Alts alts) = alts"

record prefix_pattern =
  pat_first :: rstring
  pat_rest :: "pattern_token list"

definition matches_prefix :: "prefix_pattern \<Rightarrow> rstring list \<Rightarrow> rstring list option" where
  "matches_prefix p cmd =
     (let pattern_length = length (pat_rest p) + 1 in
      if length cmd < pattern_length \<or> cmd ! 0 \<noteq> pat_first p then None
      else if \<not> list_all (\<lambda>(t, c). token_matches t c)
          (zip (pat_rest p) (drop 1 (take pattern_length cmd))) then None
      else Some (take pattern_length cmd))"

datatype rule_match =
    PrefixRuleMatch "rstring list" decision "path option" "rstring option"
  | HeuristicsRuleMatch "rstring list" decision

fun match_decision :: "rule_match \<Rightarrow> decision" where
  "match_decision (PrefixRuleMatch matched_prefix d resolved j) = d"
| "match_decision (HeuristicsRuleMatch command d) = d"

fun with_resolved_program :: "path \<Rightarrow> rule_match \<Rightarrow> rule_match" where
  "with_resolved_program program (PrefixRuleMatch matched_prefix d resolved j) =
     PrefixRuleMatch matched_prefix d (Some program) j"
| "with_resolved_program program other = other"

record prefix_rule =
  rule_pattern :: prefix_pattern
  rule_decision :: decision
  rule_justification :: "rstring option"

definition rule_program :: "prefix_rule \<Rightarrow> rstring" where
  "rule_program r = pat_first (rule_pattern r)"

definition rule_matches :: "prefix_rule \<Rightarrow> rstring list \<Rightarrow> rule_match option" where
  "rule_matches r cmd =
     map_option (\<lambda>matched_prefix.
         PrefixRuleMatch matched_prefix (rule_decision r) None (rule_justification r))
       (matches_prefix (rule_pattern r) cmd)"


section \<open>Errors\<close>

text \<open>\<open>'s\<close> are the errors of the Starlark evaluator, \<open>'l\<close> source locations.\<close>

datatype ('s, 'l) exec_error =
    InvalidDecision rstring
  | InvalidPattern rstring
  | InvalidExample rstring
  | InvalidRule rstring
  | ExampleDidNotMatch "prefix_rule list" "rstring list list" "'l option"
  | ExampleDidMatch rule_match "rstring list" "'l option"
  | Starlark 's

fun with_location :: "('s, 'l) exec_error \<Rightarrow> 'l \<Rightarrow> ('s, 'l) exec_error" where
  "with_location (ExampleDidNotMatch rules examples None) loc = ExampleDidNotMatch rules examples (Some loc)"
| "with_location (ExampleDidMatch rule example None) loc = ExampleDidMatch rule example (Some loc)"
| "with_location other loc = other"

definition decision_parse :: "rstring \<Rightarrow> ('s, 'l) exec_error + decision" where
  "decision_parse raw =
     (if raw = lit ''allow'' then Inr Allow
      else if raw = lit ''prompt'' then Inr Prompt
      else if raw = lit ''forbidden'' then Inr Forbidden
      else Inl (InvalidDecision raw))"

definition executable_lookup_key :: "rstring \<Rightarrow> rstring" where
  "executable_lookup_key raw = raw"

definition executable_path_lookup_key :: "path \<Rightarrow> rstring option" where
  "executable_path_lookup_key p = map_option executable_lookup_key (path_file_name p)"


section \<open>Network rules\<close>

datatype network_rule_protocol = Http | Https | Socks5Tcp | Socks5Udp

definition protocol_parse :: "rstring \<Rightarrow> ('s, 'l) exec_error + network_rule_protocol" where
  "protocol_parse raw =
     (if raw = lit ''http'' then Inr Http
      else if raw \<in> {lit ''https'', lit ''https_connect'', lit ''http-connect''} then Inr Https
      else if raw = lit ''socks5_tcp'' then Inr Socks5Tcp
      else if raw = lit ''socks5_udp'' then Inr Socks5Udp
      else Inl (InvalidRule (lit ''network_rule protocol must be one of http, https, socks5_tcp, socks5_udp (got '' @
        raw @ lit '')'')))"

fun as_policy_string :: "network_rule_protocol \<Rightarrow> rstring" where
  "as_policy_string Http = lit ''http''"
| "as_policy_string Https = lit ''https''"
| "as_policy_string Socks5Tcp = lit ''socks5_tcp''"
| "as_policy_string Socks5Udp = lit ''socks5_udp''"

record network_rule =
  net_host :: rstring
  net_protocol :: network_rule_protocol
  net_decision :: decision
  net_justification :: "rstring option"

definition all_digits :: "rstring \<Rightarrow> bool" where
  "all_digits port \<longleftrightarrow> port \<noteq> [] \<and> list_all is_ascii_digit port"

text \<open>The host without brackets and port; \<open>raw\<close> is only quoted in an error.\<close>

definition strip_host_port :: "rstring \<Rightarrow> rstring \<Rightarrow> ('s, 'l) exec_error + rstring" where
  "strip_host_port raw host =
     (case strip_prefix [91] host of
        Some stripped \<Rightarrow>
          (case split_once 93 stripped of
             None \<Rightarrow> Inl (InvalidRule (lit ''network_rule host has an invalid bracketed IPv6 literal''))
           | Some (inside, rest) \<Rightarrow>
               (let port_ok = (case strip_prefix [58] rest of Some port \<Rightarrow> all_digits port | None \<Rightarrow> False) in
                if rest \<noteq> [] \<and> \<not> port_ok
                then Inl (InvalidRule (lit ''network_rule host contains an unsupported suffix: '' @ raw))
                else Inr inside))
      | None \<Rightarrow>
          if length (filter (\<lambda>c. c = 58) host) = 1 then
            (case rsplit_once 58 host of
               Some (candidate, port) \<Rightarrow> if candidate \<noteq> [] \<and> all_digits port then Inr candidate else Inr host
             | None \<Rightarrow> Inr host)
          else Inr host)"

definition finish_host :: "rstring \<Rightarrow> ('s, 'l) exec_error + rstring" where
  "finish_host host =
     (let normalized = to_ascii_lowercase (trim (trim_end_matches 46 host)) in
      if normalized = [] then Inl (InvalidRule (lit ''network_rule host cannot be empty''))
      else if 42 \<in> set normalized
        then Inl (InvalidRule (lit ''network_rule host must be a specific host; wildcards are not allowed''))
      else if list_ex is_whitespace normalized
        then Inl (InvalidRule (lit ''network_rule host cannot contain whitespace''))
      else Inr normalized)"

definition normalize_network_rule_host :: "rstring \<Rightarrow> ('s, 'l) exec_error + rstring" where
  "normalize_network_rule_host raw =
     (let host = trim raw in
      if host = [] then Inl (InvalidRule (lit ''network_rule host cannot be empty''))
      else if contains_str (lit ''://'') host \<or> 47 \<in> set host \<or> 63 \<in> set host \<or> 35 \<in> set host
        then Inl (InvalidRule (lit ''network_rule host must be a hostname or IP literal (without scheme or path)''))
      else (case strip_host_port raw host of Inl e \<Rightarrow> Inl e | Inr h \<Rightarrow> finish_host h))"

section \<open>What a prefix rule matches\<close>

lemma zip_list_all2:
  "length xs = length ys \<Longrightarrow> list_all (\<lambda>(x, y). P x y) (zip xs ys) = list_all2 P xs ys"
  by (simp add: list_all2_iff list_all_iff)

lemma matches_prefix_Some_iff:
  "matches_prefix p cmd = Some m \<longleftrightarrow>
     (\<exists>args rest. cmd = pat_first p # args @ rest \<and> list_all2 token_matches (pat_rest p) args \<and>
        m = pat_first p # args)" (is "_ \<longleftrightarrow> ?spec")
proof
  assume m: "matches_prefix p cmd = Some m"
  let ?n = "length (pat_rest p)"
  from m have len: "Suc ?n \<le> length cmd" and "cmd ! 0 = pat_first p" and "m = take (Suc ?n) cmd"
    and toks: "list_all (\<lambda>(t, c). token_matches t c) (zip (pat_rest p) (drop 1 (take (Suc ?n) cmd)))"
    by (auto simp: matches_prefix_def Let_def split: if_splits)
  moreover from len obtain c cs where cmd: "cmd = c # cs" by (cases cmd) auto
  moreover have "list_all2 token_matches (pat_rest p) (take ?n cs)"
    using toks len cmd by (simp add: zip_list_all2)
  ultimately show ?spec
    by (intro exI [of _ "take ?n cs"] exI [of _ "drop ?n cs"]) auto
next
  assume ?spec
  then obtain args rest where cmd: "cmd = pat_first p # args @ rest" "m = pat_first p # args"
    and l2: "list_all2 token_matches (pat_rest p) args" by blast
  then have "length args = length (pat_rest p)" by (auto dest: list_all2_lengthD)
  with cmd l2 show "matches_prefix p cmd = Some m"
    by (simp add: matches_prefix_def Let_def zip_list_all2)
qed

text \<open>
  The interface of the trait \<^verbatim>\<open>Rule\<close>: a rule names a program and only matches commands that
  start with it. That is what makes an index by program complete.
\<close>

locale command_rule =
  fixes program :: "'r \<Rightarrow> rstring"
    and matches :: "'r \<Rightarrow> rstring list \<Rightarrow> 'm option"
  assumes matches_program: "matches r cmd = Some m \<Longrightarrow> \<exists>args. cmd = program r # args"
begin

lemma other_program_no_match: "program r \<noteq> c \<Longrightarrow> matches r (c # args) = None"
  using matches_program [of r "c # args"] by (cases "matches r (c # args)") auto

lemma bucket_no_match:
  "list_all (\<lambda>r. program r = k) rs \<Longrightarrow> k \<noteq> c \<Longrightarrow>
     List.map_filter (\<lambda>r. matches r (c # args)) rs = []"
  by (induction rs) (auto simp: map_filter_simps other_program_no_match)

lemma indexed_lookup_complete:
  assumes "distinct (map fst bs)" and "list_all (\<lambda>(k, rs). list_all (\<lambda>r. program r = k) rs) bs"
  shows "List.map_filter (\<lambda>r. matches r (c # args)) (case map_of bs c of Some rs \<Rightarrow> rs | None \<Rightarrow> []) =
    List.map_filter (\<lambda>r. matches r (c # args)) (concat (map snd bs))"
  using assms
proof (induction bs)
  case (Cons b bs)
  obtain k rs where b: "b = (k, rs)" by (cases b)
  have app: "List.map_filter f (xs @ ys) = List.map_filter f xs @ List.map_filter f ys"
    for f :: "'r \<Rightarrow> 'm option" and xs ys by (simp add: List.map_filter_def)
  have none: "List.map_filter (\<lambda>r. matches r (c # args)) (concat (map snd bs)) = []" if "k = c"
  proof -
    have "map_of bs c = None" using Cons.prems(1) b that by (auto simp: map_of_eq_None_iff)
    with Cons show ?thesis by (simp add: map_filter_simps)
  qed
  show ?case
  proof (cases "k = c")
    case True
    with b none show ?thesis by (simp add: app)
  next
    case False
    with Cons b bucket_no_match [of k rs c args] show ?thesis by (simp add: app)
  qed
qed (simp add: map_filter_simps)

end

interpretation prefix_rules: command_rule rule_program rule_matches
proof
  fix r cmd m
  assume "rule_matches r cmd = Some m"
  then obtain pre where "matches_prefix (rule_pattern r) cmd = Some pre" by (auto simp: rule_matches_def)
  then show "\<exists>args. cmd = rule_program r # args"
    by (auto simp: matches_prefix_Some_iff rule_program_def)
qed

lemma rule_matches_decision: "rule_matches r cmd = Some m \<Longrightarrow> match_decision m = rule_decision r"
  by (auto simp: rule_matches_def)


section \<open>Normalised hosts\<close>

lemma finish_host_Inr:
  assumes "finish_host h = Inr n"
  shows "n \<noteq> []" and "42 \<notin> set n" and "list_all (\<lambda>c. \<not> is_whitespace c) n"
    and "to_ascii_lowercase n = n" and "set n \<subseteq> set (to_ascii_lowercase h)"
proof -
  have n: "n = to_ascii_lowercase (trim (trim_end_matches 46 h))" and "n \<noteq> []" "42 \<notin> set n"
    "\<not> list_ex is_whitespace n"
    using assms by (auto simp: finish_host_def Let_def split: if_splits)
  then show "n \<noteq> []" "42 \<notin> set n" "list_all (\<lambda>c. \<not> is_whitespace c) n"
    by (auto simp: list_ex_iff list_all_iff)
  show "to_ascii_lowercase n = n" by (simp add: n to_ascii_lowercase_def comp_def)
  have "set (trim_end_matches 46 h) \<subseteq> set h"
    by (auto simp: trim_end_matches_def dest: set_dropWhileD)
  then show "set n \<subseteq> set (to_ascii_lowercase h)"
    using set_trim [of "trim_end_matches 46 h"] by (fastforce simp: n to_ascii_lowercase_def)
qed

lemma split_once_set: "split_once c s = Some (a, b) \<Longrightarrow> set a \<subseteq> set s \<and> set b \<subseteq> set s"
  by (induction s arbitrary: a b) (auto split: if_splits)

lemma rsplit_once_set: "rsplit_once c s = Some (a, b) \<Longrightarrow> set a \<subseteq> set s \<and> set b \<subseteq> set s"
  by (auto simp: rsplit_once_def dest!: split_once_set)

lemma strip_host_port_set:
  assumes "strip_host_port raw h = Inr h'"
  shows "set h' \<subseteq> set h"
proof
  fix x
  assume "x \<in> set h'"
  with assms show "x \<in> set h"
    using split_once_set [of 93 "tl h"] rsplit_once_set [of 58 h]
    by (fastforce simp: strip_host_port_def strip_prefix_Some_iff Let_def split: option.splits if_splits)
qed

lemma normalize_host_chars:
  assumes "normalize_network_rule_host raw = Inr n"
  shows "n \<noteq> []" and "to_ascii_lowercase n = n"
    and "list_all (\<lambda>c. \<not> is_whitespace c \<and> c \<notin> {42, 47, 63, 35}) n"
proof -
  from assms obtain h where h: "strip_host_port raw (trim raw) = (Inr h :: ('a, 'b) exec_error + rstring)"
    and fin: "finish_host h = (Inr n :: ('a, 'b) exec_error + rstring)"
    and no: "47 \<notin> set (trim raw)" "63 \<notin> set (trim raw)" "35 \<notin> set (trim raw)"
    by (auto simp: normalize_network_rule_host_def Let_def split: if_splits sum.splits)
  note facts = finish_host_Inr [OF fin]
  have low: "c \<in> set h" if "c \<in> set n" "\<not> (97 \<le> c \<and> c \<le> 122)" for c
    using facts(5) that by (force simp: to_ascii_lowercase_def split: if_splits)
  have "47 \<notin> set n" "63 \<notin> set n" "35 \<notin> set n"
    using low [of 47] low [of 63] low [of 35] strip_host_port_set [OF h] no by auto
  with facts show "n \<noteq> []" "to_ascii_lowercase n = n"
    "list_all (\<lambda>c. \<not> is_whitespace c \<and> c \<notin> {42, 47, 63, 35}) n"
    by (auto simp: list_all_iff)
qed

text \<open>
  Normalising twice is not normalising once: a bracketed host may hold what then reads as a port,
  and a trailing dot may be left behind by white space.
\<close>

lemma normalize_host_not_idempotent:
  "normalize_network_rule_host (lit ''[a:80]'') = (Inr (lit ''a:80'') :: (unit, unit) exec_error + rstring)"
  "normalize_network_rule_host (lit ''a:80'') = (Inr (lit ''a'') :: (unit, unit) exec_error + rstring)"
  "normalize_network_rule_host (lit ''a. .'') = (Inr (lit ''a.'') :: (unit, unit) exec_error + rstring)"
  by code_simp+

end
