(* ===== verification/Exec_Policy.thy ===== *)
theory Exec_Policy
  imports Exec_Rules
begin

text \<open>
  \<^verbatim>\<open>codex-rs/execpolicy/src/policy.rs\<close>: a policy is an index of prefix rules by program, a list of
  network rules and the known paths of host executables; evaluating a command takes the most
  restrictive decision of the rules that match it.

  The multimap (crate \<^verbatim>\<open>multimap\<close>) is a parameter: its operations are the record below, its
  documented behaviour is \<open>multimap_laws\<close>.
\<close>

section \<open>Parameter: the multimap\<close>

record 'm multimap_ops =
  mm_new :: 'm
  mm_insert :: "'m \<Rightarrow> rstring \<Rightarrow> prefix_rule \<Rightarrow> 'm"
  mm_get_vec :: "'m \<Rightarrow> rstring \<Rightarrow> prefix_rule list option"
  mm_iter_all :: "'m \<Rightarrow> (rstring \<times> prefix_rule list) list"

abbreviation bucket :: "'m multimap_ops \<Rightarrow> 'm \<Rightarrow> rstring \<Rightarrow> prefix_rule list" where
  "bucket mm m k \<equiv> (case mm_get_vec mm m k of Some rs \<Rightarrow> rs | None \<Rightarrow> [])"

definition multimap_laws :: "'m multimap_ops \<Rightarrow> bool" where
  "multimap_laws mm \<longleftrightarrow>
     (\<forall>k. mm_get_vec mm (mm_new mm) k = None) \<and>
     (\<forall>m k v k'. mm_get_vec mm (mm_insert mm m k v) k' =
        (if k' = k then Some (bucket mm m k @ [v]) else mm_get_vec mm m k')) \<and>
     (\<forall>m. distinct (map fst (mm_iter_all mm m)) \<and> map_of (mm_iter_all mm m) = mm_get_vec mm m)"


section \<open>Policies\<close>

record 'm policy =
  rules_by_program :: 'm
  network_rules :: "network_rule list"
  host_executables_by_name :: "rstring \<rightharpoonup> path list"

record match_options =
  resolve_host_executables :: bool

definition default_match_options :: match_options where
  "default_match_options = \<lparr>resolve_host_executables = False\<rparr>"

definition policy_from_parts ::
  "'m \<Rightarrow> network_rule list \<Rightarrow> (rstring \<rightharpoonup> path list) \<Rightarrow> 'm policy" where
  "policy_from_parts rules net hosts =
     \<lparr>rules_by_program = rules, network_rules = net, host_executables_by_name = hosts\<rparr>"

definition policy_new :: "'m \<Rightarrow> 'm policy" where
  "policy_new rules = policy_from_parts rules [] Map.empty"

definition policy_empty :: "'m multimap_ops \<Rightarrow> 'm policy" where
  "policy_empty mm = policy_new (mm_new mm)"

fun render_pattern_token :: "pattern_token \<Rightarrow> rstring" where
  "render_pattern_token (Single v) = v"
| "render_pattern_token (Alts alts) = lit ''['' @ join (lit ''|'') alts @ lit '']''"

definition render_prefix :: "prefix_rule \<Rightarrow> rstring list" where
  "render_prefix r = pat_first (rule_pattern r) # map render_pattern_token (pat_rest (rule_pattern r))"

definition get_allowed_prefixes :: "'m multimap_ops \<Rightarrow> 'm policy \<Rightarrow> rstring list list" where
  "get_allowed_prefixes mm p =
     remdups_adj (sort (concat (map (\<lambda>(program, rules).
       map render_prefix (filter (\<lambda>r. rule_decision r = Allow) rules)) (mm_iter_all mm (rules_by_program p)))))"

definition add_prefix_rule ::
  "'m multimap_ops \<Rightarrow> 'm policy \<Rightarrow> rstring list \<Rightarrow> decision \<Rightarrow> ('s, 'l) exec_error + 'm policy" where
  "add_prefix_rule mm p tokens d =
     (case tokens of
        [] \<Rightarrow> Inl (InvalidPattern (lit ''prefix cannot be empty''))
      | first_token # rest \<Rightarrow>
          (let rule = \<lparr>rule_pattern = \<lparr>pat_first = first_token, pat_rest = map Single rest\<rparr>,
                       rule_decision = d, rule_justification = None\<rparr> in
           Inr (p\<lparr>rules_by_program := mm_insert mm (rules_by_program p) first_token rule\<rparr>)))"

definition blank_justification :: "rstring option \<Rightarrow> bool" where
  "blank_justification j = (case j of Some raw \<Rightarrow> trim raw = [] | None \<Rightarrow> False)"

definition add_network_rule ::
  "'m policy \<Rightarrow> rstring \<Rightarrow> network_rule_protocol \<Rightarrow> decision \<Rightarrow> rstring option \<Rightarrow>
   ('s, 'l) exec_error + 'm policy" where
  "add_network_rule p host protocol d justification =
     (case normalize_network_rule_host host of
        Inl e \<Rightarrow> Inl e
      | Inr host' \<Rightarrow>
          if blank_justification justification then Inl (InvalidRule (lit ''justification cannot be empty''))
          else Inr (p\<lparr>network_rules := network_rules p @
            [\<lparr>net_host = host', net_protocol = protocol, net_decision = d, net_justification = justification\<rparr>]\<rparr>))"

definition set_host_executable_paths :: "'m policy \<Rightarrow> rstring \<Rightarrow> path list \<Rightarrow> 'm policy" where
  "set_host_executable_paths p name paths =
     p\<lparr>host_executables_by_name := (host_executables_by_name p)(name \<mapsto> paths)\<rparr>"

definition insert_bucket :: "'m multimap_ops \<Rightarrow> rstring \<times> prefix_rule list \<Rightarrow> 'm \<Rightarrow> 'm" where
  "insert_bucket mm b m = (case b of (program, rules) \<Rightarrow> fold (\<lambda>r m. mm_insert mm m program r) rules m)"

definition merge_overlay :: "'m multimap_ops \<Rightarrow> 'm policy \<Rightarrow> 'm policy \<Rightarrow> 'm policy" where
  "merge_overlay mm self overlay =
     policy_from_parts
       (fold (insert_bucket mm) (mm_iter_all mm (rules_by_program overlay)) (rules_by_program self))
       (network_rules self @ network_rules overlay)
       (host_executables_by_name self ++ host_executables_by_name overlay)"

definition upsert_domain :: "rstring list \<Rightarrow> rstring \<Rightarrow> rstring list" where
  "upsert_domain entries host = filter (\<lambda>e. e \<noteq> host) entries @ [host]"

definition compile_domain :: "network_rule \<Rightarrow> rstring list \<times> rstring list \<Rightarrow> rstring list \<times> rstring list" where
  "compile_domain rule acc =
     (case acc of (allowed, denied) \<Rightarrow>
        (case net_decision rule of
           Allow \<Rightarrow> (upsert_domain allowed (net_host rule), filter (\<lambda>e. e \<noteq> net_host rule) denied)
         | Forbidden \<Rightarrow> (filter (\<lambda>e. e \<noteq> net_host rule) allowed, upsert_domain denied (net_host rule))
         | Prompt \<Rightarrow> (allowed, denied)))"

definition compiled_network_domains :: "'m policy \<Rightarrow> rstring list \<times> rstring list" where
  "compiled_network_domains p = fold compile_domain (network_rules p) ([], [])"


section \<open>Matching and evaluation\<close>

definition match_exact_rules ::
  "'m multimap_ops \<Rightarrow> 'm policy \<Rightarrow> rstring list \<Rightarrow> rule_match list option" where
  "match_exact_rules mm p cmd =
     (case first_opt cmd of
        None \<Rightarrow> None
      | Some first \<Rightarrow>
          Some (case mm_get_vec mm (rules_by_program p) first of
                  Some rules \<Rightarrow> List.map_filter (\<lambda>r. rule_matches r cmd) rules
                | None \<Rightarrow> []))"

definition match_host_executable_rules ::
  "'m multimap_ops \<Rightarrow> 'e path_env \<Rightarrow> 'm policy \<Rightarrow> rstring list \<Rightarrow> rule_match list" where
  "match_host_executable_rules mm env p cmd =
     (case first_opt cmd of
        None \<Rightarrow> []
      | Some first \<Rightarrow>
          (case from_absolute_path env first of
             Inl _ \<Rightarrow> []
           | Inr program \<Rightarrow>
               (case executable_path_lookup_key program of
                  None \<Rightarrow> []
                | Some basename \<Rightarrow>
                    (case mm_get_vec mm (rules_by_program p) basename of
                       None \<Rightarrow> []
                     | Some rules \<Rightarrow>
                         if (case host_executables_by_name p basename of
                               Some paths \<Rightarrow> \<not> list_ex (\<lambda>q. q = program) paths
                             | None \<Rightarrow> False)
                         then []
                         else map (with_resolved_program program)
                           (List.map_filter (\<lambda>r. rule_matches r (basename # drop 1 cmd)) rules)))))"

definition matches_for_command_with_options ::
  "'m multimap_ops \<Rightarrow> 'e path_env \<Rightarrow> 'm policy \<Rightarrow> rstring list \<Rightarrow> (rstring list \<Rightarrow> decision) option \<Rightarrow>
   match_options \<Rightarrow> rule_match list" where
  "matches_for_command_with_options mm env p cmd heuristics_fallback options =
     (let exact = (case match_exact_rules mm p cmd of Some ms \<Rightarrow> ms | None \<Rightarrow> []);
          matched_rules =
            (if exact \<noteq> [] then exact
             else if resolve_host_executables options then match_host_executable_rules mm env p cmd
             else []) in
      case heuristics_fallback of
        Some fallback \<Rightarrow>
          if matched_rules = [] then [HeuristicsRuleMatch cmd (fallback cmd)] else matched_rules
      | None \<Rightarrow> matched_rules)"

definition matches_for_command ::
  "'m multimap_ops \<Rightarrow> 'e path_env \<Rightarrow> 'm policy \<Rightarrow> rstring list \<Rightarrow> (rstring list \<Rightarrow> decision) option \<Rightarrow>
   rule_match list" where
  "matches_for_command mm env p cmd heuristics_fallback =
     matches_for_command_with_options mm env p cmd heuristics_fallback default_match_options"

record evaluation =
  eval_decision :: decision
  eval_matched_rules :: "rule_match list"

fun is_heuristics_match :: "rule_match \<Rightarrow> bool" where
  "is_heuristics_match (HeuristicsRuleMatch c d) = True"
| "is_heuristics_match (PrefixRuleMatch m d r j) = False"

definition is_match :: "evaluation \<Rightarrow> bool" where
  "is_match ev = list_ex (\<lambda>m. \<not> is_heuristics_match m) (eval_matched_rules ev)"

text \<open>\<^verbatim>\<open>Iterator::max\<close>; \<open>from_matches\<close> is \<open>None\<close> where \<^verbatim>\<open>expect\<close> panics.\<close>

definition max_decision :: "decision list \<Rightarrow> decision option" where
  "max_decision ds = (case ds of [] \<Rightarrow> None | d # ds' \<Rightarrow> Some (fold max ds' d))"

definition from_matches :: "rule_match list \<Rightarrow> evaluation option" where
  "from_matches ms =
     map_option (\<lambda>d. \<lparr>eval_decision = d, eval_matched_rules = ms\<rparr>) (max_decision (map match_decision ms))"

definition check_with_options ::
  "'m multimap_ops \<Rightarrow> 'e path_env \<Rightarrow> 'm policy \<Rightarrow> rstring list \<Rightarrow> (rstring list \<Rightarrow> decision) \<Rightarrow>
   match_options \<Rightarrow> evaluation option" where
  "check_with_options mm env p cmd fallback options =
     from_matches (matches_for_command_with_options mm env p cmd (Some fallback) options)"

definition check ::
  "'m multimap_ops \<Rightarrow> 'e path_env \<Rightarrow> 'm policy \<Rightarrow> rstring list \<Rightarrow> (rstring list \<Rightarrow> decision) \<Rightarrow>
   evaluation option" where
  "check mm env p cmd fallback = check_with_options mm env p cmd fallback default_match_options"

definition check_multiple_with_options ::
  "'m multimap_ops \<Rightarrow> 'e path_env \<Rightarrow> 'm policy \<Rightarrow> rstring list list \<Rightarrow> (rstring list \<Rightarrow> decision) \<Rightarrow>
   match_options \<Rightarrow> evaluation option" where
  "check_multiple_with_options mm env p commands fallback options =
     from_matches (concat (map (\<lambda>cmd.
       matches_for_command_with_options mm env p cmd (Some fallback) options) commands))"

definition check_multiple ::
  "'m multimap_ops \<Rightarrow> 'e path_env \<Rightarrow> 'm policy \<Rightarrow> rstring list list \<Rightarrow> (rstring list \<Rightarrow> decision) \<Rightarrow>
   evaluation option" where
  "check_multiple mm env p commands fallback =
     check_multiple_with_options mm env p commands fallback default_match_options"

section \<open>Laws of the multimap in use\<close>

lemma multimap_lawsD:
  assumes "multimap_laws mm"
  shows "mm_get_vec mm (mm_new mm) k = None"
    and "mm_get_vec mm (mm_insert mm m k v) k' =
      (if k' = k then Some (bucket mm m k @ [v]) else mm_get_vec mm m k')"
    and "distinct (map fst (mm_iter_all mm m))" and "map_of (mm_iter_all mm m) = mm_get_vec mm m"
  using assms unfolding multimap_laws_def by auto

lemma bucket_insert:
  "multimap_laws mm \<Longrightarrow> bucket mm (mm_insert mm m k v) k' = bucket mm m k' @ (if k' = k then [v] else [])"
  by (simp add: multimap_lawsD)

lemma bucket_insert_bucket:
  "multimap_laws mm \<Longrightarrow>
     bucket mm (insert_bucket mm (k, rs) m) k' = bucket mm m k' @ (if k' = k then rs else [])"
proof -
  assume laws: "multimap_laws mm"
  have "bucket mm (fold (\<lambda>r m. mm_insert mm m k r) rs m) k' = bucket mm m k' @ (if k' = k then rs else [])"
    by (induction rs arbitrary: m) (simp_all add: bucket_insert [OF laws])
  then show ?thesis by (simp add: insert_bucket_def)
qed

lemma bucket_fold_insert:
  assumes "multimap_laws mm" and "distinct (map fst bs)"
  shows "bucket mm (fold (insert_bucket mm) bs m) k =
    bucket mm m k @ (case map_of bs k of Some rs \<Rightarrow> rs | None \<Rightarrow> [])"
  using assms(2)
proof (induction bs arbitrary: m)
  case (Cons b bs)
  obtain k' rs where b: "b = (k', rs)" by (cases b)
  with Cons.prems have "k' \<notin> fst ` set bs" by simp
  then have "map_of bs k' = None" by (simp add: map_of_eq_None_iff)
  with Cons b show ?case by (auto simp: bucket_insert_bucket [OF assms(1)])
qed simp

lemma bucket_merge_overlay:
  "multimap_laws mm \<Longrightarrow>
     bucket mm (rules_by_program (merge_overlay mm self overlay)) k =
     bucket mm (rules_by_program self) k @ bucket mm (rules_by_program overlay) k"
  by (simp add: merge_overlay_def policy_from_parts_def bucket_fold_insert multimap_lawsD)


section \<open>The index invariant\<close>

text \<open>Every rule is stored under the program it names.\<close>

definition policy_indexed :: "'m multimap_ops \<Rightarrow> 'm policy \<Rightarrow> bool" where
  "policy_indexed mm p \<longleftrightarrow> (\<forall>k. list_all (\<lambda>r. rule_program r = k) (bucket mm (rules_by_program p) k))"

lemma policy_indexed_iter:
  assumes "multimap_laws mm" and "policy_indexed mm p"
  shows "list_all (\<lambda>(k, rs). list_all (\<lambda>r. rule_program r = k) rs) (mm_iter_all mm (rules_by_program p))"
proof -
  have "list_all (\<lambda>r. rule_program r = k) rs" if "(k, rs) \<in> set (mm_iter_all mm (rules_by_program p))" for k rs
  proof -
    have "mm_get_vec mm (rules_by_program p) k = Some rs"
      using that multimap_lawsD(3,4) [OF assms(1), of "rules_by_program p"] by (metis map_of_eq_Some_iff)
    then show ?thesis using assms(2) by (auto simp: policy_indexed_def dest: spec [of _ k])
  qed
  then show ?thesis by (auto simp: list_all_iff)
qed

lemma match_exact_rules_bucket:
  "match_exact_rules mm p (c # args) =
     Some (List.map_filter (\<lambda>r. rule_matches r (c # args)) (bucket mm (rules_by_program p) c))"
  by (simp add: match_exact_rules_def first_opt_def map_filter_simps split: option.splits)


section \<open>Decisions\<close>

lemma max_decision_Max: "ds \<noteq> [] \<Longrightarrow> max_decision ds = Some (Max (set ds))"
  by (cases ds) (simp_all add: max_decision_def Max.set_eq_fold [symmetric])

lemma max_decision_None_iff: "max_decision ds = None \<longleftrightarrow> ds = []"
  by (simp add: max_decision_def split: list.splits)

lemma matches_with_fallback_nonempty:
  "matches_for_command_with_options mm env p cmd (Some fallback) options \<noteq> []"
  by (simp add: matches_for_command_with_options_def Let_def)

lemma from_matches_Some:
  "ms \<noteq> [] \<Longrightarrow> from_matches ms =
     Some \<lparr>eval_decision = Max (match_decision ` set ms), eval_matched_rules = ms\<rparr>"
  by (simp add: from_matches_def max_decision_Max)


section \<open>A multimap as an association list\<close>

definition alist_multimap :: "(rstring \<times> prefix_rule list) list multimap_ops" where
  "alist_multimap =
     \<lparr>mm_new = [],
      mm_insert = (\<lambda>m k v. (k, (case map_of m k of Some rs \<Rightarrow> rs | None \<Rightarrow> []) @ [v]) # m),
      mm_get_vec = map_of,
      mm_iter_all = (\<lambda>m. map (\<lambda>k. (k, the (map_of m k))) (remdups (map fst m)))\<rparr>"

lemma alist_multimap_laws: "multimap_laws alist_multimap"
proof -
  have "map_of (map (\<lambda>k. (k, the (map_of m k))) (remdups (map fst m))) = map_of m"
    for m :: "(rstring \<times> prefix_rule list) list"
  proof
    fix k
    show "map_of (map (\<lambda>k. (k, the (map_of m k))) (remdups (map fst m))) k = map_of m k"
      using map_of_eq_None_iff [of m k]
      by (cases "map_of m k") (simp_all add: map_of_map_restrict restrict_map_def)
  qed
  then show ?thesis
    by (simp add: multimap_laws_def alist_multimap_def comp_def)
qed

definition sample_policy :: "(rstring \<times> prefix_rule list) list policy" where
  "sample_policy =
     (let rule = (\<lambda>first rest d. \<lparr>rule_pattern = \<lparr>pat_first = lit first, pat_rest = rest\<rparr>,
            rule_decision = d, rule_justification = None\<rparr>) in
      policy_from_parts
        [(lit ''git'', [rule ''git'' [] Allow,
                        rule ''git'' [Alts [lit ''push'', lit ''fetch'']] Prompt])]
        [] [lit ''git'' \<mapsto> [[RootDir, Normal (lit ''bin''), Normal (lit ''git'')]]])"

lemma sample_policy_indexed: "policy_indexed alist_multimap sample_policy"
  by (simp add: policy_indexed_def sample_policy_def alist_multimap_def policy_from_parts_def
      rule_program_def Let_def)

section \<open>Compiled network domains\<close>

lemma set_upsert_domain [simp]: "set (upsert_domain es h) = insert h (set es)"
  by (auto simp: upsert_domain_def)

lemma distinct_upsert_domain [simp]: "distinct es \<Longrightarrow> distinct (upsert_domain es h)"
  by (simp add: upsert_domain_def)

text \<open>The last rule for a host that allows or forbids it.\<close>

definition last_verdict :: "network_rule list \<Rightarrow> rstring \<Rightarrow> decision option" where
  "last_verdict rules h =
     last_opt (filter (\<lambda>d. d \<noteq> Prompt) (map net_decision (filter (\<lambda>r. net_host r = h) rules)))"

lemma last_opt_snoc [simp]: "last_opt (xs @ [x]) = Some x"
  by (simp add: last_opt_def)

lemma last_verdict_snoc:
  "last_verdict (rules @ [r]) h =
     (if net_host r = h \<and> net_decision r \<noteq> Prompt then Some (net_decision r) else last_verdict rules h)"
  by (simp add: last_verdict_def)

lemma compile_domains_spec:
  "fold compile_domain rules ([], []) = (allowed, denied) \<Longrightarrow>
     distinct allowed \<and> distinct denied \<and>
     (\<forall>h. (h \<in> set allowed \<longleftrightarrow> last_verdict rules h = Some Allow) \<and>
          (h \<in> set denied \<longleftrightarrow> last_verdict rules h = Some Forbidden))"
proof (induction rules arbitrary: allowed denied rule: rev_induct)
  case Nil
  then show ?case by (simp add: last_verdict_def last_opt_def)
next
  case (snoc r rules)
  obtain a d where ad: "fold compile_domain rules ([], []) = (a, d)"
    by (cases "fold compile_domain rules ([], [])")
  note IH = snoc.IH [OF ad]
  have new: "compile_domain r (a, d) = (allowed, denied)" using snoc.prems ad by simp
  show ?case
  proof (cases "net_decision r")
    case Allow
    then have "allowed = upsert_domain a (net_host r)" "denied = filter (\<lambda>e. e \<noteq> net_host r) d"
      using new by (simp_all add: compile_domain_def)
    with Allow IH show ?thesis by (simp add: last_verdict_snoc)
  next
    case Prompt
    with new IH show ?thesis by (simp add: compile_domain_def last_verdict_snoc)
  next
    case Forbidden
    then have "allowed = filter (\<lambda>e. e \<noteq> net_host r) a" "denied = upsert_domain d (net_host r)"
      using new by (simp_all add: compile_domain_def)
    with Forbidden IH show ?thesis by (simp add: last_verdict_snoc)
  qed
qed


section \<open>Properties\<close>

text \<open>
  C10. Indexing rules by program loses nothing: the rules found for a command are exactly the
  rules of the whole policy that match it, in the order of the table.
\<close>

theorem indexed_rules_complete:
  assumes "multimap_laws mm" and "policy_indexed mm p"
  shows "match_exact_rules mm p (c # args) =
    Some (List.map_filter (\<lambda>r. rule_matches r (c # args))
      (concat (map snd (mm_iter_all mm (rules_by_program p)))))"
  using prefix_rules.indexed_lookup_complete [OF multimap_lawsD(3) [OF assms(1)] policy_indexed_iter [OF assms], of c args]
  by (simp add: match_exact_rules_bucket multimap_lawsD(4) [OF assms(1)])

theorem indexed_rules_complete_witness:
  "\<exists>ms. match_exact_rules alist_multimap sample_policy [lit ''git'', lit ''push''] = Some ms \<and> length ms = 2"
proof -
  have "length (List.map_filter (\<lambda>r. rule_matches r [lit ''git'', lit ''push''])
      (concat (map snd (mm_iter_all alist_multimap (rules_by_program sample_policy))))) = 2"
    by code_simp
  then show ?thesis
    using indexed_rules_complete [OF alist_multimap_laws sample_policy_indexed, of "lit ''git''" "[lit ''push'']"]
    by blast
qed

text \<open>
  C24. The index invariant holds of the empty policy and is kept by every operation that changes
  a policy: adding rules, setting host executables and merging an overlay.
\<close>

theorem policy_indexed_invariant:
  assumes "multimap_laws mm" and "policy_indexed mm p" and "policy_indexed mm q"
  shows "policy_indexed mm (policy_empty mm) \<and> policy_indexed mm (merge_overlay mm p q) \<and>
    (add_prefix_rule mm p tokens d = Inr p1 \<longrightarrow> policy_indexed mm p1) \<and>
    (add_network_rule p host protocol d j = Inr p2 \<longrightarrow> policy_indexed mm p2) \<and>
    policy_indexed mm (set_host_executable_paths p name paths)"
  using assms
  by (auto simp: policy_indexed_def policy_empty_def policy_new_def policy_from_parts_def
      add_prefix_rule_def add_network_rule_def set_host_executable_paths_def bucket_insert
      bucket_merge_overlay multimap_lawsD rule_program_def
      split: list.splits sum.splits if_splits)

theorem policy_indexed_invariant_witness:
  "policy_indexed alist_multimap (merge_overlay alist_multimap sample_policy sample_policy)"
  using policy_indexed_invariant [OF alist_multimap_laws sample_policy_indexed sample_policy_indexed] by blast

text \<open>
  C9. Checking a command always gives an answer, and it is the most restrictive decision among
  its matches: the command is forbidden exactly when some matching rule (or the fallback, when
  no rule matches) forbids it, and allowed only when all of them allow it.
\<close>

theorem check_most_restrictive:
  "\<exists>ev. check_with_options mm env p cmd fallback options = Some ev \<and>
     (let ds = match_decision ` set (eval_matched_rules ev) in
      eval_decision ev \<in> ds \<and> (\<forall>d. d \<in> ds \<longrightarrow> d \<le> eval_decision ev) \<and>
      (eval_decision ev = Forbidden \<longleftrightarrow> Forbidden \<in> ds) \<and> (eval_decision ev = Allow \<longleftrightarrow> ds = {Allow}))"
proof -
  let ?ms = "matches_for_command_with_options mm env p cmd (Some fallback) options"
  let ?ds = "match_decision ` set ?ms"
  have ne: "?ms \<noteq> []" by (rule matches_with_fallback_nonempty)
  then have fin: "finite ?ds" "?ds \<noteq> {}" by simp_all
  have mem: "Max ?ds \<in> ?ds" using fin by (rule Max_in)
  have ge: "d \<le> Max ?ds" if "d \<in> ?ds" for d using fin(1) that by (rule Max_ge)
  have "Max ?ds = Forbidden \<longleftrightarrow> Forbidden \<in> ?ds" using mem ge [of Forbidden] by auto
  moreover have "Max ?ds = Allow \<longleftrightarrow> ?ds = {Allow}" using mem ge by fastforce
  ultimately show ?thesis
    using mem ge by (auto simp: check_with_options_def from_matches_Some [OF ne] Let_def)
qed

theorem check_most_restrictive_witness:
  "\<exists>ev. check_with_options alist_multimap sample_path_env sample_policy [lit ''git'', lit ''push''] (\<lambda>_. Allow)
     default_match_options = Some ev \<and> eval_decision ev = Prompt"
proof -
  have "map_option (\<lambda>ev. match_decision ` set (eval_matched_rules ev))
      (check_with_options alist_multimap sample_path_env sample_policy [lit ''git'', lit ''push''] (\<lambda>_. Allow)
        default_match_options) = Some {Allow, Prompt}"
    by code_simp
  then show ?thesis
    using check_most_restrictive [of alist_multimap sample_path_env sample_policy "[lit ''git'', lit ''push'']"
        "\<lambda>_. Allow" default_match_options]
    by (auto simp: Let_def less_eq_decision_def)
qed

text \<open>
  Checking several commands panics exactly when there are none of them; otherwise the
  decision is the most restrictive one over all the commands.
\<close>

theorem check_multiple_total:
  "(check_multiple_with_options mm env p commands fallback options = None \<longleftrightarrow> commands = []) \<and>
   (\<forall>ev c e. check_multiple_with_options mm env p commands fallback options = Some ev \<and> c \<in> set commands \<and>
      check_with_options mm env p c fallback options = Some e \<longrightarrow> eval_decision e \<le> eval_decision ev)"
proof -
  let ?f = "\<lambda>cmd. matches_for_command_with_options mm env p cmd (Some fallback) options"
  have "check_multiple_with_options mm env p commands fallback options = None \<longleftrightarrow> commands = []"
    using matches_with_fallback_nonempty [of mm env p _ fallback options]
    by (cases commands) (auto simp: check_multiple_with_options_def from_matches_def max_decision_None_iff)
  moreover have "eval_decision e \<le> eval_decision ev"
    if "check_multiple_with_options mm env p commands fallback options = Some ev" "c \<in> set commands"
      "check_with_options mm env p c fallback options = Some e" for ev c e
  proof -
    have ne: "?f c \<noteq> []" by (rule matches_with_fallback_nonempty)
    with that(2) have "concat (map ?f commands) \<noteq> []" by auto
    then have ev: "eval_decision ev = Max (match_decision ` set (concat (map ?f commands)))"
      using that(1) by (auto simp: check_multiple_with_options_def from_matches_Some)
    have e: "eval_decision e = Max (match_decision ` set (?f c))"
      using that(3) ne by (auto simp: check_with_options_def from_matches_Some)
    show ?thesis unfolding ev e using ne that(2) by (intro Max_mono) auto
  qed
  ultimately show ?thesis by blast
qed

theorem check_multiple_total_witness:
  "check_multiple_with_options alist_multimap sample_path_env sample_policy [] (\<lambda>_. Allow) default_match_options = None"
  using check_multiple_total [of alist_multimap sample_path_env sample_policy "[]" "\<lambda>_. Allow" default_match_options]
  by blast

text \<open>
  C25. An overlay can add rules but not take any away: the exact matches after merging are those
  of the base followed by those of the overlay. So a command that had an exact match in the base
  is never judged less strictly after merging.
\<close>

theorem merge_overlay_only_restricts:
  assumes "multimap_laws mm"
    and "check_with_options mm env p (c # args) fallback options = Some before"
    and "check_with_options mm env (merge_overlay mm p q) (c # args) fallback options = Some after"
    and "match_exact_rules mm p (c # args) = Some ms" and "ms \<noteq> []"
  shows "\<exists>ns. match_exact_rules mm (merge_overlay mm p q) (c # args) = Some (ms @ ns) \<and>
    match_exact_rules mm q (c # args) = Some ns \<and> eval_decision before \<le> eval_decision after"
proof -
  let ?f = "\<lambda>r. rule_matches r (c # args)"
  let ?ns = "List.map_filter ?f (bucket mm (rules_by_program q) c)"
  have ms: "ms = List.map_filter ?f (bucket mm (rules_by_program p) c)"
    using assms(4) by (simp add: match_exact_rules_bucket)
  have merged: "match_exact_rules mm (merge_overlay mm p q) (c # args) = Some (ms @ ?ns)"
    unfolding match_exact_rules_bucket bucket_merge_overlay [OF assms(1)] ms
    by (simp add: List.map_filter_def)
  have exact: "from_matches es = Some ev"
    if "match_exact_rules mm r (c # args) = Some es" "es \<noteq> []"
      "check_with_options mm env r (c # args) fallback options = Some ev" for r es ev
    using that by (simp add: check_with_options_def matches_for_command_with_options_def Let_def)
  have "eval_decision before = Max (match_decision ` set ms)"
    using exact [OF assms(4,5,2)] assms(5) by (auto simp: from_matches_Some)
  moreover have "eval_decision after = Max (match_decision ` set (ms @ ?ns))"
    using exact [OF merged _ assms(3)] assms(5) by (auto simp: from_matches_Some)
  ultimately have "eval_decision before \<le> eval_decision after"
    using assms(5) by (auto intro!: Max_mono)
  with merged show ?thesis by (auto simp: match_exact_rules_bucket)
qed

definition sample_overlay :: "(rstring \<times> prefix_rule list) list policy" where
  "sample_overlay =
     policy_new [(lit ''git'', [\<lparr>rule_pattern = \<lparr>pat_first = lit ''git'', pat_rest = [Single (lit ''push'')]\<rparr>,
        rule_decision = Forbidden, rule_justification = None\<rparr>])]"

theorem merge_overlay_only_restricts_witness:
  "\<exists>ms ns. match_exact_rules alist_multimap (merge_overlay alist_multimap sample_policy sample_overlay)
     [lit ''git'', lit ''push''] = Some (ms @ ns) \<and> length ms = 2"
proof -
  let ?cmd = "[lit ''git'', lit ''push'']"
  obtain b a where "check_with_options alist_multimap sample_path_env sample_policy ?cmd (\<lambda>_. Allow)
      default_match_options = Some b"
    "check_with_options alist_multimap sample_path_env (merge_overlay alist_multimap sample_policy sample_overlay)
      ?cmd (\<lambda>_. Allow) default_match_options = Some a"
    by (simp add: check_with_options_def from_matches_Some [OF matches_with_fallback_nonempty])
  moreover have "map_option length (match_exact_rules alist_multimap sample_policy ?cmd) = Some 2" by code_simp
  then obtain ms where "match_exact_rules alist_multimap sample_policy ?cmd = Some ms" "length ms = 2" by auto
  ultimately show ?thesis
    using merge_overlay_only_restricts [OF alist_multimap_laws, of sample_path_env sample_policy "lit ''git''"
        "[lit ''push'']" "\<lambda>_. Allow" default_match_options b sample_overlay a ms]
    by fastforce
qed

text \<open>
  The compiled domain lists have no duplicates, and a host is in one of them exactly when
  the last of its rules that allows or forbids it says so: later rules win and no host is both
  allowed and denied.
\<close>

theorem compiled_domains_last_rule_wins:
  assumes "compiled_network_domains p = (allowed, denied)"
  shows "distinct allowed \<and> distinct denied \<and> set allowed \<inter> set denied = {} \<and>
    (h \<in> set allowed \<longleftrightarrow> last_verdict (network_rules p) h = Some Allow) \<and>
    (h \<in> set denied \<longleftrightarrow> last_verdict (network_rules p) h = Some Forbidden)"
  using compile_domains_spec [OF assms [unfolded compiled_network_domains_def]] by auto

definition sample_network_policy :: "(rstring \<times> prefix_rule list) list policy" where
  "sample_network_policy =
     policy_from_parts []
       (map (\<lambda>(h, d). \<lparr>net_host = lit h, net_protocol = Https, net_decision = d, net_justification = None\<rparr>)
         [(''a'', Allow), (''b'', Forbidden), (''a'', Forbidden), (''b'', Prompt)]) Map.empty"

theorem compiled_domains_last_rule_wins_witness:
  "last_verdict (network_rules sample_network_policy) (lit ''a'') = Some Forbidden"
proof -
  have c: "compiled_network_domains sample_network_policy = ([], [lit ''b'', lit ''a''])" by code_simp
  show ?thesis using compiled_domains_last_rule_wins [OF c, of "lit ''a''"] by simp
qed

text \<open>
  When the paths of an executable are registered, the basename fallback never accepts
  another path: every match it gives names a resolved program among the registered paths.
\<close>

theorem host_fallback_respects_registered_paths:
  assumes "m \<in> set (match_host_executable_rules mm env p (first # args))"
    and "from_absolute_path env first = Inr program" and "path_file_name program = Some name"
    and "host_executables_by_name p name = Some paths"
  shows "program \<in> set paths \<and> (\<exists>pre d j. m = PrefixRuleMatch pre d (Some program) j)"
proof -
  from assms obtain rs where inp: "program \<in> set paths"
    and m: "m \<in> with_resolved_program program ` set (List.map_filter (\<lambda>r. rule_matches r (name # args)) rs)"
    by (auto simp: match_host_executable_rules_def first_opt_def executable_path_lookup_key_def
        executable_lookup_key_def list_ex_iff split: option.splits if_splits)
  from m obtain r n where "rule_matches r (name # args) = Some n" "m = with_resolved_program program n"
    by (auto simp: List.map_filter_def)
  with inp show ?thesis by (auto simp: rule_matches_def)
qed

theorem host_fallback_respects_registered_paths_witness:
  "\<exists>pre d j. hd (match_host_executable_rules alist_multimap sample_path_env sample_policy
       [lit ''/bin/git'', lit ''log'']) =
     PrefixRuleMatch pre d (Some [RootDir, Normal (lit ''bin''), Normal (lit ''git'')]) j"
proof -
  let ?git = "[RootDir, Normal (lit ''bin''), Normal (lit ''git'')]"
  let ?ms = "match_host_executable_rules alist_multimap sample_path_env sample_policy [lit ''/bin/git'', lit ''log'']"
  have "?ms \<noteq> []" by code_simp
  then have "hd ?ms \<in> set ?ms" by simp
  moreover have "from_absolute_path sample_path_env (lit ''/bin/git'') = Inr ?git" by code_simp
  moreover have "path_file_name ?git = Some (lit ''git'')" by code_simp
  moreover have "host_executables_by_name sample_policy (lit ''git'') = Some [?git]" by code_simp
  ultimately show ?thesis by (rule host_fallback_respects_registered_paths [THEN conjunct2])
qed

text \<open>
  Where no path is registered, the basename fallback also applies to relative program paths:
  a program \<^verbatim>\<open>./name\<close> of the current directory is judged by the rules for \<open>name\<close>, although the
  fallback is documented for absolute program paths.
\<close>

theorem relative_program_uses_basename_rules:
  assumes "current_dir env = Inr cwd" and "path_is_absolute cwd"
    and "name \<noteq> []" and "47 \<notin> set name" and "name \<noteq> [46]" and "name \<noteq> [46, 46]"
    and "host_executables_by_name p name = None"
  shows "match_host_executable_rules mm env p ((lit ''./'' @ name) # args) =
    map (with_resolved_program (normalize_path cwd @ [Normal name]))
      (List.map_filter (\<lambda>r. rule_matches r (name # args)) (bucket mm (rules_by_program p) name))"
proof -
  have comps: "path_components (lit ''./'' @ name) = [CurDir, Normal name]"
    using assms(3-6) by (simp add: path_components_def lit_def split_on_id starts_with_def Let_def)
  have "cwd \<noteq> []" using assms(2) by (auto simp: path_is_absolute_iff)
  have snoc: "normalize_path (cwd @ [Normal name]) = normalize_path cwd @ [Normal name]"
    by (rule normalize_path_snoc [OF assms(2)])
  have "from_absolute_path env (lit ''./'' @ name) = Inr (normalize_path cwd @ [Normal name])"
    using assms(1) \<open>cwd \<noteq> []\<close> snoc
    by (simp add: from_absolute_path_def maybe_expand_home_directory_def absolutize_def absolutize_from_def
        path_with_base_def path_join_std_def comps [unfolded lit_def, simplified] path_is_absolute_iff
        lit_def split: option.splits)
  then show ?thesis
    using assms(7)
    by (auto simp: match_host_executable_rules_def first_opt_def executable_path_lookup_key_def
        executable_lookup_key_def path_file_name_def map_filter_simps split: option.splits)
qed

theorem relative_program_uses_basename_rules_witness:
  "match_host_executable_rules alist_multimap sample_path_env sample_overlay [lit ''./'' @ lit ''git'', lit ''push''] =
   map (with_resolved_program (normalize_path [RootDir, Normal (lit ''w'')] @ [Normal (lit ''git'')]))
      (List.map_filter (\<lambda>r. rule_matches r [lit ''git'', lit ''push''])
        (bucket alist_multimap (rules_by_program sample_overlay) (lit ''git'')))"
  by (rule relative_program_uses_basename_rules; code_simp)

end
