(* ===== verification/Policy_Parser.thy ===== *)
theory Policy_Parser
  imports Exec_Policy
begin

text \<open>
  \<^verbatim>\<open>codex-rs/execpolicy/src\<close>: policy files (\<^verbatim>\<open>parser.rs\<close>), the validation of examples (\<^verbatim>\<open>rule.rs\<close>)
  and the appending of rules to a policy file (\<^verbatim>\<open>amend.rs\<close>).

  The Starlark evaluator is a parameter: evaluating a module gives the calls of the three
  built-ins in order, with the values and source locations they receive, and possibly an error
  after them. The built-ins return nothing to the module, so the calls do not depend on the
  builder. Splitting a command line (\<^verbatim>\<open>shlex\<close>) and JSON strings (\<^verbatim>\<open>serde_json\<close>) are parameters too.
\<close>

section \<open>Starlark values\<close>

datatype starlark_value = VString rstring | VList "starlark_value list" | VOther rstring

fun unpack_str :: "starlark_value \<Rightarrow> rstring option" where
  "unpack_str (VString s) = Some s"
| "unpack_str v = None"

fun get_type :: "starlark_value \<Rightarrow> rstring" where
  "get_type (VString s) = lit ''string''"
| "get_type (VList vs) = lit ''list''"
| "get_type (VOther t) = t"

text \<open>\<^verbatim>\<open>Iterator::collect\<close> into a \<^verbatim>\<open>Result\<close>: the values, or the first error.\<close>

fun collect_results :: "('e + 'a) list \<Rightarrow> 'e + 'a list" where
  "collect_results [] = Inr []"
| "collect_results (Inl e # rs) = Inl e"
| "collect_results (Inr a # rs) = map_sum id ((#) a) (collect_results rs)"

definition unpack_str_or :: "(rstring \<Rightarrow> 'e) \<Rightarrow> starlark_value \<Rightarrow> 'e + rstring" where
  "unpack_str_or err v = (case unpack_str v of Some s \<Rightarrow> Inr s | None \<Rightarrow> Inl (err (get_type v)))"


section \<open>Parsing arguments\<close>

fun alternatives_token :: "rstring list \<Rightarrow> ('s, 'l) exec_error + pattern_token" where
  "alternatives_token [] = Inl (InvalidPattern (lit ''pattern alternatives cannot be empty''))"
| "alternatives_token [single] = Inr (Single single)"
| "alternatives_token tokens = Inr (Alts tokens)"

fun parse_pattern_token :: "starlark_value \<Rightarrow> ('s, 'l) exec_error + pattern_token" where
  "parse_pattern_token (VString s) = Inr (Single s)"
| "parse_pattern_token (VList vs) =
     (case collect_results (map (unpack_str_or (\<lambda>t. InvalidPattern
         (lit ''pattern alternative must be a string (got '' @ t @ lit '')''))) vs) of
        Inl e \<Rightarrow> Inl e
      | Inr tokens \<Rightarrow> alternatives_token tokens)"
| "parse_pattern_token (VOther t) =
     Inl (InvalidPattern (lit ''pattern element must be a string or list of strings (got '' @ t @ lit '')''))"

definition parse_pattern :: "starlark_value list \<Rightarrow> ('s, 'l) exec_error + pattern_token list" where
  "parse_pattern items =
     (case collect_results (map parse_pattern_token items) of
        Inl e \<Rightarrow> Inl e
      | Inr tokens \<Rightarrow>
          if tokens = [] then Inl (InvalidPattern (lit ''pattern cannot be empty'')) else Inr tokens)"

definition parse_string_example ::
  "(rstring \<Rightarrow> rstring list option) \<Rightarrow> rstring \<Rightarrow> ('s, 'l) exec_error + rstring list" where
  "parse_string_example shlex_split raw =
     (case shlex_split raw of
        None \<Rightarrow> Inl (InvalidExample (lit ''example string has invalid shell syntax''))
      | Some tokens \<Rightarrow>
          if tokens = [] then Inl (InvalidExample (lit ''example cannot be an empty string'')) else Inr tokens)"

definition parse_list_example :: "starlark_value list \<Rightarrow> ('s, 'l) exec_error + rstring list" where
  "parse_list_example vs =
     (case collect_results (map (unpack_str_or (\<lambda>t. InvalidExample
         (lit ''example tokens must be strings (got '' @ t @ lit '')''))) vs) of
        Inl e \<Rightarrow> Inl e
      | Inr tokens \<Rightarrow>
          if tokens = [] then Inl (InvalidExample (lit ''example cannot be an empty list'')) else Inr tokens)"

fun parse_example ::
  "(rstring \<Rightarrow> rstring list option) \<Rightarrow> starlark_value \<Rightarrow> ('s, 'l) exec_error + rstring list" where
  "parse_example shlex_split (VString raw) = parse_string_example shlex_split raw"
| "parse_example shlex_split (VList vs) = parse_list_example vs"
| "parse_example shlex_split (VOther t) =
     Inl (InvalidExample (lit ''example must be a string or list of strings (got '' @ t @ lit '')''))"

definition parse_examples ::
  "(rstring \<Rightarrow> rstring list option) \<Rightarrow> starlark_value list \<Rightarrow> ('s, 'l) exec_error + rstring list list" where
  "parse_examples shlex_split items = collect_results (map (parse_example shlex_split) items)"

definition parse_optional_examples ::
  "(rstring \<Rightarrow> rstring list option) \<Rightarrow> starlark_value list option \<Rightarrow> ('s, 'l) exec_error + rstring list list" where
  "parse_optional_examples shlex_split items =
     (case items of None \<Rightarrow> Inr [] | Some vs \<Rightarrow> parse_examples shlex_split vs)"

definition parse_literal_absolute_path ::
  "'e path_env \<Rightarrow> ('e \<Rightarrow> rstring) \<Rightarrow> rstring \<Rightarrow> ('s, 'l) exec_error + path" where
  "parse_literal_absolute_path env show_io raw =
     (if \<not> path_is_absolute (path_components raw)
      then Inl (InvalidRule (lit ''host_executable paths must be absolute (got '' @ raw @ lit '')''))
      else (case from_absolute_path env raw of
              Inl e \<Rightarrow> Inl (InvalidRule (lit ''invalid absolute path '' @ [96] @ raw @ [96] @ lit '': '' @ show_io e))
            | Inr p \<Rightarrow> Inr p))"

definition validate_host_executable_name :: "rstring \<Rightarrow> ('s, 'l) exec_error option" where
  "validate_host_executable_name name =
     (if name = [] then Some (InvalidRule (lit ''host_executable name cannot be empty''))
      else if length (path_components name) \<noteq> 1 \<or> path_file_name (path_components name) \<noteq> Some name
        then Some (InvalidRule (lit ''host_executable name must be a bare executable name (got '' @ name @ lit '')''))
      else None)"

definition parse_network_rule_decision :: "rstring \<Rightarrow> ('s, 'l) exec_error + decision" where
  "parse_network_rule_decision raw = (if raw = lit ''deny'' then Inr Forbidden else decision_parse raw)"


section \<open>The builder\<close>

record 'l pending_example_validation =
  pending_rules :: "prefix_rule list"
  pending_matches :: "rstring list list"
  pending_not_matches :: "rstring list list"
  pending_location :: "'l option"

record ('m, 'l) policy_builder =
  b_rules_by_program :: 'm
  b_network_rules :: "network_rule list"
  b_host_executables :: "rstring \<rightharpoonup> path list"
  b_pending :: "'l pending_example_validation list"

definition builder_new :: "'m multimap_ops \<Rightarrow> ('m, 'l) policy_builder" where
  "builder_new mm =
     \<lparr>b_rules_by_program = mm_new mm, b_network_rules = [], b_host_executables = Map.empty, b_pending = []\<rparr>"

definition builder_add_rule ::
  "'m multimap_ops \<Rightarrow> prefix_rule \<Rightarrow> ('m, 'l) policy_builder \<Rightarrow> ('m, 'l) policy_builder" where
  "builder_add_rule mm r b =
     b\<lparr>b_rules_by_program := mm_insert mm (b_rules_by_program b) (rule_program r) r\<rparr>"

definition builder_add_network_rule ::
  "network_rule \<Rightarrow> ('m, 'l) policy_builder \<Rightarrow> ('m, 'l) policy_builder" where
  "builder_add_network_rule r b = b\<lparr>b_network_rules := b_network_rules b @ [r]\<rparr>"

definition builder_add_host_executable ::
  "rstring \<Rightarrow> path list \<Rightarrow> ('m, 'l) policy_builder \<Rightarrow> ('m, 'l) policy_builder" where
  "builder_add_host_executable name paths b =
     b\<lparr>b_host_executables := (b_host_executables b)(name \<mapsto> paths)\<rparr>"

definition add_pending_example_validation ::
  "'l pending_example_validation \<Rightarrow> ('m, 'l) policy_builder \<Rightarrow> ('m, 'l) policy_builder" where
  "add_pending_example_validation v b = b\<lparr>b_pending := b_pending b @ [v]\<rparr>"

definition builder_build :: "('m, 'l) policy_builder \<Rightarrow> 'm policy" where
  "builder_build b = policy_from_parts (b_rules_by_program b) (b_network_rules b) (b_host_executables b)"


section \<open>Examples\<close>

definition resolving_options :: match_options where
  "resolving_options = \<lparr>resolve_host_executables = True\<rparr>"

definition validate_match_examples ::
  "'m multimap_ops \<Rightarrow> 'e path_env \<Rightarrow> 'm policy \<Rightarrow> prefix_rule list \<Rightarrow> rstring list list \<Rightarrow>
   ('s, 'l) exec_error option" where
  "validate_match_examples mm env p rules examples =
     (let unmatched = filter (\<lambda>ex. matches_for_command_with_options mm env p ex None resolving_options = []) examples in
      if unmatched = [] then None else Some (ExampleDidNotMatch rules unmatched None))"

fun validate_not_match_examples ::
  "'m multimap_ops \<Rightarrow> 'e path_env \<Rightarrow> 'm policy \<Rightarrow> rstring list list \<Rightarrow> ('s, 'l) exec_error option" where
  "validate_not_match_examples mm env p [] = None"
| "validate_not_match_examples mm env p (ex # exs) =
     (case first_opt (matches_for_command_with_options mm env p ex None resolving_options) of
        Some rule \<Rightarrow> Some (ExampleDidMatch rule ex None)
      | None \<Rightarrow> validate_not_match_examples mm env p exs)"

definition attach_validation_location ::
  "('s, 'l) exec_error \<Rightarrow> 'l option \<Rightarrow> ('s, 'l) exec_error" where
  "attach_validation_location e loc = (case loc of Some l \<Rightarrow> with_location e l | None \<Rightarrow> e)"

definition validation_policy ::
  "'m multimap_ops \<Rightarrow> (rstring \<rightharpoonup> path list) \<Rightarrow> prefix_rule list \<Rightarrow> 'm policy" where
  "validation_policy mm hosts rules =
     policy_from_parts (fold (\<lambda>r m. mm_insert mm m (rule_program r) r) rules (mm_new mm)) [] hosts"

definition validate_one ::
  "'m multimap_ops \<Rightarrow> 'e path_env \<Rightarrow> (rstring \<rightharpoonup> path list) \<Rightarrow> 'l pending_example_validation \<Rightarrow>
   ('s, 'l) exec_error option" where
  "validate_one mm env hosts v =
     (let p = validation_policy mm hosts (pending_rules v);
          locate = map_option (\<lambda>e. attach_validation_location e (pending_location v)) in
      case locate (validate_not_match_examples mm env p (pending_not_matches v)) of
        Some e \<Rightarrow> Some e
      | None \<Rightarrow> locate (validate_match_examples mm env p (pending_rules v) (pending_matches v)))"

fun validate_all ::
  "'m multimap_ops \<Rightarrow> 'e path_env \<Rightarrow> (rstring \<rightharpoonup> path list) \<Rightarrow> 'l pending_example_validation list \<Rightarrow>
   ('s, 'l) exec_error option" where
  "validate_all mm env hosts [] = None"
| "validate_all mm env hosts (v # vs) =
     (case validate_one mm env hosts v of Some e \<Rightarrow> Some e | None \<Rightarrow> validate_all mm env hosts vs)"

definition validate_pending_examples_from ::
  "'m multimap_ops \<Rightarrow> 'e path_env \<Rightarrow> ('m, 'l) policy_builder \<Rightarrow> nat \<Rightarrow> ('s, 'l) exec_error option" where
  "validate_pending_examples_from mm env b start =
     validate_all mm env (b_host_executables b) (drop start (b_pending b))"


section \<open>The built-ins and the parser\<close>

definition check_justification :: "rstring option \<Rightarrow> ('s, 'l) exec_error option" where
  "check_justification j =
     (if blank_justification j then Some (InvalidRule (lit ''justification cannot be empty'')) else None)"

definition head_rules ::
  "pattern_token list \<Rightarrow> decision \<Rightarrow> rstring option \<Rightarrow> prefix_rule list" where
  "head_rules tokens d j =
     (case tokens of
        [] \<Rightarrow> []
      | first_token # rest \<Rightarrow>
          map (\<lambda>head. \<lparr>rule_pattern = \<lparr>pat_first = head, pat_rest = rest\<rparr>,
                       rule_decision = d, rule_justification = j\<rparr>) (alternatives first_token))"

datatype 'l builtin_call =
    PrefixRuleCall "starlark_value list" "rstring option" "starlark_value list option"
      "starlark_value list option" "rstring option" "'l option"
  | NetworkRuleCall rstring rstring rstring "rstring option"
  | HostExecutableCall rstring "starlark_value list"

definition builtin_prefix_rule ::
  "'m multimap_ops \<Rightarrow> (rstring \<Rightarrow> rstring list option) \<Rightarrow> starlark_value list \<Rightarrow> rstring option \<Rightarrow>
   starlark_value list option \<Rightarrow> starlark_value list option \<Rightarrow> rstring option \<Rightarrow> 'l option \<Rightarrow>
   ('m, 'l) policy_builder \<Rightarrow> ('s, 'l) exec_error + ('m, 'l) policy_builder" where
  "builtin_prefix_rule mm shlex_split pattern d match not_match j location b =
     (case (case d of Some raw \<Rightarrow> decision_parse raw | None \<Rightarrow> Inr Allow) of
        Inl e \<Rightarrow> Inl e
      | Inr d' \<Rightarrow>
          (case check_justification j of
             Some e \<Rightarrow> Inl e
           | None \<Rightarrow>
               (case parse_pattern pattern of
                  Inl e \<Rightarrow> Inl e
                | Inr tokens \<Rightarrow>
                    (case parse_optional_examples shlex_split match of
                       Inl e \<Rightarrow> Inl e
                     | Inr matches \<Rightarrow>
                         (case parse_optional_examples shlex_split not_match of
                            Inl e \<Rightarrow> Inl e
                          | Inr not_matches \<Rightarrow>
                              (let rules = head_rules tokens d' j in
                               Inr (fold (builder_add_rule mm) rules
                                 (add_pending_example_validation
                                   \<lparr>pending_rules = rules, pending_matches = matches,
                                    pending_not_matches = not_matches, pending_location = location\<rparr> b))))))))"

definition builtin_network_rule ::
  "rstring \<Rightarrow> rstring \<Rightarrow> rstring \<Rightarrow> rstring option \<Rightarrow>
   ('m, 'l) policy_builder \<Rightarrow> ('s, 'l) exec_error + ('m, 'l) policy_builder" where
  "builtin_network_rule host protocol d j b =
     (case protocol_parse protocol of
        Inl e \<Rightarrow> Inl e
      | Inr protocol' \<Rightarrow>
          (case parse_network_rule_decision d of
             Inl e \<Rightarrow> Inl e
           | Inr d' \<Rightarrow>
               (case check_justification j of
                  Some e \<Rightarrow> Inl e
                | None \<Rightarrow>
                    (case normalize_network_rule_host host of
                       Inl e \<Rightarrow> Inl e
                     | Inr host' \<Rightarrow>
                         Inr (builder_add_network_rule
                           \<lparr>net_host = host', net_protocol = protocol', net_decision = d',
                            net_justification = j\<rparr> b)))))"

fun parse_host_paths ::
  "'e path_env \<Rightarrow> ('e \<Rightarrow> rstring) \<Rightarrow> rstring \<Rightarrow> starlark_value list \<Rightarrow> path list \<Rightarrow>
   ('s, 'l) exec_error + path list" where
  "parse_host_paths env show_io name [] parsed = Inr parsed"
| "parse_host_paths env show_io name (v # vs) parsed =
     (case unpack_str_or (\<lambda>t. InvalidRule (lit ''host_executable paths must be strings (got '' @ t @ lit '')'')) v of
        Inl e \<Rightarrow> Inl e
      | Inr raw \<Rightarrow>
          (case parse_literal_absolute_path env show_io raw of
             Inl e \<Rightarrow> Inl e
           | Inr p \<Rightarrow>
               if executable_path_lookup_key p \<noteq> Some (executable_lookup_key name)
               then Inl (InvalidRule (lit ''host_executable path '' @ [96] @ raw @ [96] @
                 lit '' must have basename '' @ [96] @ name @ [96]))
               else parse_host_paths env show_io name vs
                 (if list_ex (\<lambda>existing. existing = p) parsed then parsed else parsed @ [p])))"

definition builtin_host_executable ::
  "'e path_env \<Rightarrow> ('e \<Rightarrow> rstring) \<Rightarrow> rstring \<Rightarrow> starlark_value list \<Rightarrow>
   ('m, 'l) policy_builder \<Rightarrow> ('s, 'l) exec_error + ('m, 'l) policy_builder" where
  "builtin_host_executable env show_io name paths b =
     (case validate_host_executable_name name of
        Some e \<Rightarrow> Inl e
      | None \<Rightarrow>
          (case parse_host_paths env show_io name paths [] of
             Inl e \<Rightarrow> Inl e
           | Inr parsed \<Rightarrow> Inr (builder_add_host_executable (executable_lookup_key name) parsed b)))"

record ('e, 's, 'l) parser_env =
  penv_paths :: "'e path_env"
  penv_show_io :: "'e \<Rightarrow> rstring"
  penv_shlex_split :: "rstring \<Rightarrow> rstring list option"
  penv_evaluate :: "rstring \<Rightarrow> rstring \<Rightarrow> 's + 'l builtin_call list \<times> 's option"
  penv_wrap :: "('s, 'l) exec_error \<Rightarrow> 's"

fun run_builtin ::
  "'m multimap_ops \<Rightarrow> ('e, 's, 'l) parser_env \<Rightarrow> 'l builtin_call \<Rightarrow> ('m, 'l) policy_builder \<Rightarrow>
   ('s, 'l) exec_error + ('m, 'l) policy_builder" where
  "run_builtin mm pe (PrefixRuleCall pattern d match not_match j location) b =
     builtin_prefix_rule mm (penv_shlex_split pe) pattern d match not_match j location b"
| "run_builtin mm pe (NetworkRuleCall host protocol d j) b = builtin_network_rule host protocol d j b"
| "run_builtin mm pe (HostExecutableCall name paths) b =
     builtin_host_executable (penv_paths pe) (penv_show_io pe) name paths b"

fun run_builtins ::
  "'m multimap_ops \<Rightarrow> ('e, 's, 'l) parser_env \<Rightarrow> 'l builtin_call list \<Rightarrow> ('m, 'l) policy_builder \<Rightarrow>
   ('s, 'l) exec_error option \<times> ('m, 'l) policy_builder" where
  "run_builtins mm pe [] b = (None, b)"
| "run_builtins mm pe (c # cs) b =
     (case run_builtin mm pe c b of
        Inl e \<Rightarrow> (Some e, b)
      | Inr b' \<Rightarrow> run_builtins mm pe cs b')"

definition policy_parse ::
  "'m multimap_ops \<Rightarrow> ('e, 's, 'l) parser_env \<Rightarrow> rstring \<Rightarrow> rstring \<Rightarrow> ('m, 'l) policy_builder \<Rightarrow>
   ('s, 'l) exec_error option \<times> ('m, 'l) policy_builder" where
  "policy_parse mm pe policy_identifier contents b =
     (let pending_validation_count = length (b_pending b) in
      case penv_evaluate pe policy_identifier contents of
        Inl s \<Rightarrow> (Some (Starlark s), b)
      | Inr (calls, failure) \<Rightarrow>
          (case run_builtins mm pe calls b of
             (Some e, b') \<Rightarrow> (Some (Starlark (penv_wrap pe e)), b')
           | (None, b') \<Rightarrow>
               (case failure of
                  Some s \<Rightarrow> (Some (Starlark s), b')
                | None \<Rightarrow>
                    (validate_pending_examples_from mm (penv_paths pe) b' pending_validation_count, b'))))"

section \<open>Rules of a pattern\<close>

lemma token_matches_alternatives: "token_matches t x \<longleftrightarrow> x \<in> set (alternatives t)"
  by (cases t) (auto simp: list_ex_iff)

lemma head_rules_match:
  assumes "tokens \<noteq> []"
  shows "(\<exists>r \<in> set (head_rules tokens d j). rule_matches r cmd \<noteq> None) \<longleftrightarrow>
    (\<exists>args rest. cmd = args @ rest \<and> list_all2 token_matches tokens args)" (is "?l \<longleftrightarrow> ?r")
proof
  obtain t ts where tokens: "tokens = t # ts" using assms by (cases tokens) auto
  {
    assume ?l
    then obtain h m where h: "h \<in> set (alternatives t)"
      and "matches_prefix \<lparr>pat_first = h, pat_rest = ts\<rparr> cmd = Some m"
      by (auto simp: tokens head_rules_def rule_matches_def)
    then obtain args rest where cmd: "cmd = h # args @ rest" and "list_all2 token_matches ts args"
      by (auto simp: matches_prefix_Some_iff)
    with h have "list_all2 token_matches tokens (h # args)"
      by (simp add: tokens token_matches_alternatives)
    with cmd show ?r by (intro exI [of _ "h # args"] exI [of _ rest]) simp
  }
  {
    assume ?r
    then obtain h args rest where cmd: "cmd = h # args @ rest" and h: "token_matches t h"
      and l2: "list_all2 token_matches ts args"
      by (auto simp: tokens list_all2_Cons1)
    let ?rule = "\<lparr>rule_pattern = \<lparr>pat_first = h, pat_rest = ts\<rparr>, rule_decision = d, rule_justification = j\<rparr>"
    have "matches_prefix \<lparr>pat_first = h, pat_rest = ts\<rparr> cmd = Some (h # args)"
      using cmd l2 by (auto simp: matches_prefix_Some_iff)
    then have "rule_matches ?rule cmd \<noteq> None" by (simp add: rule_matches_def)
    moreover have "?rule \<in> set (head_rules tokens d j)"
      using h by (simp add: tokens head_rules_def token_matches_alternatives)
    ultimately show ?l by blast
  }
qed


section \<open>Validated examples\<close>

lemma bucket_insert_rules:
  "multimap_laws mm \<Longrightarrow>
     bucket mm (fold (\<lambda>r m. mm_insert mm m (rule_program r) r) rules m) k =
     bucket mm m k @ filter (\<lambda>r. rule_program r = k) rules"
  by (induction rules arbitrary: m) (auto simp: bucket_insert)

lemma validation_policy_bucket:
  "multimap_laws mm \<Longrightarrow>
     bucket mm (rules_by_program (validation_policy mm hosts rules)) k = filter (\<lambda>r. rule_program r = k) rules"
  by (simp add: validation_policy_def policy_from_parts_def bucket_insert_rules multimap_lawsD(1))

lemma map_filter_Nil_iff: "List.map_filter f xs = [] \<longleftrightarrow> (\<forall>x \<in> set xs. f x = None)"
  by (auto simp: List.map_filter_def filter_empty_conv)

text \<open>
  When a rule covers a command: it matches the words, or the first word is a path to a program whose basename the rule
  matches in its place; if paths are registered for that basename the program must be one of them.
\<close>

definition rule_covers :: "'e path_env \<Rightarrow> (rstring \<rightharpoonup> path list) \<Rightarrow> rstring list \<Rightarrow> prefix_rule \<Rightarrow> bool" where
  "rule_covers env hosts cmd r \<longleftrightarrow>
     rule_matches r cmd \<noteq> None \<or>
     (case cmd of
        [] \<Rightarrow> False
      | first # args \<Rightarrow>
          (case from_absolute_path env first of
             Inl _ \<Rightarrow> False
           | Inr program \<Rightarrow>
               (case executable_path_lookup_key program of
                  None \<Rightarrow> False
                | Some basename \<Rightarrow>
                    (case hosts basename of Some paths \<Rightarrow> program \<in> set paths | None \<Rightarrow> True) \<and>
                    rule_matches r (basename # args) \<noteq> None)))"

lemma bucket_matches:
  assumes "multimap_laws mm"
  shows "List.map_filter (\<lambda>r. rule_matches r (c # args)) (bucket mm (rules_by_program (validation_policy mm hosts rules)) c) = [] \<longleftrightarrow>
    (\<forall>r\<in>set rules. rule_matches r (c # args) = None)"
  using prefix_rules.other_program_no_match
  by (fastforce simp: validation_policy_bucket [OF assms] map_filter_Nil_iff)

lemma validation_policy_hosts: "host_executables_by_name (validation_policy mm hosts rules) = hosts"
  by (simp add: validation_policy_def policy_from_parts_def)

lemma host_matches:
  assumes "multimap_laws mm" and "from_absolute_path env first = Inr program"
    and "executable_path_lookup_key program = Some basename"
  shows "match_host_executable_rules mm env (validation_policy mm hosts rules) (first # args) = [] \<longleftrightarrow>
    \<not> ((case hosts basename of Some paths \<Rightarrow> program \<in> set paths | None \<Rightarrow> True) \<and>
       (\<exists>r\<in>set rules. rule_matches r (basename # args) \<noteq> None))"
proof -
  let ?p = "validation_policy mm hosts rules"
  have "match_host_executable_rules mm env ?p (first # args) =
      (if (case hosts basename of Some paths \<Rightarrow> program \<in> set paths | None \<Rightarrow> True)
       then map (with_resolved_program program)
         (List.map_filter (\<lambda>r. rule_matches r (basename # args)) (bucket mm (rules_by_program ?p) basename))
       else [])"
    by (simp add: match_host_executable_rules_def first_opt_def assms(2,3) validation_policy_hosts
        list_ex_iff map_filter_simps split: option.splits)
  then show ?thesis using bucket_matches [OF assms(1), of basename args hosts rules] by auto
qed

lemma example_matches_iff:
  assumes "multimap_laws mm"
  shows "matches_for_command_with_options mm env (validation_policy mm hosts rules) ex None resolving_options = [] \<longleftrightarrow>
    \<not> (\<exists>r\<in>set rules. rule_covers env hosts ex r)"
proof (cases ex)
  case Nil
  have "rule_matches r [] = None" for r
    using prefix_rules.matches_program [of r "[]"] by (cases "rule_matches r []") auto
  with Nil show ?thesis
    by (simp add: matches_for_command_with_options_def match_exact_rules_def match_host_executable_rules_def
        first_opt_def rule_covers_def)
next
  case (Cons first args)
  let ?p = "validation_policy mm hosts rules"
  have eq: "matches_for_command_with_options mm env ?p ex None resolving_options = [] \<longleftrightarrow>
      (\<forall>r\<in>set rules. rule_matches r (first # args) = None) \<and> match_host_executable_rules mm env ?p (first # args) = []"
    using bucket_matches [OF assms, of first args hosts rules]
    by (auto simp: matches_for_command_with_options_def Let_def Cons match_exact_rules_bucket resolving_options_def)
  show ?thesis
  proof (cases "\<exists>program basename. from_absolute_path env first = Inr program \<and> executable_path_lookup_key program = Some basename")
    case True
    then obtain program basename where h: "from_absolute_path env first = Inr program"
      "executable_path_lookup_key program = Some basename" by blast
    show ?thesis unfolding eq host_matches [OF assms h] by (auto simp: rule_covers_def Cons h split: option.splits)
  next
    case False
    then have "match_host_executable_rules mm env ?p (first # args) = []"
      by (auto simp: match_host_executable_rules_def first_opt_def split: sum.splits option.splits)
    moreover have "rule_covers env hosts ex r \<longleftrightarrow> rule_matches r (first # args) \<noteq> None" for r
      using False by (auto simp: rule_covers_def Cons split: sum.splits option.splits)
    ultimately show ?thesis unfolding eq by blast
  qed
qed

lemma validate_not_match_None:
  "validate_not_match_examples mm env p exs = None \<Longrightarrow> ex \<in> set exs \<Longrightarrow>
     matches_for_command_with_options mm env p ex None resolving_options = []"
  by (induction exs) (auto simp: first_opt_def split: option.splits list.splits)

lemma validate_match_None:
  "validate_match_examples mm env p rules exs = None \<Longrightarrow> ex \<in> set exs \<Longrightarrow>
     matches_for_command_with_options mm env p ex None resolving_options \<noteq> []"
  by (auto simp: validate_match_examples_def Let_def filter_empty_conv split: if_splits)

lemma validate_all_None:
  "validate_all mm env hosts vs = (None :: ('s, 'l) exec_error option) \<Longrightarrow> v \<in> set vs \<Longrightarrow>
     validate_one mm env hosts v = (None :: ('s, 'l) exec_error option)"
  by (induction vs) (auto split: option.splits)

lemma validate_one_None:
  assumes "validate_one mm env hosts v = (None :: ('s, 'l) exec_error option)"
  shows "validate_not_match_examples mm env (validation_policy mm hosts (pending_rules v)) (pending_not_matches v) =
      (None :: ('s, 'l) exec_error option)"
    and "validate_match_examples mm env (validation_policy mm hosts (pending_rules v)) (pending_rules v)
      (pending_matches v) = (None :: ('s, 'l) exec_error option)"
  using assms by (auto simp: validate_one_def Let_def split: option.splits)


section \<open>The builder invariant\<close>

text \<open>
  Rules are indexed by their program, hosts are normal, and registered paths are distinct,
  absolute and end in the name they are registered for.
\<close>

definition builder_inv :: "'m multimap_ops \<Rightarrow> ('m, 'l) policy_builder \<Rightarrow> bool" where
  "builder_inv mm b \<longleftrightarrow>
     policy_indexed mm (builder_build b) \<and>
     list_all (\<lambda>r. net_host r \<noteq> [] \<and> to_ascii_lowercase (net_host r) = net_host r \<and>
       list_all (\<lambda>c. \<not> is_whitespace c \<and> c \<notin> {42, 47, 63, 35}) (net_host r)) (b_network_rules b) \<and>
     (\<forall>name paths. b_host_executables b name = Some paths \<longrightarrow>
        distinct paths \<and> list_all (\<lambda>p. absolute_normal p \<and> path_file_name p = Some name) paths)"

lemma builder_inv_new: "multimap_laws mm \<Longrightarrow> builder_inv mm (builder_new mm)"
  by (simp add: builder_inv_def builder_new_def builder_build_def policy_from_parts_def
      policy_indexed_def multimap_lawsD)

lemma builder_add_rule_inv:
  "multimap_laws mm \<Longrightarrow> builder_inv mm b \<Longrightarrow> builder_inv mm (builder_add_rule mm r b)"
  by (simp add: builder_inv_def builder_add_rule_def builder_build_def policy_from_parts_def
      policy_indexed_def bucket_insert)

lemma builder_add_rules_inv:
  "multimap_laws mm \<Longrightarrow> builder_inv mm b \<Longrightarrow> builder_inv mm (fold (builder_add_rule mm) rs b)"
  by (induction rs arbitrary: b) (simp_all add: builder_add_rule_inv)

lemma builder_pending_inv:
  "builder_inv mm (add_pending_example_validation v b) = builder_inv mm b"
  by (simp add: builder_inv_def add_pending_example_validation_def builder_build_def)

lemma root_not_segment: "RootDir \<notin> set (segment_component s)"
  by simp

lemma absolute_components_start:
  assumes "path_is_absolute (path_components raw)"
  shows "starts_with [47] raw"
proof (rule ccontr)
  assume no: "\<not> starts_with [47] raw"
  have "RootDir \<in> set (path_components raw)" using assms by (auto simp: path_is_absolute_iff)
  with no show False
    using root_not_segment by (simp add: path_components_def Let_def del: segment_component.simps split: if_splits)
qed

lemma parse_literal_absolute_path_normal:
  assumes "parse_literal_absolute_path env show_io raw = Inr p"
  shows "absolute_normal p"
proof -
  have abs: "path_is_absolute (path_components raw)" and p: "from_absolute_path env raw = Inr p"
    using assms by (auto simp: parse_literal_absolute_path_def split: if_splits sum.splits)
  have "maybe_expand_home_directory (home_dir env) raw = path_components raw"
    using absolute_components_start [OF abs]
    by (auto simp: maybe_expand_home_directory_def starts_with_def strip_prefix_Some_iff split: option.splits)
  with abs p show ?thesis by (auto simp: from_absolute_path_def absolutize_def intro: normalize_path_absolute)
qed

lemma parse_host_paths_inv:
  "parse_host_paths env show_io name vs parsed = (Inr ps :: ('s, 'l) exec_error + path list) \<Longrightarrow>
     distinct parsed \<and> list_all (\<lambda>p. absolute_normal p \<and> path_file_name p = Some name) parsed \<Longrightarrow>
     distinct ps \<and> list_all (\<lambda>p. absolute_normal p \<and> path_file_name p = Some name) ps"
proof (induction vs arbitrary: parsed)
  case (Cons v vs)
  from Cons.prems(1) obtain raw p where
    p: "parse_literal_absolute_path env show_io raw = (Inr p :: ('s, 'l) exec_error + path)"
    "path_file_name p = Some name"
    "parse_host_paths env show_io name vs (if list_ex (\<lambda>q. q = p) parsed then parsed else parsed @ [p]) =
      (Inr ps :: ('s, 'l) exec_error + path list)"
    by (fastforce simp: executable_path_lookup_key_def executable_lookup_key_def split: sum.splits if_split_asm)
  show ?case
    using Cons.prems(2) p(2) parse_literal_absolute_path_normal [OF p(1)]
    by (intro Cons.IH [OF p(3)]) (auto simp: list_ex_iff)
qed simp

lemma run_builtin_inv:
  fixes pe :: "('e, 's, 'l) parser_env"
  assumes "multimap_laws mm" and "builder_inv mm b" and "run_builtin mm pe c b = Inr b'"
  shows "builder_inv mm b'"
proof (cases c)
  case (PrefixRuleCall pattern d match not_match j location)
  with assms show ?thesis
    by (auto simp: builtin_prefix_rule_def Let_def builder_pending_inv
        intro!: builder_add_rules_inv split: sum.splits option.splits)
next
  case (NetworkRuleCall host protocol d j)
  with assms(3) obtain r where "b' = builder_add_network_rule r b"
    and "normalize_network_rule_host host = (Inr (net_host r) :: ('s, 'l) exec_error + rstring)"
    by (fastforce simp: builtin_network_rule_def split: sum.splits option.splits)
  with assms(2) normalize_host_chars [OF this(2)] show ?thesis
    by (simp add: builder_inv_def builder_add_network_rule_def builder_build_def policy_from_parts_def
        policy_indexed_def)
next
  case (HostExecutableCall name paths)
  with assms(3) obtain ps where "b' = builder_add_host_executable name ps b"
    and "parse_host_paths (penv_paths pe) (penv_show_io pe) name paths [] = (Inr ps :: ('s, 'l) exec_error + path list)"
    by (auto simp: builtin_host_executable_def executable_lookup_key_def split: sum.splits option.splits)
  with assms(2) parse_host_paths_inv [OF this(2)] show ?thesis
    by (simp add: builder_inv_def builder_add_host_executable_def builder_build_def policy_from_parts_def
        policy_indexed_def)
qed

lemma run_builtins_inv:
  "multimap_laws mm \<Longrightarrow> builder_inv mm b \<Longrightarrow> builder_inv mm (snd (run_builtins mm pe cs b))"
  by (induction cs arbitrary: b) (auto dest: run_builtin_inv split: sum.splits)

lemma policy_parse_inv:
  "multimap_laws mm \<Longrightarrow> builder_inv mm b \<Longrightarrow> builder_inv mm (snd (policy_parse mm pe ident contents b))"
  using run_builtins_inv [of mm b pe]
  by (auto simp: policy_parse_def Let_def split: sum.splits prod.splits option.splits) (metis snd_conv)+

section \<open>Properties\<close>

text \<open>
  C26. A call of \<^verbatim>\<open>prefix_rule\<close> adds one rule per alternative of the first token, and together
  they match a command exactly when the command starts with one token from each position of
  the pattern; all of them carry the decision of the call.
\<close>

theorem prefix_rule_means_its_pattern:
  assumes "parse_pattern pattern = (Inr tokens :: ('s, 'l) exec_error + pattern_token list)"
  shows "((\<exists>r. r \<in> set (head_rules tokens d j) \<and> rule_matches r cmd \<noteq> None) \<longleftrightarrow>
      (\<exists>args rest. cmd = args @ rest \<and> list_all2 (\<lambda>t a. a \<in> set (alternatives t)) tokens args)) \<and>
    map rule_decision (head_rules tokens d j) = replicate (length (alternatives (hd tokens))) d"
proof -
  have ne: "tokens \<noteq> []" using assms by (auto simp: parse_pattern_def split: sum.splits if_splits)
  have tm: "token_matches = (\<lambda>t a. a \<in> set (alternatives t))"
    by (simp add: fun_eq_iff token_matches_alternatives)
  have "map rule_decision (head_rules tokens d j) = replicate (length (alternatives (hd tokens))) d"
    using ne by (cases tokens) (simp_all add: head_rules_def comp_def map_replicate_const)
  with head_rules_match [OF ne, of d j cmd] show ?thesis unfolding tm by blast
qed

theorem prefix_rule_means_its_pattern_witness:
  "\<exists>r. r \<in> set (head_rules [Alts [lit ''npm'', lit ''pnpm''], Single (lit ''test'')] Allow None) \<and>
     rule_matches r [lit ''pnpm'', lit ''test'', lit ''-v''] \<noteq> None"
proof -
  let ?ts = "[Alts [lit ''npm'', lit ''pnpm''], Single (lit ''test'')]"
  have p: "parse_pattern [VList [VString (lit ''npm''), VString (lit ''pnpm'')], VString (lit ''test'')] =
      (Inr ?ts :: (unit, unit) exec_error + pattern_token list)"
    by code_simp
  have "[lit ''pnpm'', lit ''test'', lit ''-v''] = [lit ''pnpm'', lit ''test''] @ [lit ''-v''] \<and>
      list_all2 (\<lambda>t a. a \<in> set (alternatives t)) ?ts [lit ''pnpm'', lit ''test'']"
    by simp
  then show ?thesis using prefix_rule_means_its_pattern [OF p] by blast
qed

text \<open>
  Whatever policy files are parsed, and whether or not they are accepted, the builder stays
  well formed: rules are indexed by their program, network hosts are lower case without
  wildcards, white space or URL syntax, and the registered paths of an executable are distinct,
  absolute, normal and end in its name.
\<close>

theorem policy_parse_keeps_invariant:
  assumes "multimap_laws mm" and "builder_inv mm b"
  shows "builder_inv mm (builder_new mm) \<and> builder_inv mm (snd (policy_parse mm pe ident contents b))"
  using assms by (simp add: builder_inv_new policy_parse_inv)

text \<open>A parser environment in which every file makes the same calls.\<close>

definition sample_calls :: "unit builtin_call list" where
  "sample_calls =
     [PrefixRuleCall [VString (lit ''git''), VList [VString (lit ''log''), VString (lit ''diff'')]] None
        (Some [VList [VString (lit ''git''), VString (lit ''log'')]])
        (Some [VList [VString (lit ''git''), VString (lit ''push'')]]) None None,
      NetworkRuleCall (lit '' Example.COM.:443'') (lit ''https'') (lit ''deny'') None,
      HostExecutableCall (lit ''git'') [VString (lit ''/usr/bin/git''), VString (lit ''/usr/./bin/git'')]]"

definition sample_parser_env :: "(unit, (unit, unit) exec_error option, unit) parser_env" where
  "sample_parser_env =
     \<lparr>penv_paths = sample_path_env, penv_show_io = (\<lambda>_. []), penv_shlex_split = (\<lambda>s. Some [s]),
      penv_evaluate = (\<lambda>ident contents. Inr (sample_calls, None)), penv_wrap = (\<lambda>e. None)\<rparr>"

definition sample_parse where
  "sample_parse = policy_parse alist_multimap sample_parser_env [] [] (builder_new alist_multimap)"

lemma sample_parse_ok: "fst sample_parse = None" "length (b_pending (snd sample_parse)) = 1"
  by code_simp+

theorem policy_parse_keeps_invariant_witness: "builder_inv alist_multimap (snd sample_parse)"
  unfolding sample_parse_def
  using policy_parse_keeps_invariant [OF alist_multimap_laws builder_inv_new [OF alist_multimap_laws]] by blast

text \<open>
  C27. When a policy file is accepted, the examples of its declarations hold: no rule of a declaration covers one of its
  negative examples, and every positive example is covered by one of its rules. A rule covers a command when it matches
  its words, or when the first word is the path of a program, the rule matches the command with the basename of that
  program in its place, and the program is one of the paths registered for the basename, if any are.
\<close>

theorem accepted_policy_meets_examples:
  assumes "multimap_laws mm"
    and "policy_parse mm pe ident contents b = ((None :: ('s, 'l) exec_error option), b')"
    and "v \<in> set (drop (length (b_pending b)) (b_pending b'))"
  shows "(\<forall>ex\<in>set (pending_not_matches v). \<forall>r\<in>set (pending_rules v).
       \<not> rule_covers (penv_paths pe) (b_host_executables b') ex r) \<and>
    (\<forall>ex\<in>set (pending_matches v). \<exists>r\<in>set (pending_rules v).
       rule_covers (penv_paths pe) (b_host_executables b') ex r)"
proof -
  have "validate_all mm (penv_paths pe) (b_host_executables b') (drop (length (b_pending b)) (b_pending b')) =
      (None :: ('s, 'l) exec_error option)"
    using assms(2) by (auto simp: policy_parse_def Let_def validate_pending_examples_from_def
        split: sum.splits prod.splits option.splits)
  then have v: "validate_one mm (penv_paths pe) (b_host_executables b') v = (None :: ('s, 'l) exec_error option)"
    using assms(3) by (rule validate_all_None)
  show ?thesis
    using validate_not_match_None [OF validate_one_None(1) [OF v]] validate_match_None [OF validate_one_None(2) [OF v]]
    unfolding example_matches_iff [OF assms(1)] by blast
qed

theorem accepted_policy_meets_examples_witness:
  "let v = hd (b_pending (snd sample_parse)); hosts = b_host_executables (snd sample_parse) in
   (\<forall>r\<in>set (pending_rules v). \<not> rule_covers sample_path_env hosts [lit ''git'', lit ''push''] r) \<and>
   (\<exists>r\<in>set (pending_rules v). rule_covers sample_path_env hosts [lit ''git'', lit ''log''] r)"
proof -
  have p: "policy_parse alist_multimap sample_parser_env [] [] (builder_new alist_multimap) = (None, snd sample_parse)"
    using sample_parse_ok(1) by (metis prod.collapse sample_parse_def)
  have "b_pending (snd sample_parse) \<noteq> []" using sample_parse_ok(2) by auto
  then have v: "hd (b_pending (snd sample_parse)) \<in>
      set (drop (length (b_pending (builder_new alist_multimap))) (b_pending (snd sample_parse)))"
    by (simp add: builder_new_def)
  have n: "[lit ''git'', lit ''push''] \<in> set (pending_not_matches (hd (b_pending (snd sample_parse))))"
    by code_simp
  have m: "[lit ''git'', lit ''log''] \<in> set (pending_matches (hd (b_pending (snd sample_parse))))"
    by code_simp
  have e: "penv_paths sample_parser_env = sample_path_env" by (simp add: sample_parser_env_def)
  from accepted_policy_meets_examples [OF alist_multimap_laws p v] n m show ?thesis
    unfolding Let_def e by blast
qed

end
