(* ===== verification/Policy_Amend.thy ===== *)
theory Policy_Amend
  imports Policy_Parser
begin

text \<open>
  \<^verbatim>\<open>codex-rs/execpolicy/src/amend.rs\<close>: appending a rule to a policy file, once.

  The operating system is a parameter: the operations below act on a world \<open>'w\<close> and fail with
  \<open>'e\<close>. \<^verbatim>\<open>serde_json::to_string\<close> is a parameter that may fail with \<open>'j\<close>.
\<close>

section \<open>Parameters and errors\<close>

record ('w, 'e) policy_file_ops =
  fs_create_dir :: "'w \<Rightarrow> path \<Rightarrow> 'e option \<times> 'w"
  fs_already_exists :: "'e \<Rightarrow> bool"
  fs_open :: "'w \<Rightarrow> path \<Rightarrow> 'e option \<times> 'w"
  fs_lock :: "'w \<Rightarrow> path \<Rightarrow> 'e option \<times> 'w"
  fs_seek_start :: "'w \<Rightarrow> path \<Rightarrow> 'e option \<times> 'w"
  fs_read_to_string :: "'w \<Rightarrow> path \<Rightarrow> 'e + rstring"
  fs_write_all :: "'w \<Rightarrow> path \<Rightarrow> rstring \<Rightarrow> 'e option \<times> 'w"

datatype ('e, 'j) amend_error =
    EmptyPrefix
  | InvalidNetworkRule rstring
  | MissingParent path
  | CreatePolicyDir path 'e
  | SerializePrefix 'j
  | SerializeNetworkRule 'j
  | OpenPolicyFile path 'e
  | WritePolicyFile path 'e
  | LockPolicyFile path 'e
  | SeekPolicyFile path 'e
  | ReadPolicyFile path 'e


section \<open>Operations\<close>

definition write_step ::
  "('w, 'e) policy_file_ops \<Rightarrow> path \<Rightarrow> rstring \<Rightarrow> 'w \<Rightarrow> ('e, 'j) amend_error option \<times> 'w" where
  "write_step ops policy_path bytes w =
     (case fs_write_all ops w policy_path bytes of
        (Some e, w') \<Rightarrow> (Some (WritePolicyFile policy_path e), w')
      | (None, w') \<Rightarrow> (None, w'))"

text \<open>The part of \<^verbatim>\<open>append_locked_line\<close> after the contents have been read.\<close>

definition append_missing_line ::
  "('w, 'e) policy_file_ops \<Rightarrow> path \<Rightarrow> rstring \<Rightarrow> rstring \<Rightarrow> 'w \<Rightarrow> ('e, 'j) amend_error option \<times> 'w" where
  "append_missing_line ops policy_path contents line w =
     (if list_ex (\<lambda>existing. existing = line) (str_lines contents) then (None, w)
      else
        (case (if contents \<noteq> [] \<and> \<not> ends_with [newline] contents
               then write_step ops policy_path [newline] w else (None, w)) of
           (Some e, w1) \<Rightarrow> (Some e, w1)
         | (None, w1) \<Rightarrow> write_step ops policy_path (line @ [newline]) w1))"

definition append_locked_line ::
  "('w, 'e) policy_file_ops \<Rightarrow> path \<Rightarrow> rstring \<Rightarrow> 'w \<Rightarrow> ('e, 'j) amend_error option \<times> 'w" where
  "append_locked_line ops policy_path line w =
     (case fs_open ops w policy_path of
        (Some e, w1) \<Rightarrow> (Some (OpenPolicyFile policy_path e), w1)
      | (None, w1) \<Rightarrow>
          (case fs_lock ops w1 policy_path of
             (Some e, w2) \<Rightarrow> (Some (LockPolicyFile policy_path e), w2)
           | (None, w2) \<Rightarrow>
               (case fs_seek_start ops w2 policy_path of
                  (Some e, w3) \<Rightarrow> (Some (SeekPolicyFile policy_path e), w3)
                | (None, w3) \<Rightarrow>
                    (case fs_read_to_string ops w3 policy_path of
                       Inl e \<Rightarrow> (Some (ReadPolicyFile policy_path e), w3)
                     | Inr contents \<Rightarrow> append_missing_line ops policy_path contents line w3))))"

definition append_rule_line ::
  "('w, 'e) policy_file_ops \<Rightarrow> path \<Rightarrow> rstring \<Rightarrow> 'w \<Rightarrow> ('e, 'j) amend_error option \<times> 'w" where
  "append_rule_line ops policy_path rule w =
     (case path_parent_dir policy_path of
        None \<Rightarrow> (Some (MissingParent policy_path), w)
      | Some dir \<Rightarrow>
          (case fs_create_dir ops w dir of
             (None, w1) \<Rightarrow> append_locked_line ops policy_path rule w1
           | (Some e, w1) \<Rightarrow>
               if fs_already_exists ops e then append_locked_line ops policy_path rule w1
               else (Some (CreatePolicyDir dir e), w1)))"

definition allow_prefix_rule_text :: "rstring list \<Rightarrow> rstring" where
  "allow_prefix_rule_text tokens =
     lit ''prefix_rule(pattern='' @ lit ''['' @ join (lit '', '') tokens @ lit '']'' @
     lit '', decision='' @ [34] @ lit ''allow'' @ [34] @ lit '')''"

definition blocking_append_allow_prefix_rule ::
  "('w, 'e) policy_file_ops \<Rightarrow> (rstring \<Rightarrow> 'j + rstring) \<Rightarrow> path \<Rightarrow> rstring list \<Rightarrow> 'w \<Rightarrow>
   ('e, 'j) amend_error option \<times> 'w" where
  "blocking_append_allow_prefix_rule ops to_json policy_path tokens w =
     (if tokens = [] then (Some EmptyPrefix, w)
      else (case collect_results (map to_json tokens) of
              Inl source \<Rightarrow> (Some (SerializePrefix source), w)
            | Inr quoted \<Rightarrow> append_rule_line ops policy_path (allow_prefix_rule_text quoted) w))"

text \<open>The rendering of the errors that \<^verbatim>\<open>normalize_network_rule_host\<close> returns.\<close>

fun rule_error_message :: "(unit, unit) exec_error \<Rightarrow> rstring" where
  "rule_error_message (InvalidRule msg) = lit ''invalid rule: '' @ msg"
| "rule_error_message other = []"

fun network_decision_text :: "decision \<Rightarrow> rstring" where
  "network_decision_text Allow = lit ''allow''"
| "network_decision_text Prompt = lit ''prompt''"
| "network_decision_text Forbidden = lit ''deny''"

definition network_rule_fields ::
  "rstring \<Rightarrow> network_rule_protocol \<Rightarrow> decision \<Rightarrow> rstring option \<Rightarrow> (rstring \<times> rstring) list" where
  "network_rule_fields host protocol d justification =
     [(lit ''host='', host), (lit ''protocol='', as_policy_string protocol),
      (lit ''decision='', network_decision_text d)] @
     (case justification of Some j \<Rightarrow> [(lit ''justification='', j)] | None \<Rightarrow> [])"

definition blocking_append_network_rule ::
  "('w, 'e) policy_file_ops \<Rightarrow> (rstring \<Rightarrow> 'j + rstring) \<Rightarrow> path \<Rightarrow> rstring \<Rightarrow> network_rule_protocol \<Rightarrow>
   decision \<Rightarrow> rstring option \<Rightarrow> 'w \<Rightarrow> ('e, 'j) amend_error option \<times> 'w" where
  "blocking_append_network_rule ops to_json policy_path host protocol d justification w =
     (case normalize_network_rule_host host of
        Inl e \<Rightarrow> (Some (InvalidNetworkRule (rule_error_message e)), w)
      | Inr host' \<Rightarrow>
          if blank_justification justification
          then (Some (InvalidNetworkRule (lit ''justification cannot be empty'')), w)
          else
            (case collect_results (map (\<lambda>(name, v). map_sum id (\<lambda>q. name @ q) (to_json v))
                (network_rule_fields host' protocol d justification)) of
               Inl source \<Rightarrow> (Some (SerializeNetworkRule source), w)
             | Inr args \<Rightarrow>
                 append_rule_line ops policy_path
                   (lit ''network_rule('' @ join (lit '', '') args @ lit '')'') w))"


section \<open>What the file holds afterwards\<close>

text \<open>
  The behaviour of the operating system that appending relies on, for a view of a world as the
  text at each path: opening creates a missing file and keeps the others, reading is truthful,
  a successful write appends, and the rest changes no text.
\<close>

definition append_file :: "('w, 'e) policy_file_ops \<Rightarrow> ('w \<Rightarrow> path \<Rightarrow> rstring option) \<Rightarrow> bool" where
  "append_file ops text_at \<longleftrightarrow>
     (\<forall>w d r w'. fs_create_dir ops w d = (r, w') \<longrightarrow> text_at w' = text_at w) \<and>
     (\<forall>w p w'. fs_open ops w p = (None, w') \<longrightarrow>
        text_at w' = (text_at w)(p := Some (case text_at w p of Some c \<Rightarrow> c | None \<Rightarrow> []))) \<and>
     (\<forall>w p r w'. fs_lock ops w p = (r, w') \<longrightarrow> text_at w' = text_at w) \<and>
     (\<forall>w p r w'. fs_seek_start ops w p = (r, w') \<longrightarrow> text_at w' = text_at w) \<and>
     (\<forall>w p c. fs_read_to_string ops w p = Inr c \<longrightarrow> text_at w p = Some c) \<and>
     (\<forall>w p s c w'. fs_write_all ops w p s = (None, w') \<and> text_at w p = Some c \<longrightarrow>
        text_at w' = (text_at w)(p \<mapsto> c @ s))"

definition amended :: "rstring \<Rightarrow> rstring \<Rightarrow> rstring" where
  "amended contents line =
     (if line \<in> set (str_lines contents) then contents
      else contents @ (if contents \<noteq> [] \<and> \<not> ends_with [newline] contents then [newline] else []) @
        line @ [newline])"

lemma write_step_ok:
  assumes "append_file ops text_at" and "write_step ops p s w = (None, w')" and "text_at w p = Some c"
  shows "text_at w' = (text_at w)(p \<mapsto> c @ s)"
proof -
  have law: "fs_write_all ops w p s = (None, v) \<Longrightarrow> text_at w p = Some c \<Longrightarrow> text_at v = (text_at w)(p \<mapsto> c @ s)" for v
    using assms(1) unfolding append_file_def by blast
  from assms(2) have "fs_write_all ops w p s = (None, w')"
    by (auto simp: write_step_def split: prod.splits option.splits)
  with law assms(3) show ?thesis by blast
qed

lemma append_missing_line_ok:
  fixes ops :: "('w, 'e) policy_file_ops"
  assumes "append_file ops text_at"
    and "append_missing_line ops p contents line w = ((None, w') :: ('e, 'j) amend_error option \<times> 'w)"
    and "text_at w p = Some contents"
  shows "text_at w' = (text_at w)(p \<mapsto> amended contents line)"
proof (cases "line \<in> set (str_lines contents)")
  case True
  then have "w' = w" using assms(2) by (simp add: append_missing_line_def list_ex_iff split: if_splits)
  with True assms(3) show ?thesis by (simp add: amended_def fun_upd_idem)
next
  case new: False
  then have noex: "\<not> list_ex (\<lambda>existing. existing = line) (str_lines contents)" by (simp add: list_ex_iff)
  show ?thesis
  proof (cases "contents \<noteq> [] \<and> \<not> ends_with [newline] contents")
    case True
    let ?sep = "write_step ops p [newline] w :: ('e, 'j) amend_error option \<times> 'w"
    obtain r w1 where w1: "?sep = (r, w1)" by (cases ?sep)
    have r: "r = None" and w': "write_step ops p (line @ [newline]) w1 = ((None, w') :: ('e, 'j) amend_error option \<times> 'w)"
      using assms(2) True noex w1 by (auto simp: append_missing_line_def split: option.splits)
    have "text_at w1 = (text_at w)(p \<mapsto> contents @ [newline])"
      using write_step_ok [OF assms(1) w1 [unfolded r] assms(3)] .
    with write_step_ok [OF assms(1) w', of "contents @ [newline]"] new True show ?thesis
      by (simp add: amended_def)
  next
    case False
    then have "write_step ops p (line @ [newline]) w = ((None, w') :: ('e, 'j) amend_error option \<times> 'w)"
      using assms(2) noex by (auto simp: append_missing_line_def)
    from write_step_ok [OF assms(1) this assms(3)] new False show ?thesis by (auto simp: amended_def)
  qed
qed

lemma append_locked_line_ok:
  fixes ops :: "('w, 'e) policy_file_ops"
  assumes "append_file ops text_at"
    and "append_locked_line ops p line w = ((None, w') :: ('e, 'j) amend_error option \<times> 'w)"
  shows "text_at w' = (text_at w)(p \<mapsto> amended (case text_at w p of Some c \<Rightarrow> c | None \<Rightarrow> []) line)"
proof -
  from assms(2) obtain w1 w2 w3 contents where w1: "fs_open ops w p = (None, w1)"
    and w2: "fs_lock ops w1 p = (None, w2)" and w3: "fs_seek_start ops w2 p = (None, w3)"
    and rd: "fs_read_to_string ops w3 p = Inr contents"
    and ap: "append_missing_line ops p contents line w3 = ((None, w') :: ('e, 'j) amend_error option \<times> 'w)"
    by (auto simp: append_locked_line_def split: prod.splits option.splits sum.splits)
  let ?c = "case text_at w p of Some c \<Rightarrow> c | None \<Rightarrow> []"
  have t1: "text_at w1 = (text_at w)(p := Some ?c)" and t2: "text_at w2 = text_at w1"
    and t3: "text_at w3 = text_at w2" and "text_at w3 p = Some contents"
    using assms(1) w1 w2 w3 rd unfolding append_file_def by blast+
  then have "contents = ?c" by simp
  with append_missing_line_ok [OF assms(1) ap] t1 t2 t3 show ?thesis by simp
qed

section \<open>Lines of an amended file\<close>

lemma join_snoc_split:
  assumes "newline \<notin> set line" and "\<And>x. x \<in> set ps \<Longrightarrow> newline \<notin> set x"
  shows "split_on newline (join [newline] (ps @ [line, []])) = ps @ [line, []]"
  using assms by (intro split_on_join) auto

lemma butlast_pieces: "x \<in> set (butlast (split_on c s)) \<Longrightarrow> c \<notin> set x"
  by (meson in_set_butlastD split_on_pieces)

text \<open>A text by its pieces: the complete lines and what follows the last newline.\<close>

lemma split_pieces:
  obtains bs l where "split_on newline s = bs @ [l]" and "newline \<notin> set l"
    and "\<And>x. x \<in> set bs \<Longrightarrow> newline \<notin> set x" and "bs = [] \<Longrightarrow> s = l"
    and "bs \<noteq> [] \<Longrightarrow> s = join [newline] bs @ [newline] @ l"
proof -
  let ?bs = "butlast (split_on newline s)" and ?l = "last (split_on newline s)"
  have eq: "split_on newline s = ?bs @ [?l]" by simp
  have s: "join [newline] (?bs @ [?l]) = s" by simp
  show thesis
  proof (rule that [OF eq])
    show "newline \<notin> set ?l" using split_on_pieces [of ?l newline s] by simp
    show "newline \<notin> set x" if "x \<in> set ?bs" for x using that by (rule butlast_pieces)
    show "s = ?l" if "?bs = []" using s that by simp
    show "s = join [newline] ?bs @ [newline] @ ?l" if "?bs \<noteq> []"
      using s join_append [OF that, of "[?l]" "[newline]"] by simp
  qed
qed

lemma last_piece_empty_iff:
  "last (split_on newline s) = [] \<longleftrightarrow> s = [] \<or> ends_with [newline] s"
proof -
  obtain bs l where ps: "split_on newline s = bs @ [l]" and l: "newline \<notin> set l"
    and s: "bs = [] \<Longrightarrow> s = l" "bs \<noteq> [] \<Longrightarrow> s = join [newline] bs @ [newline] @ l"
    using split_pieces by blast
  show ?thesis
  proof (cases "bs = []")
    case True
    with s(1) ps l show ?thesis by (auto simp: ends_with_iff suffix_def)
  next
    case False
    from l s(2) [OF False] ps show ?thesis
      by (cases l rule: rev_cases) (auto simp: ends_with_iff suffix_def)
  qed
qed

lemma str_lines_amended:
  assumes "newline \<notin> set line" and "carriage_return \<notin> set line" and "c = [] \<or> last c \<noteq> carriage_return"
    and "line \<notin> set (str_lines c)"
  shows "str_lines (amended c line) = str_lines c @ [line]"
proof -
  obtain bs l where ps: "split_on newline c = bs @ [l]" and l: "newline \<notin> set l"
    and bs: "\<And>x. x \<in> set bs \<Longrightarrow> newline \<notin> set x"
    and c: "bs = [] \<Longrightarrow> c = l" "bs \<noteq> [] \<Longrightarrow> c = join [newline] bs @ [newline] @ l"
    using split_pieces by blast
  have cr: "strip_cr line = line" using assms(2) by (intro strip_cr_id) (auto dest: last_in_set)
  show ?thesis
  proof (cases "l = []")
    case True
    then have "c = [] \<or> ends_with [newline] c" using last_piece_empty_iff [of c] ps by simp
    then have "amended c line = c @ line @ [newline]" using assms(4) by (auto simp: amended_def)
    also have "\<dots> = join [newline] (bs @ [line, []])"
      using c True by (cases "bs = []") (simp_all add: join_append)
    finally have "split_on newline (amended c line) = bs @ [line, []]"
      using join_snoc_split [OF assms(1) bs] by simp
    then show ?thesis using ps True cr by (simp add: str_lines_def butlast_append)
  next
    case False
    then have "\<not> (c = [] \<or> ends_with [newline] c)" using last_piece_empty_iff [of c] ps by simp
    then have "amended c line = c @ [newline] @ line @ [newline]" using assms(4) by (auto simp: amended_def)
    also have "\<dots> = join [newline] ((bs @ [l]) @ [line, []])"
      using c by (cases "bs = []") (simp_all add: join_append)
    finally have "split_on newline (amended c line) = (bs @ [l]) @ [line, []]"
      using join_snoc_split [OF assms(1), of "bs @ [l]"] bs l by auto
    moreover have "last c = last l" using c False by (cases "bs = []") simp_all
    then have "strip_cr l = l" using assms(3) False c by (intro strip_cr_id) auto
    ultimately show ?thesis using ps False cr by (simp add: str_lines_def butlast_append)
  qed
qed


section \<open>Properties\<close>

text \<open>
  C28. Appending a rule keeps every line of the policy file and every other file, adds the rule as
  one line at the end unless the file already has it, and doing it again changes nothing.
\<close>

theorem append_rule_once:
  fixes ops :: "('w, 'e) policy_file_ops"
  assumes "append_file ops text_at"
    and "append_locked_line ops p line w = ((None, w') :: ('e, 'j) amend_error option \<times> 'w)"
    and "text_at w p = Some c" and "c = [] \<or> last c \<noteq> carriage_return"
    and "newline \<notin> set line" and "carriage_return \<notin> set line"
  shows "(\<exists>c'. text_at w' = (text_at w)(p \<mapsto> c') \<and>
      str_lines c' = (if line \<in> set (str_lines c) then str_lines c else str_lines c @ [line])) \<and>
    (\<forall>w''. append_locked_line ops p line w' = ((None, w'') :: ('e, 'j) amend_error option \<times> 'w) \<longrightarrow>
      text_at w'' = text_at w')"
proof -
  have w': "text_at w' = (text_at w)(p \<mapsto> amended c line)"
    using append_locked_line_ok [OF assms(1,2)] assms(3) by simp
  have lines: "str_lines (amended c line) = (if line \<in> set (str_lines c) then str_lines c else str_lines c @ [line])"
    using str_lines_amended [OF assms(5,6,4)] by (simp add: amended_def)
  then have "line \<in> set (str_lines (amended c line))" by simp
  then have again: "amended (amended c line) line = amended c line" by (simp add: amended_def)
  have "text_at w'' = text_at w'"
    if "append_locked_line ops p line w' = ((None, w'') :: ('e, 'j) amend_error option \<times> 'w)" for w''
    using append_locked_line_ok [OF assms(1) that] w' again by simp
  with w' lines show ?thesis by blast
qed

text \<open>Policy files in memory.\<close>

definition memory_policy_files :: "(path \<rightharpoonup> rstring, unit) policy_file_ops" where
  "memory_policy_files =
     \<lparr>fs_create_dir = (\<lambda>w d. (None, w)), fs_already_exists = (\<lambda>e. True),
      fs_open = (\<lambda>w p. (None, w(p := Some (case w p of Some c \<Rightarrow> c | None \<Rightarrow> [])))),
      fs_lock = (\<lambda>w p. (None, w)), fs_seek_start = (\<lambda>w p. (None, w)),
      fs_read_to_string = (\<lambda>w p. case w p of Some c \<Rightarrow> Inr c | None \<Rightarrow> Inl ()),
      fs_write_all = (\<lambda>w p s. (None, w(p := Some ((case w p of Some c \<Rightarrow> c | None \<Rightarrow> []) @ s))))\<rparr>"

lemma memory_policy_files_append: "append_file memory_policy_files (\<lambda>w. w)"
  by (auto simp: append_file_def memory_policy_files_def split: option.splits)

theorem append_rule_once_witness:
  "\<exists>c'. snd (append_locked_line memory_policy_files [Normal (lit ''p'')] (lit ''r'') [[Normal (lit ''p'')] \<mapsto> lit ''q'']
        :: (unit, unit) amend_error option \<times> (path \<rightharpoonup> rstring))
      [Normal (lit ''p'')] = Some c' \<and> str_lines c' = [lit ''q'', lit ''r'']"
proof -
  let ?w = "[[Normal (lit ''p'')] \<mapsto> lit ''q'']"
  let ?r = "append_locked_line memory_policy_files [Normal (lit ''p'')] (lit ''r'') ?w
    :: (unit, unit) amend_error option \<times> (path \<rightharpoonup> rstring)"
  have r: "?r = (None, snd ?r)"
    by (simp add: append_locked_line_def append_missing_line_def write_step_def memory_policy_files_def)
  have "newline \<notin> set (lit ''r'')" "carriage_return \<notin> set (lit ''r'')" "lit ''q'' = [] \<or> last (lit ''q'') \<noteq> carriage_return"
    "lit ''r'' \<notin> set (str_lines (lit ''q''))" "str_lines (lit ''q'') = [lit ''q'']"
    by code_simp+
  with append_rule_once [OF memory_policy_files_append r, of "lit ''q''"] show ?thesis
    by auto
qed

end
