(* ===== verification/Shell_Parse.thy ===== *)
theory Shell_Parse
  imports Absolute_Path "HOL-Library.Multiset"
begin

text \<open>
  \<^verbatim>\<open>codex-rs/shell-command/src\<close>: which shell a path names (\<^verbatim>\<open>shell_detect.rs\<close>) and what commands a
  shell script consists of (\<^verbatim>\<open>bash.rs\<close>).

  Tree-sitter is a parameter: a script is parsed to a syntax tree and whether it has an error.
  A node has the attributes the code reads; its text is \<open>None\<close> where \<^verbatim>\<open>utf8_text\<close> fails.
\<close>

section \<open>Detecting a shell\<close>

datatype shell_type = Zsh | Bash | PowerShellType | Sh | CmdType

fun shell_type_name :: "shell_type \<Rightarrow> rstring" where
  "shell_type_name Zsh = lit ''zsh''"
| "shell_type_name Bash = lit ''bash''"
| "shell_type_name PowerShellType = lit ''powershell''"
| "shell_type_name Sh = lit ''sh''"
| "shell_type_name CmdType = lit ''cmd''"

text \<open>\<^verbatim>\<open>Path::file_stem\<close>: the file name without its last extension; a leading dot is no extension.\<close>

definition path_file_stem :: "rstring \<Rightarrow> rstring option" where
  "path_file_stem s =
     map_option (\<lambda>file.
         case rsplit_once 46 file of
           Some (before, after) \<Rightarrow> if before = [] then file else before
         | None \<Rightarrow> file)
       (path_file_name (path_components s))"

definition known_shell :: "rstring \<Rightarrow> shell_type option" where
  "known_shell s =
     (if s = lit ''zsh'' then Some Zsh
      else if s = lit ''sh'' then Some Sh
      else if s = lit ''cmd'' then Some CmdType
      else if s = lit ''bash'' then Some Bash
      else if s = lit ''pwsh'' then Some PowerShellType
      else if s = lit ''powershell'' then Some PowerShellType
      else None)"

text \<open>The stem of a path is the path itself or a shorter string, so the recursion ends.\<close>

lemma split_on_length: "w \<in> set (split_on c s) \<Longrightarrow> length w \<le> length s"
proof (induction s arbitrary: w)
  case (Cons x s)
  then show ?case
    by (cases "split_on c s") (auto split: if_splits intro: le_SucI)
qed simp

lemma split_on_same_length: "w \<in> set (split_on c s) \<Longrightarrow> length w = length s \<Longrightarrow> w = s"
proof (induction s arbitrary: w)
  case (Cons x s)
  show ?case
  proof (cases "x = c")
    case True
    with Cons.prems show ?thesis using split_on_length [of w c s] by auto
  next
    case False
    obtain v vs where v: "split_on c s = v # vs" by (cases "split_on c s") auto
    have "w = x # v \<or> w \<in> set vs" using Cons.prems(1) False v by auto
    then show ?thesis
    proof
      assume "w = x # v"
      with Cons.IH [of v] Cons.prems(2) v show ?thesis by simp
    next
      assume "w \<in> set vs"
      then have "length w \<le> length s" using split_on_length [of w c s] v by simp
      with Cons.prems(2) show ?thesis by simp
    qed
  qed
qed simp

lemma path_file_name_segment:
  assumes "path_file_name (path_components s) = Some f"
  shows "f \<in> set (split_on 47 s)"
proof -
  have "Normal f \<in> set (path_components s)"
  proof -
    have "path_components s \<noteq> []" and "last (path_components s) = Normal f"
      using assms by (auto simp: path_file_name_def last_opt_def split: component.splits if_splits)
    then show ?thesis using last_in_set [of "path_components s"] by simp
  qed
  then obtain seg where "seg \<in> set (split_on 47 s)" "Normal f \<in> set (segment_component seg)"
    by (auto simp: path_components_def Let_def simp del: segment_component.simps split: if_splits)
  then show ?thesis by (simp split: if_splits)
qed

lemma rsplit_once_shorter: "rsplit_once c s = Some (a, b) \<Longrightarrow> length a < length s"
proof -
  assume "rsplit_once c s = Some (a, b)"
  then have so: "split_once c (rev s) = Some (rev b, rev a)" by (auto simp: rsplit_once_def)
  have "split_once c t = Some (x, y) \<Longrightarrow> length y < length t" for t x y
    by (induction t arbitrary: x) (auto split: if_splits)
  from this [OF so] show ?thesis by simp
qed

lemma path_file_stem_shorter:
  assumes "path_file_stem s = Some t" and "t \<noteq> s"
  shows "length t < length s"
proof -
  obtain f where f: "path_file_name (path_components s) = Some f"
    and t: "t = f \<or> length t < length f"
    using assms(1) by (auto simp: path_file_stem_def dest: rsplit_once_shorter split: option.splits if_splits)
  have "f \<in> set (split_on 47 s)" using f by (rule path_file_name_segment)
  then have "length f \<le> length s" "length f = length s \<Longrightarrow> f = s"
    by (auto dest: split_on_length split_on_same_length)
  with t assms(2) show ?thesis by (cases "length f = length s") auto
qed

function detect_shell_type :: "rstring \<Rightarrow> shell_type option" where
  "detect_shell_type shell_path =
     (case known_shell shell_path of
        Some t \<Rightarrow> Some t
      | None \<Rightarrow>
          (case path_file_stem shell_path of
             Some shell_name \<Rightarrow>
               if path_components shell_name \<noteq> path_components shell_path
               then detect_shell_type shell_name else None
           | None \<Rightarrow> None))"
  by pat_completeness auto

termination
  by (relation "measure length") (auto intro: path_file_stem_shorter)

declare detect_shell_type.simps [simp del]


section \<open>Syntax trees\<close>

datatype node =
  Node (node_kind: rstring) (is_named: bool) (start_byte: nat) (node_text: "rstring option")
    (node_children: "node list")

definition named_children :: "node \<Rightarrow> node list" where
  "named_children n = filter is_named (node_children n)"

type_synonym tree = "node \<times> bool"

lemma size_list_filter_le: "size_list size (filter P xs) \<le> size_list (size :: node \<Rightarrow> nat) xs"
  by (induction xs) auto

lemma size_list_rev [simp]: "size_list f (rev xs) = size_list f xs"
  by (simp add: size_list_conv_sum_list rev_map [symmetric])

lemma size_node_children: "size_list size (node_children n) < size n"
  by (cases n) simp

lemma size_named_child [termination_simp]: "c \<in> set (named_children n) \<Longrightarrow> size c < size n"
proof -
  assume "c \<in> set (named_children n)"
  then have "c \<in> set (node_children n)" by (simp add: named_children_def)
  then have "size c \<le> size_list size (node_children n)" by (rule size_list_estimation') simp
  with size_node_children [of n] show ?thesis by simp
qed

section \<open>Words of a command\<close>

definition first_named_child :: "node \<Rightarrow> node option" where
  "first_named_child n = first_opt (named_children n)"

definition is_literal_word_or_number :: "node \<Rightarrow> bool" where
  "is_literal_word_or_number n \<longleftrightarrow>
     node_kind n \<in> {lit ''word'', lit ''number''} \<and> named_children n = []"

definition strip_quotes :: "rchar \<Rightarrow> rstring \<Rightarrow> rstring option" where
  "strip_quotes q raw = Option.bind (strip_prefix [q] raw) (strip_suffix [q])"

definition parse_double_quoted_string :: "node \<Rightarrow> rstring option" where
  "parse_double_quoted_string n =
     (if node_kind n \<noteq> lit ''string'' then None
      else if \<not> list_all (\<lambda>part. node_kind part = lit ''string_content'') (named_children n) then None
      else Option.bind (node_text n) (strip_quotes 34))"

definition parse_raw_string :: "node \<Rightarrow> rstring option" where
  "parse_raw_string n =
     (if node_kind n \<noteq> lit ''raw_string'' then None else Option.bind (node_text n) (strip_quotes 39))"

definition concatenation_part :: "node \<Rightarrow> rstring option" where
  "concatenation_part part =
     (if node_kind part \<in> {lit ''word'', lit ''number''} then node_text part
      else if node_kind part = lit ''string'' then parse_double_quoted_string part
      else if node_kind part = lit ''raw_string'' then parse_raw_string part
      else None)"

definition nonempty_word :: "rstring \<Rightarrow> rstring option" where
  "nonempty_word w = (if w = [] then None else Some w)"

definition plain_word :: "node \<Rightarrow> rstring option" where
  "plain_word child =
     (if node_kind child = lit ''command_name'' then
        Option.bind (first_named_child child)
          (\<lambda>word_node. if node_kind word_node \<noteq> lit ''word'' then None else node_text word_node)
      else if node_kind child \<in> {lit ''word'', lit ''number''} then node_text child
      else if node_kind child = lit ''string'' then parse_double_quoted_string child
      else if node_kind child = lit ''raw_string'' then parse_raw_string child
      else if node_kind child = lit ''concatenation'' then
        Option.bind (those (map concatenation_part (named_children child))) (\<lambda>ps. nonempty_word (concat ps))
      else None)"

definition parse_plain_command_from_node :: "node \<Rightarrow> rstring list option" where
  "parse_plain_command_from_node cmd =
     (if node_kind cmd \<noteq> lit ''command'' then None else those (map plain_word (named_children cmd)))"

fun parse_literal_shell_word :: "node \<Rightarrow> rstring option" where
  "parse_literal_shell_word n =
     (if node_kind n \<in> {lit ''word'', lit ''number''} \<and> is_literal_word_or_number n then node_text n
      else if node_kind n = lit ''string'' then parse_double_quoted_string n
      else if node_kind n = lit ''raw_string'' then parse_raw_string n
      else if node_kind n = lit ''concatenation'' then
        Option.bind (those (map parse_literal_shell_word (named_children n))) (\<lambda>ps. nonempty_word (concat ps))
      else None)"

declare parse_literal_shell_word.simps [simp del]

fun literal_words :: "bool \<Rightarrow> rstring list \<Rightarrow> node list \<Rightarrow> rstring list option" where
  "literal_words found words [] = (if found then Some words else None)"
| "literal_words found words (child # children) =
     (if node_kind child = lit ''command_name'' then
        (case Option.bind (first_named_child child) parse_literal_shell_word of
           None \<Rightarrow> None
         | Some name \<Rightarrow> literal_words True (words @ [name]) children)
      else if found then
        (case parse_literal_shell_word child of
           Some word \<Rightarrow> literal_words found (words @ [word]) children
         | None \<Rightarrow> literal_words found words children)
      else literal_words found words children)"

definition parse_literal_command_from_node :: "node \<Rightarrow> rstring list option" where
  "parse_literal_command_from_node cmd =
     (if node_kind cmd \<noteq> lit ''command'' then None else literal_words False [] (named_children cmd))"

definition is_allowed_heredoc_attachment_kind :: "rstring \<Rightarrow> bool" where
  "is_allowed_heredoc_attachment_kind kind \<longleftrightarrow>
     kind \<in> {lit ''heredoc_body'', lit ''simple_heredoc_body'', lit ''heredoc_redirect'',
             lit ''herestring_redirect'', lit ''redirected_statement''}"

fun heredoc_words :: "rstring list \<Rightarrow> node list \<Rightarrow> rstring list option" where
  "heredoc_words words [] = Some words"
| "heredoc_words words (child # children) =
     (if node_kind child = lit ''command_name'' then
        (case first_named_child child of
           None \<Rightarrow> None
         | Some word_node \<Rightarrow>
             if \<not> is_literal_word_or_number word_node then None
             else (case node_text word_node of
                     None \<Rightarrow> None
                   | Some w \<Rightarrow> heredoc_words (words @ [w]) children))
      else if node_kind child \<in> {lit ''word'', lit ''number''} then
        (if \<not> is_literal_word_or_number child then None
         else (case node_text child of
                 None \<Rightarrow> None
               | Some w \<Rightarrow> heredoc_words (words @ [w]) children))
      else if node_kind child = lit ''comment'' \<or> is_allowed_heredoc_attachment_kind (node_kind child)
        then heredoc_words words children
      else None)"

definition parse_heredoc_command_words :: "node \<Rightarrow> rstring list option" where
  "parse_heredoc_command_words cmd =
     (if node_kind cmd \<noteq> lit ''command'' then None
      else Option.bind (heredoc_words [] (named_children cmd)) (\<lambda>ws. if ws = [] then None else Some ws))"


section \<open>Walks over a tree\<close>

text \<open>
  The code walks a tree with a stack: it pops a node and pushes its children, so that they are
  visited from the last to the first. The head of the list is the top of the stack.
\<close>

definition ALLOWED_KINDS :: "rstring list" where
  "ALLOWED_KINDS = map lit [''program'', ''list'', ''pipeline'', ''command'', ''command_name'', ''word'',
     ''string'', ''string_content'', ''raw_string'', ''number'', ''concatenation'']"

definition ALLOWED_PUNCT_TOKENS :: "rstring list" where
  "ALLOWED_PUNCT_TOKENS = [lit ''&&'', lit ''||'', lit '';'', lit ''|'', [34], [39]]"

definition node_allowed :: "node \<Rightarrow> bool" where
  "node_allowed n \<longleftrightarrow>
     (if is_named n then node_kind n \<in> set ALLOWED_KINDS
      else if list_ex (\<lambda>c. c \<in> set (lit ''&;|'')) (node_kind n) \<and> node_kind n \<notin> set ALLOWED_PUNCT_TOKENS
        then False
      else node_kind n \<in> set ALLOWED_PUNCT_TOKENS \<or> trim (node_kind n) = [])"

definition is_command_node :: "node \<Rightarrow> bool" where
  "is_command_node n \<longleftrightarrow> is_named n \<and> node_kind n = lit ''command''"

function word_only_walk :: "node list \<Rightarrow> node list \<Rightarrow> node list option" where
  "word_only_walk [] command_nodes = Some command_nodes"
| "word_only_walk (n # stack) command_nodes =
     (if \<not> node_allowed n then None
      else word_only_walk (rev (node_children n) @ stack)
        (if is_command_node n then command_nodes @ [n] else command_nodes))"
  by pat_completeness auto

termination
  by (relation "measure (size_list size \<circ> fst)") (simp_all add: size_node_children less_SucI)

definition try_parse_word_only_commands_sequence :: "tree \<Rightarrow> rstring list list option" where
  "try_parse_word_only_commands_sequence t =
     (case t of (root, has_error) \<Rightarrow>
        if has_error then None
        else (case word_only_walk [root] [] of
                None \<Rightarrow> None
              | Some command_nodes \<Rightarrow>
                  those (map parse_plain_command_from_node (sort_key start_byte command_nodes))))"

lemma size_named_children: "size_list size (named_children n) < size n"
  unfolding named_children_def
  using size_list_filter_le [of is_named "node_children n"] size_node_children [of n] by linarith

function literal_walk :: "node list \<Rightarrow> rstring list list \<Rightarrow> rstring list list" where
  "literal_walk [] commands = commands"
| "literal_walk (n # stack) commands =
     literal_walk (rev (named_children n) @ stack)
       (case (if node_kind n = lit ''command'' then parse_literal_command_from_node n else None) of
          Some command \<Rightarrow> commands @ [command]
        | None \<Rightarrow> commands)"
  by pat_completeness auto

termination
  by (relation "measure (size_list size \<circ> fst)") (simp_all add: size_named_children less_SucI)

function single_command_walk :: "node list \<Rightarrow> node option \<Rightarrow> node option" where
  "single_command_walk [] single_command = single_command"
| "single_command_walk (n # stack) single_command =
     (if node_kind n = lit ''command'' then
        (if single_command \<noteq> None then None
         else single_command_walk (rev (named_children n) @ stack) (Some n))
      else single_command_walk (rev (named_children n) @ stack) single_command)"
  by pat_completeness auto

termination
  by (relation "measure (size_list size \<circ> fst)") (simp_all add: size_named_children less_SucI)

definition find_single_command_node :: "node \<Rightarrow> node option" where
  "find_single_command_node root = single_command_walk [root] None"

function descendant_kind_walk :: "rstring \<Rightarrow> node list \<Rightarrow> bool" where
  "descendant_kind_walk kind [] = False"
| "descendant_kind_walk kind (n # stack) =
     (if node_kind n = kind then True else descendant_kind_walk kind (rev (named_children n) @ stack))"
  by pat_completeness auto

termination
  by (relation "measure (size_list size \<circ> snd)") (simp_all add: size_named_children less_SucI)

definition has_named_descendant_kind :: "node \<Rightarrow> rstring \<Rightarrow> bool" where
  "has_named_descendant_kind n kind = descendant_kind_walk kind [n]"


section \<open>Scripts passed to a shell\<close>

type_synonym script_parser = "rstring \<Rightarrow> tree option"

definition parse_shell_script_into_commands :: "script_parser \<Rightarrow> rstring \<Rightarrow> rstring list list option" where
  "parse_shell_script_into_commands parse script =
     Option.bind (parse script) try_parse_word_only_commands_sequence"

fun extract_bash_command :: "rstring list \<Rightarrow> (rstring \<times> rstring) option" where
  "extract_bash_command [shell, flag, script] =
     (if flag \<notin> {lit ''-lc'', lit ''-c''} \<or>
         detect_shell_type shell \<notin> {Some Zsh, Some Bash, Some Sh}
      then None else Some (shell, script))"
| "extract_bash_command command = None"

definition parse_shell_lc_plain_commands :: "script_parser \<Rightarrow> rstring list \<Rightarrow> rstring list list option" where
  "parse_shell_lc_plain_commands parse command =
     (case extract_bash_command command of
        None \<Rightarrow> None
      | Some (shell, script) \<Rightarrow> parse_shell_script_into_commands parse script)"

definition parse_shell_lc_literal_commands :: "script_parser \<Rightarrow> rstring list \<Rightarrow> rstring list list option" where
  "parse_shell_lc_literal_commands parse command =
     (case extract_bash_command command of
        None \<Rightarrow> None
      | Some (shell, script) \<Rightarrow>
          (case parse script of
             None \<Rightarrow> None
           | Some (root, has_error) \<Rightarrow> if has_error then None else Some (literal_walk [root] [])))"

definition parse_shell_lc_single_command_prefix :: "script_parser \<Rightarrow> rstring list \<Rightarrow> rstring list option" where
  "parse_shell_lc_single_command_prefix parse command =
     (case extract_bash_command command of
        None \<Rightarrow> None
      | Some (shell, script) \<Rightarrow>
          (case parse script of
             None \<Rightarrow> None
           | Some (root, has_error) \<Rightarrow>
               if has_error then None
               else if \<not> has_named_descendant_kind root (lit ''heredoc_redirect'') then None
               else if has_named_descendant_kind root (lit ''file_redirect'') then None
               else Option.bind (find_single_command_node root) parse_heredoc_command_words))"

section \<open>The walks visit every node\<close>

primrec descendants :: "node \<Rightarrow> node list" where
  "descendants (Node k nm b t cs) = Node k nm b t cs # concat (map descendants cs)"

text \<open>The order in which the stack visits them.\<close>

primrec visited :: "node \<Rightarrow> node list" where
  "visited (Node k nm b t cs) = Node k nm b t cs # concat (rev (map visited cs))"

lemma visited_eq: "visited n = n # concat (map visited (rev (node_children n)))"
  by (cases n) (simp add: rev_map)

lemma descendants_eq: "descendants n = n # concat (map descendants (node_children n))"
  by (cases n) simp

lemma mset_visited: "mset (visited n) = mset (descendants n)"
proof (induction n)
  case (Node k nm b t cs)
  then show ?case
    by (simp add: mset_concat rev_map [symmetric] comp_def cong: map_cong)
qed

lemma word_only_walk_spec:
  "word_only_walk stack acc =
     (let ns = concat (map visited stack) in
      if list_all node_allowed ns then Some (acc @ filter is_command_node ns) else None)"
proof (induction stack acc rule: word_only_walk.induct)
  case (2 n stack acc)
  then show ?case by (simp add: Let_def visited_eq [of n])
qed simp

lemma sort_key_perm:
  assumes "mset xs = mset ys" and "sorted (map f ys)" and "distinct (map f ys)"
  shows "sort_key f xs = ys"
proof -
  have "inj_on f (set ys)" using assms(3) by (simp add: distinct_map)
  moreover have "set xs = set ys" using assms(1) by (rule mset_eq_setD)
  ultimately show ?thesis
    using sort_key_inj_key_eq [OF assms(1) _ assms(2)] by simp
qed

text \<open>What a successful parse says of each command node, whatever the byte positions are.\<close>

lemma those_Some_nth: "those xs = Some ys \<Longrightarrow> xs = map Some ys"
proof (induction xs arbitrary: ys)
  case (Cons x xs)
  then show ?case by (cases x) (auto simp: map_option_case split: option.splits)
qed simp

lemma word_only_parsed:
  assumes "try_parse_word_only_commands_sequence (root, e) = Some cmds"
  shows "\<not> e" and "list_all node_allowed (descendants root)"
    and "n \<in> set (descendants root) \<Longrightarrow> is_command_node n \<Longrightarrow>
      \<exists>ws \<in> set cmds. parse_plain_command_from_node n = Some ws"
proof -
  have set: "set (visited root) = set (descendants root)"
    using mset_visited by (rule mset_eq_setD)
  from assms show "\<not> e" by (auto simp: try_parse_word_only_commands_sequence_def split: if_splits)
  from assms have all: "list_all node_allowed (visited root)"
    and cmds: "those (map parse_plain_command_from_node
      (sort_key start_byte (filter is_command_node (visited root)))) = Some cmds"
    by (auto simp: try_parse_word_only_commands_sequence_def word_only_walk_spec Let_def split: if_splits)
  from all set show "list_all node_allowed (descendants root)" by (simp add: list_all_iff)
  assume "n \<in> set (descendants root)" "is_command_node n"
  then have "n \<in> set (sort_key start_byte (filter is_command_node (visited root)))" using set by simp
  with those_Some_nth [OF cmds] show "\<exists>ws \<in> set cmds. parse_plain_command_from_node n = Some ws"
    by (metis (no_types, lifting) image_eqI imageE list.set_map)
qed

lemma literal_walk_sound:
  assumes "c \<in> set (literal_walk stack acc)"
  shows "c \<in> set acc \<or>
    (\<exists>n \<in> set (concat (map descendants stack)). node_kind n = lit ''command'' \<and>
       parse_literal_command_from_node n = Some c)"
  using assms
proof (induction stack acc rule: literal_walk.induct)
  case (2 n stack acc)
  let ?lit = "if node_kind n = lit ''command'' then parse_literal_command_from_node n else None"
  have sub: "m \<in> set (descendants n)" if "k \<in> set (named_children n)" "m \<in> set (descendants k)" for k m
    using that by (auto simp: descendants_eq [of n] named_children_def)
  have n: "n \<in> set (descendants n)" by (simp add: descendants_eq [of n])
  from 2 have "c \<in> set (case ?lit of Some cmd \<Rightarrow> acc @ [cmd] | None \<Rightarrow> acc) \<or>
      (\<exists>m \<in> set (concat (map descendants (rev (named_children n) @ stack))). node_kind m = lit ''command'' \<and>
         parse_literal_command_from_node m = Some c)"
    by simp
  then show ?case
  proof
    assume "c \<in> set (case ?lit of Some cmd \<Rightarrow> acc @ [cmd] | None \<Rightarrow> acc)"
    then have "c \<in> set acc \<or> (node_kind n = lit ''command'' \<and> parse_literal_command_from_node n = Some c)"
      by (auto split: option.splits if_splits)
    with n show ?thesis by auto
  next
    assume "\<exists>m \<in> set (concat (map descendants (rev (named_children n) @ stack))). node_kind m = lit ''command'' \<and>
         parse_literal_command_from_node m = Some c"
    with sub show ?thesis by fastforce
  qed
qed simp

lemma those_Some_iff: "those xs = Some ys \<longleftrightarrow> xs = map Some ys"
proof
  have "those (map Some ys) = Some ys" by (induction ys) simp_all
  then show "xs = map Some ys \<Longrightarrow> those xs = Some ys" by simp
qed (rule those_Some_nth)

lemma word_only_commands_eq:
  assumes "sorted (map start_byte (filter is_command_node (descendants root)))"
    and "distinct (map start_byte (filter is_command_node (descendants root)))"
  shows "try_parse_word_only_commands_sequence (root, False) =
    (if list_all node_allowed (descendants root)
     then those (map parse_plain_command_from_node (filter is_command_node (descendants root)))
     else None)"
proof -
  have set: "set (visited root) = set (descendants root)"
    using mset_visited by (rule mset_eq_setD)
  have "mset (filter is_command_node (visited root)) = mset (filter is_command_node (descendants root))"
    by (simp add: mset_visited)
  from sort_key_perm [OF this assms] set show ?thesis
    by (simp add: try_parse_word_only_commands_sequence_def word_only_walk_spec Let_def list_all_iff)
qed


definition sample_command :: "nat \<Rightarrow> rstring list \<Rightarrow> node" where
  "sample_command at ws =
     Node (lit ''command'') True at None
       (Node (lit ''command_name'') True at None [Node (lit ''word'') True at (Some (hd ws)) []] #
        map (\<lambda>w. Node (lit ''word'') True (at + 3) (Some w) []) (tl ws))"

definition sample_pipeline :: "rstring \<Rightarrow> node" where
  "sample_pipeline operator =
     Node (lit ''program'') True 0 None
       [Node (lit ''pipeline'') True 0 None
         [sample_command 0 [lit ''ls''], Node operator False 3 None [],
          sample_command 5 [lit ''wc'', lit ''-l'']]]"


end
