(* ===== verification/Command_Safety.thy ===== *)
theory Command_Safety
  imports Shell_Parse
begin

text \<open>
  \<^verbatim>\<open>codex-rs/shell-command/src/command_safety\<close>, in the Linux configuration: commands that may run
  without approval (\<^verbatim>\<open>is_safe_command.rs\<close>) and commands that are flagged as dangerous
  (\<^verbatim>\<open>is_dangerous_command.rs\<close>). The script parser is the parameter of \<open>Shell_Parse\<close>.
\<close>

section \<open>Shared helpers (is\_dangerous\_command.rs)\<close>

definition executable_name_lookup_key :: "rstring \<Rightarrow> rstring option" where
  "executable_name_lookup_key raw = path_file_name (path_components raw)"

definition is_git_global_option_with_value :: "rstring \<Rightarrow> bool" where
  "is_git_global_option_with_value arg \<longleftrightarrow>
     arg \<in> {lit ''-C'', lit ''-c'', lit ''--config-env'', lit ''--exec-path'', lit ''--git-dir'',
            lit ''--namespace'', lit ''--super-prefix'', lit ''--work-tree''}"

definition is_git_global_option_with_inline_value :: "rstring \<Rightarrow> bool" where
  "is_git_global_option_with_inline_value arg \<longleftrightarrow>
     list_ex (\<lambda>p. starts_with p arg)
       [lit ''--config-env='', lit ''--exec-path='', lit ''--git-dir='', lit ''--namespace='',
        lit ''--super-prefix='', lit ''--work-tree=''] \<or>
     (starts_with (lit ''-C'') arg \<or> starts_with (lit ''-c'') arg) \<and> 2 < utf8_len arg"

fun git_subcommand_loop ::
  "rstring list \<Rightarrow> bool \<Rightarrow> nat \<Rightarrow> rstring list \<Rightarrow> (nat \<times> rstring) option" where
  "git_subcommand_loop subcommands skip_next idx [] = None"
| "git_subcommand_loop subcommands skip_next idx (arg # args) =
     (if skip_next then git_subcommand_loop subcommands False (Suc idx) args
      else if is_git_global_option_with_inline_value arg
        then git_subcommand_loop subcommands False (Suc idx) args
      else if is_git_global_option_with_value arg then git_subcommand_loop subcommands True (Suc idx) args
      else if arg = lit ''--'' \<or> starts_with [45] arg
        then git_subcommand_loop subcommands False (Suc idx) args
      else if arg \<in> set subcommands then Some (idx, arg)
      else None)"

definition find_git_subcommand :: "rstring list \<Rightarrow> rstring list \<Rightarrow> (nat \<times> rstring) option" where
  "find_git_subcommand command subcommands =
     (case first_opt command of
        None \<Rightarrow> None
      | Some cmd0 \<Rightarrow>
          if executable_name_lookup_key cmd0 \<noteq> Some (lit ''git'') then None
          else git_subcommand_loop subcommands False 1 (drop 1 command))"


section \<open>Safe commands (is\_safe\_command.rs)\<close>

datatype git_option_pattern = Exact rstring | ShortWithInlineValue rstring | PrefixOption rstring

definition UNSAFE_GIT_GLOBAL_OPTIONS :: "git_option_pattern list" where
  "UNSAFE_GIT_GLOBAL_OPTIONS =
     [Exact (lit ''-C''), ShortWithInlineValue (lit ''-C''), Exact (lit ''-c''), ShortWithInlineValue (lit ''-c''),
      Exact (lit ''-p''), Exact (lit ''--config-env''), PrefixOption (lit ''--config-env=''),
      Exact (lit ''--exec-path''), PrefixOption (lit ''--exec-path=''), Exact (lit ''--git-dir''),
      PrefixOption (lit ''--git-dir=''), Exact (lit ''--namespace''), PrefixOption (lit ''--namespace=''),
      Exact (lit ''--paginate''), Exact (lit ''--super-prefix''), PrefixOption (lit ''--super-prefix=''),
      Exact (lit ''--work-tree''), PrefixOption (lit ''--work-tree='')]"

definition UNSAFE_GIT_SUBCOMMAND_OPTIONS :: "git_option_pattern list" where
  "UNSAFE_GIT_SUBCOMMAND_OPTIONS =
     [Exact (lit ''--output''), PrefixOption (lit ''--output=''), Exact (lit ''--ext-diff''),
      Exact (lit ''--textconv''), Exact (lit ''--exec''), PrefixOption (lit ''--exec='')]"

fun git_option_matches :: "git_option_pattern \<Rightarrow> rstring \<Rightarrow> bool" where
  "git_option_matches (Exact option) arg = (arg = option)"
| "git_option_matches (ShortWithInlineValue option) arg =
     (starts_with option arg \<and> utf8_len option < utf8_len arg)"
| "git_option_matches (PrefixOption p) arg = starts_with p arg"

definition git_matches_option_pattern :: "rstring \<Rightarrow> git_option_pattern list \<Rightarrow> bool" where
  "git_matches_option_pattern arg patterns = list_ex (\<lambda>p. git_option_matches p arg) patterns"

definition git_has_unsafe_global_option :: "rstring list \<Rightarrow> bool" where
  "git_has_unsafe_global_option global_args =
     list_ex (\<lambda>arg. git_matches_option_pattern arg UNSAFE_GIT_GLOBAL_OPTIONS) global_args"

definition git_subcommand_args_are_read_only :: "rstring list \<Rightarrow> bool" where
  "git_subcommand_args_are_read_only args \<longleftrightarrow>
     \<not> list_ex (\<lambda>arg. git_matches_option_pattern arg UNSAFE_GIT_SUBCOMMAND_OPTIONS) args"

definition branch_read_only_flag :: "rstring \<Rightarrow> bool" where
  "branch_read_only_flag arg \<longleftrightarrow>
     arg \<in> {lit ''--list'', lit ''-l'', lit ''--show-current'', lit ''-a'', lit ''--all'', lit ''-r'',
            lit ''--remotes'', lit ''-v'', lit ''-vv'', lit ''--verbose''} \<or>
     starts_with (lit ''--format='') arg"

fun branch_args_loop :: "bool \<Rightarrow> rstring list \<Rightarrow> bool" where
  "branch_args_loop saw_read_only_flag [] = saw_read_only_flag"
| "branch_args_loop saw_read_only_flag (arg # args) =
     (if branch_read_only_flag arg then branch_args_loop True args else False)"

definition git_branch_is_read_only :: "rstring list \<Rightarrow> bool" where
  "git_branch_is_read_only branch_args = (if branch_args = [] then True else branch_args_loop False branch_args)"

definition SAFE_GIT_SUBCOMMANDS :: "rstring list" where
  "SAFE_GIT_SUBCOMMANDS = map lit [''status'', ''log'', ''diff'', ''show'', ''branch'']"

definition is_safe_git_command :: "rstring list \<Rightarrow> bool" where
  "is_safe_git_command command =
     (case find_git_subcommand command SAFE_GIT_SUBCOMMANDS of
        None \<Rightarrow> False
      | Some (subcommand_idx, subcommand) \<Rightarrow>
          (let global_args = drop 1 (take subcommand_idx command);
               subcommand_args = drop (subcommand_idx + 1) command in
           if git_has_unsafe_global_option global_args then False
           else if subcommand \<in> {lit ''status'', lit ''log'', lit ''diff'', lit ''show''}
             then git_subcommand_args_are_read_only subcommand_args
           else if subcommand = lit ''branch''
             then git_subcommand_args_are_read_only subcommand_args \<and> git_branch_is_read_only subcommand_args
           else False))"

definition is_valid_sed_n_arg :: "rstring option \<Rightarrow> bool" where
  "is_valid_sed_n_arg arg =
     (case arg of
        None \<Rightarrow> False
      | Some s \<Rightarrow>
          (case strip_suffix (lit ''p'') s of
             None \<Rightarrow> False
           | Some core \<Rightarrow>
               (case split_on 44 core of
                  [num] \<Rightarrow> num \<noteq> [] \<and> list_all is_ascii_digit num
                | [a, b] \<Rightarrow> a \<noteq> [] \<and> b \<noteq> [] \<and> list_all is_ascii_digit a \<and> list_all is_ascii_digit b
                | _ \<Rightarrow> False)))"

definition ALWAYS_SAFE_COMMANDS :: "rstring list" where
  "ALWAYS_SAFE_COMMANDS = map lit
     [''cat'', ''cd'', ''cut'', ''echo'', ''expr'', ''false'', ''grep'', ''head'', ''id'', ''ls'', ''nl'',
      ''paste'', ''pwd'', ''rev'', ''seq'', ''stat'', ''tail'', ''tr'', ''true'', ''uname'', ''uniq'', ''wc'',
      ''which'', ''whoami'']"

definition LINUX_SAFE_COMMANDS :: "rstring list" where
  "LINUX_SAFE_COMMANDS = map lit [''numfmt'', ''tac'']"

definition unsafe_base64_option :: "rstring \<Rightarrow> bool" where
  "unsafe_base64_option arg \<longleftrightarrow>
     arg \<in> {lit ''-o'', lit ''--output''} \<or> starts_with (lit ''--output='') arg \<or>
     starts_with (lit ''-o'') arg \<and> arg \<noteq> lit ''-o''"

definition UNSAFE_FIND_OPTIONS :: "rstring list" where
  "UNSAFE_FIND_OPTIONS = map lit
     [''-exec'', ''-execdir'', ''-ok'', ''-okdir'', ''-delete'', ''-fls'', ''-fprint'', ''-fprint0'', ''-fprintf'']"

definition unsafe_ripgrep_option :: "rstring \<Rightarrow> bool" where
  "unsafe_ripgrep_option arg \<longleftrightarrow>
     arg \<in> {lit ''--search-zip'', lit ''-z''} \<or>
     list_ex (\<lambda>opt. arg = opt \<or> starts_with (opt @ lit ''='') arg) [lit ''--pre'', lit ''--hostname-bin'']"

definition get_arg :: "rstring list \<Rightarrow> nat \<Rightarrow> rstring option" where
  "get_arg command i = (if i < length command then Some (command ! i) else None)"

definition is_safe_to_call_with_exec :: "rstring list \<Rightarrow> bool" where
  "is_safe_to_call_with_exec command =
     (case first_opt command of
        None \<Rightarrow> False
      | Some cmd0 \<Rightarrow>
          (case executable_name_lookup_key cmd0 of
             None \<Rightarrow> False
           | Some cmd \<Rightarrow>
               if cmd \<in> set LINUX_SAFE_COMMANDS then True
               else if cmd \<in> set ALWAYS_SAFE_COMMANDS then True
               else if cmd = lit ''base64'' then \<not> list_ex unsafe_base64_option (drop 1 command)
               else if cmd = lit ''find'' then \<not> list_ex (\<lambda>arg. arg \<in> set UNSAFE_FIND_OPTIONS) command
               else if cmd = lit ''rg'' then \<not> list_ex unsafe_ripgrep_option command
               else if cmd = lit ''git'' then is_safe_git_command command
               else if cmd = lit ''sed'' then
                 length command \<le> 4 \<and> get_arg command 1 = Some (lit ''-n'') \<and> is_valid_sed_n_arg (get_arg command 2)
               else False))"

definition zsh_as_bash :: "rstring list \<Rightarrow> rstring list" where
  "zsh_as_bash command = map (\<lambda>s. if s = lit ''zsh'' then lit ''bash'' else s) command"

definition is_known_safe_command :: "script_parser \<Rightarrow> rstring list \<Rightarrow> bool" where
  "is_known_safe_command parse command0 =
     (let command = zsh_as_bash command0 in
      if is_safe_to_call_with_exec command then True
      else (case parse_shell_lc_plain_commands parse command of
              Some all_commands \<Rightarrow> all_commands \<noteq> [] \<and> list_all is_safe_to_call_with_exec all_commands
            | None \<Rightarrow> False))"

definition is_safe_powershell_words :: "rstring list \<Rightarrow> bool" where
  "is_safe_powershell_words command = False"


section \<open>Dangerous commands (is\_dangerous\_command.rs)\<close>

datatype danger_match = ForcedRm | OtherDanger

definition MAX_DANGEROUS_COMMAND_WRAPPER_DEPTH :: nat where
  "MAX_DANGEROUS_COMMAND_WRAPPER_DEPTH = 8"

definition rm_args_include_force_option :: "rstring list \<Rightarrow> bool" where
  "rm_args_include_force_option args =
     list_ex (\<lambda>arg. arg = lit ''--force'' \<or>
         (case strip_prefix [45] arg of Some flags \<Rightarrow> \<not> starts_with [45] flags \<and> 102 \<in> set flags | None \<Rightarrow> False))
       (takeWhile (\<lambda>arg. arg \<noteq> lit ''--'') args)"

text \<open>
  The recursion through wrappers: \<open>rec\<close> is \<^verbatim>\<open>dangerous_command_match_with_depth\<close> one level down.
\<close>

fun env_command :: "rstring list \<Rightarrow> rstring list" where
  "env_command [] = []"
| "env_command (argument # args) =
     (if argument = lit ''--'' then args
      else if argument \<in> {lit ''-i'', lit ''--ignore-environment''} \<or>
        (case split_once 61 argument of Some (name, _) \<Rightarrow> name \<noteq> [] \<and> \<not> starts_with [45] name | None \<Rightarrow> False)
        then env_command args
      else argument # args)"

definition dangerous_command_match_for_env ::
  "(rstring list \<Rightarrow> danger_match option) \<Rightarrow> rstring list \<Rightarrow> danger_match option" where
  "dangerous_command_match_for_env rec command = rec (env_command (drop 1 command))"

definition dangerous_command_match_for_trap ::
  "(rstring list \<Rightarrow> danger_match option) \<Rightarrow> rstring list \<Rightarrow> danger_match option" where
  "dangerous_command_match_for_trap rec command =
     (let action_index = (if get_arg command 1 = Some (lit ''--'') then 2 else 1) in
      case get_arg command action_index of
        None \<Rightarrow> None
      | Some action \<Rightarrow>
          if starts_with [45] action then None else rec [lit ''sh'', lit ''-c'', action])"

definition dangerous_command_match_for_exec ::
  "(rstring list \<Rightarrow> danger_match option) \<Rightarrow> rstring list \<Rightarrow> danger_match option" where
  "dangerous_command_match_for_exec rec command =
     (case Option.bind (first_opt command) executable_name_lookup_key of
        None \<Rightarrow> None
      | Some cmd0 \<Rightarrow>
          if cmd0 = lit ''rm'' \<and> rm_args_include_force_option (drop 1 command) then Some ForcedRm
          else if cmd0 = lit ''sudo'' then rec (drop 1 command)
          else if cmd0 = lit ''env'' then dangerous_command_match_for_env rec command
          else if cmd0 = lit ''trap'' then dangerous_command_match_for_trap rec command
          else None)"

fun find_map :: "('a \<Rightarrow> 'b option) \<Rightarrow> 'a list \<Rightarrow> 'b option" where
  "find_map f [] = None"
| "find_map f (x # xs) = (case f x of Some y \<Rightarrow> Some y | None \<Rightarrow> find_map f xs)"

text \<open>
  The argument is the number of levels left, \<open>MAX_DANGEROUS_COMMAND_WRAPPER_DEPTH + 1\<close> minus
  \<^verbatim>\<open>wrapper_depth\<close>: it is zero exactly when the depth exceeds the maximum.
\<close>

primrec dangerous_command_match_levels ::
  "script_parser \<Rightarrow> nat \<Rightarrow> rstring list \<Rightarrow> danger_match option" where
  "dangerous_command_match_levels parse 0 = (\<lambda>command. None)"
| "dangerous_command_match_levels parse (Suc levels) = (\<lambda>command.
     case dangerous_command_match_for_exec (dangerous_command_match_levels parse levels) command of
       Some dangerous_match \<Rightarrow> Some dangerous_match
     | None \<Rightarrow>
         (case parse_shell_lc_literal_commands parse command of
            None \<Rightarrow> None
          | Some commands \<Rightarrow> find_map (dangerous_command_match_levels parse levels) commands))"

definition dangerous_command_match_with_depth ::
  "script_parser \<Rightarrow> rstring list \<Rightarrow> nat \<Rightarrow> danger_match option" where
  "dangerous_command_match_with_depth parse command wrapper_depth =
     dangerous_command_match_levels parse (MAX_DANGEROUS_COMMAND_WRAPPER_DEPTH + 1 - wrapper_depth) command"

definition dangerous_command_match :: "script_parser \<Rightarrow> rstring list \<Rightarrow> danger_match option" where
  "dangerous_command_match parse command = dangerous_command_match_with_depth parse command 0"

definition dangerous_powershell_words_match :: "rstring list \<Rightarrow> danger_match option" where
  "dangerous_powershell_words_match command = None"

section \<open>Executable names that are no shells\<close>

definition plain_name :: "rstring \<Rightarrow> bool" where
  "plain_name n \<longleftrightarrow> known_shell n = None \<and> rsplit_once 46 n = None \<and> executable_name_lookup_key n = Some n"

definition SAFE_NAMES :: "rstring list" where
  "SAFE_NAMES = LINUX_SAFE_COMMANDS @ ALWAYS_SAFE_COMMANDS @ map lit [''base64'', ''find'', ''rg'', ''git'', ''sed'']"

definition WRAPPER_NAMES :: "rstring list" where
  "WRAPPER_NAMES = map lit [''rm'', ''sudo'', ''env'', ''trap'']"

lemma plain_names: "list_all plain_name (SAFE_NAMES @ WRAPPER_NAMES)"
  by code_simp

lemma safe_not_wrapper: "list_all (\<lambda>n. n \<notin> set WRAPPER_NAMES) SAFE_NAMES"
  by code_simp

lemma known_shell_key: "known_shell s = Some t \<Longrightarrow> executable_name_lookup_key s = Some s"
proof -
  have "list_all (\<lambda>s. executable_name_lookup_key s = Some s)
    (map lit [''zsh'', ''sh'', ''cmd'', ''bash'', ''pwsh'', ''powershell''])"
    by code_simp
  then show "known_shell s = Some t \<Longrightarrow> executable_name_lookup_key s = Some s"
    by (auto simp: known_shell_def split: if_splits)
qed

lemma detect_plain_name:
  assumes "plain_name n"
  shows "detect_shell_type n = None"
  using assms
  by (simp add: detect_shell_type.simps [of n] plain_name_def executable_name_lookup_key_def path_file_stem_def)

lemma detect_shell_type_plain:
  assumes "executable_name_lookup_key raw = Some n" and n: "plain_name n"
  shows "detect_shell_type raw = None"
proof -
  have "known_shell raw = None"
  proof (rule ccontr)
    assume "known_shell raw \<noteq> None"
    then obtain t where t: "known_shell raw = Some t" by auto
    from known_shell_key [OF t] assms(1) have "raw = n" by simp
    with t n show False by (simp add: plain_name_def)
  qed
  moreover have "path_file_stem raw = Some n"
    using assms by (simp add: path_file_stem_def executable_name_lookup_key_def plain_name_def)
  ultimately show ?thesis
    using detect_plain_name [OF n] by (simp add: detect_shell_type.simps [of raw])
qed

lemma extract_plain:
  assumes "executable_name_lookup_key cmd0 = Some n" and "plain_name n"
  shows "extract_bash_command (cmd0 # args) = None"
  using detect_shell_type_plain [OF assms]
  by (cases "cmd0 # args" rule: extract_bash_command.cases) simp_all

lemma safe_exec_name:
  assumes "is_safe_to_call_with_exec cmd"
  obtains cmd0 args n where "cmd = cmd0 # args" "executable_name_lookup_key cmd0 = Some n" "n \<in> set SAFE_NAMES"
proof -
  obtain cmd0 args where cmd: "cmd = cmd0 # args"
    using assms by (cases cmd) (simp_all add: is_safe_to_call_with_exec_def first_opt_def)
  obtain n where n: "executable_name_lookup_key cmd0 = Some n"
    using assms cmd
    by (cases "executable_name_lookup_key cmd0") (simp_all add: is_safe_to_call_with_exec_def first_opt_def)
  have "n \<in> set SAFE_NAMES"
    using assms cmd n
    by (simp add: is_safe_to_call_with_exec_def first_opt_def SAFE_NAMES_def split: if_splits)
  with cmd n show thesis by (rule that)
qed

lemma not_wrapper_not_dangerous:
  assumes "executable_name_lookup_key cmd0 = Some n" and "n \<notin> set WRAPPER_NAMES"
  shows "dangerous_command_match_for_exec rec (cmd0 # args) = None"
  using assms by (simp add: dangerous_command_match_for_exec_def first_opt_def WRAPPER_NAMES_def)

lemma safe_name_levels:
  assumes "executable_name_lookup_key cmd0 = Some n" and "n \<in> set SAFE_NAMES"
  shows "dangerous_command_match_levels parse k (cmd0 # args) = None"
proof (cases k)
  case (Suc j)
  have "plain_name n" and "n \<notin> set WRAPPER_NAMES"
    using assms(2) plain_names safe_not_wrapper by (auto simp: list_all_iff)
  with assms(1) Suc show ?thesis
    by (simp add: not_wrapper_not_dangerous parse_shell_lc_literal_commands_def extract_plain)
qed simp

section \<open>A command that is safe is not dangerous\<close>

text \<open>
  What is assumed of the grammar: among the named children of a command that the word-only parser
  accepts, the command's name comes first, and the script \<^verbatim>\<open>bash\<close> is at most the command \<^verbatim>\<open>bash\<close>.
\<close>

definition command_name_first :: "node \<Rightarrow> bool" where
  "command_name_first n \<longleftrightarrow>
     (case filter (\<lambda>c. node_kind c \<in> set ALLOWED_KINDS) (named_children n) of
        [] \<Rightarrow> True
      | c # _ \<Rightarrow> node_kind c = lit ''command_name'')"

definition bash_grammar :: "script_parser \<Rightarrow> bool" where
  "bash_grammar parse \<longleftrightarrow>
     (\<forall>script root has_error. parse script = Some (root, has_error) \<longrightarrow>
        (\<forall>n \<in> set (descendants root). is_command_node n \<longrightarrow> command_name_first n)) \<and>
     parse_shell_script_into_commands parse (lit ''bash'') \<in> {None, Some [[lit ''bash'']]}"

lemma descendants_child:
  "n \<in> set (descendants root) \<Longrightarrow> c \<in> set (node_children n) \<Longrightarrow> c \<in> set (descendants root)"
proof (induction root)
  case (Node k nm b t cs)
  then show ?case
  proof (cases "n = Node k nm b t cs")
    case True
    with Node.prems(2) have "c \<in> set cs" by simp
    moreover have "c \<in> set (descendants c)" by (simp add: descendants_eq [of c])
    ultimately show ?thesis by auto
  next
    case False
    with Node.prems(1) obtain r where "r \<in> set cs" "n \<in> set (descendants r)" by auto
    with Node.IH [of r] Node.prems(2) show ?thesis by auto
  qed
qed

lemma literal_words_prefix:
  assumes "literal_words found ws cs = Some out"
  shows "\<exists>more. out = ws @ more"
  using assms
  by (induction found ws cs rule: literal_words.induct) (auto split: if_splits option.splits)

lemma literal_word_of_word:
  assumes "node_kind n = lit ''word''" and "parse_literal_shell_word n = Some w"
  shows "node_text n = Some w"
proof -
  have "lit ''word'' \<noteq> lit ''string''" "lit ''word'' \<noteq> lit ''raw_string''" "lit ''word'' \<noteq> lit ''concatenation''"
    by code_simp+
  with assms show ?thesis by (simp add: parse_literal_shell_word.simps [of n] split: if_splits)
qed

lemma same_first_word:
  assumes first: "command_name_first n"
    and allowed: "\<forall>c \<in> set (named_children n). node_kind c \<in> set ALLOWED_KINDS"
    and plain: "parse_plain_command_from_node n = Some ws"
    and literal: "parse_literal_command_from_node n = Some c"
  shows "\<exists>w ws' c'. ws = w # ws' \<and> c = w # c'"
proof -
  have kind: "node_kind n = lit ''command''"
    and lw: "literal_words False [] (named_children n) = Some c"
    and pw: "those (map plain_word (named_children n)) = Some ws"
    using plain literal
    by (auto simp: parse_plain_command_from_node_def parse_literal_command_from_node_def split: if_splits)
  have "filter (\<lambda>c. node_kind c \<in> set ALLOWED_KINDS) (named_children n) = named_children n"
    using allowed by (simp add: filter_id_conv)
  moreover obtain name cs where cs: "named_children n = name # cs"
    using lw by (cases "named_children n") simp_all
  ultimately have name: "node_kind name = lit ''command_name''"
    using first by (simp add: command_name_first_def)
  from those_Some_nth [OF pw] cs obtain w ws' where ws: "ws = w # ws'" and w: "plain_word name = Some w"
    by (cases ws) auto
  from w name obtain wn where wn: "first_named_child name = Some wn" "node_kind wn = lit ''word''" "node_text wn = Some w"
    by (auto simp: plain_word_def bind_eq_Some_conv split: if_splits)
  from lw cs name wn obtain w2 where w2: "parse_literal_shell_word wn = Some w2"
    and rest: "literal_words True [w2] cs = Some c"
    by (auto split: option.splits)
  from literal_word_of_word [OF wn(2) w2] wn(3) have "w2 = w" by simp
  with literal_words_prefix [OF rest] ws show ?thesis by auto
qed

lemma allowed_command_named:
  assumes "node_allowed n" and "node_kind n = lit ''command''"
  shows "is_command_node n"
proof -
  have "lit ''command'' \<notin> set ALLOWED_PUNCT_TOKENS" "trim (lit ''command'') \<noteq> []" by code_simp+
  with assms show ?thesis by (cases "is_named n") (auto simp: node_allowed_def is_command_node_def split: if_splits)
qed

lemma allowed_named_kind: "node_allowed n \<Longrightarrow> is_named n \<Longrightarrow> node_kind n \<in> set ALLOWED_KINDS"
  by (simp add: node_allowed_def)

lemma literal_of_word_only:
  assumes parsed: "try_parse_word_only_commands_sequence (root, e) = Some cmds"
    and grammar: "\<forall>n \<in> set (descendants root). is_command_node n \<longrightarrow> command_name_first n"
    and c: "c \<in> set (literal_walk [root] [])"
  shows "\<exists>w ws' c'. w # ws' \<in> set cmds \<and> c = w # c'"
proof -
  have allowed: "node_allowed m" if "m \<in> set (descendants root)" for m
    using word_only_parsed(2) [OF parsed] that by (simp add: list_all_iff)
  obtain n where n: "n \<in> set (descendants root)" "node_kind n = lit ''command''"
    "parse_literal_command_from_node n = Some c"
    using literal_walk_sound [OF c] by auto
  have cmd: "is_command_node n" using allowed n(1,2) by (blast intro: allowed_command_named)
  obtain ws where ws: "ws \<in> set cmds" "parse_plain_command_from_node n = Some ws"
    using word_only_parsed(3) [OF parsed n(1) cmd] by blast
  have "\<forall>m \<in> set (named_children n). node_kind m \<in> set ALLOWED_KINDS"
    using descendants_child [OF n(1)] allowed by (auto simp: named_children_def intro: allowed_named_kind)
  from same_first_word [OF _ this ws(2) n(3)] grammar n(1) cmd ws(1) show ?thesis by blast
qed

lemma find_map_None: "find_map f xs = None \<longleftrightarrow> (\<forall>x \<in> set xs. f x = None)"
  by (induction xs) (auto split: option.splits)

lemma shell_not_wrapper:
  assumes "detect_shell_type shell \<noteq> None"
  shows "dangerous_command_match_for_exec rec (shell # args) = None"
proof (cases "executable_name_lookup_key shell")
  case (Some n)
  have "\<not> plain_name n" using detect_shell_type_plain [OF Some] assms by blast
  then have "n \<notin> set WRAPPER_NAMES" using plain_names by (auto simp: list_all_iff)
  with Some show ?thesis by (rule not_wrapper_not_dangerous)
qed (simp add: dangerous_command_match_for_exec_def first_opt_def)

lemma bash_no_safe_exec: "\<not> is_safe_to_call_with_exec [lit ''bash'']"
  by code_simp

lemma detect_bash_zsh [simp]: "detect_shell_type (lit ''bash'') = Some Bash" "detect_shell_type (lit ''zsh'') = Some Zsh"
  by code_simp+

lemma extract_zsh_as_bash:
  assumes "extract_bash_command (zsh_as_bash cmd) = Some (sh, script)"
  obtains shell flag script0 where "cmd = [shell, flag, script0]"
    "script = (if script0 = lit ''zsh'' then lit ''bash'' else script0)"
    "extract_bash_command cmd = Some (shell, script0)" "detect_shell_type shell \<noteq> None"
proof -
  obtain a b c where z: "zsh_as_bash cmd = [a, b, c]"
    using assms by (cases "zsh_as_bash cmd" rule: extract_bash_command.cases) simp_all
  then obtain shell flag script0 where cmd: "cmd = [shell, flag, script0]"
    unfolding zsh_as_bash_def by (auto simp: map_eq_Cons_conv)
  have flags: "lit ''bash'' \<notin> {lit ''-lc'', lit ''-c''}" by code_simp
  have flag: "flag \<in> {lit ''-lc'', lit ''-c''}"
    using assms cmd flags by (auto simp: zsh_as_bash_def split: if_splits)
  have det: "detect_shell_type shell \<in> {Some Zsh, Some Bash, Some Sh}"
    using assms cmd by (auto simp: zsh_as_bash_def split: if_splits)
  have "script = (if script0 = lit ''zsh'' then lit ''bash'' else script0)"
    using assms cmd by (auto simp: zsh_as_bash_def split: if_splits)
  moreover have "extract_bash_command cmd = Some (shell, script0)" using cmd flag det by auto
  ultimately show thesis using cmd det that by auto
qed

lemma safe_exec_zsh:
  assumes "is_safe_to_call_with_exec (zsh_as_bash cmd)"
  obtains cmd0 args n where "cmd = cmd0 # args" "executable_name_lookup_key cmd0 = Some n" "n \<in> set SAFE_NAMES"
proof -
  obtain b bs n where b: "zsh_as_bash cmd = b # bs" "executable_name_lookup_key b = Some n" "n \<in> set SAFE_NAMES"
    using assms by (rule safe_exec_name)
  then obtain cmd0 args where cmd: "cmd = cmd0 # args" by (cases cmd) (simp_all add: zsh_as_bash_def)
  have "executable_name_lookup_key (lit ''bash'') = Some (lit ''bash'')" "lit ''bash'' \<notin> set SAFE_NAMES"
    by code_simp+
  with b cmd have "cmd0 = b" by (auto simp: zsh_as_bash_def split: if_splits)
  with b cmd that show thesis by blast
qed

text \<open>
  C3. A command that may run without approval is never flagged as dangerous: whatever wrappers,
  shells and scripts it is made of, \<^verbatim>\<open>is_known_safe_command\<close> and \<^verbatim>\<open>dangerous_command_match\<close> do not
  both accept it, for every parser whose trees put the name of a command before its arguments.
\<close>

theorem safe_command_not_dangerous:
  assumes "bash_grammar parse" and "is_known_safe_command parse cmd"
  shows "dangerous_command_match parse cmd = None"
proof (cases "is_safe_to_call_with_exec (zsh_as_bash cmd)")
  case True
  then obtain cmd0 args n where "cmd = cmd0 # args" "executable_name_lookup_key cmd0 = Some n" "n \<in> set SAFE_NAMES"
    by (rule safe_exec_zsh)
  then show ?thesis
    by (simp add: dangerous_command_match_def dangerous_command_match_with_depth_def safe_name_levels
        del: dangerous_command_match_levels.simps)
next
  case False
  then obtain cmds where plain: "parse_shell_lc_plain_commands parse (zsh_as_bash cmd) = Some cmds"
    and safe: "list_all is_safe_to_call_with_exec cmds" and "cmds \<noteq> []"
    using assms(2) by (auto simp: is_known_safe_command_def split: option.splits)
  then obtain sh script where ex: "extract_bash_command (zsh_as_bash cmd) = Some (sh, script)"
    and sc: "parse_shell_script_into_commands parse script = Some cmds"
    by (auto simp: parse_shell_lc_plain_commands_def split: option.splits)
  from ex obtain shell flag script0 where cmd: "cmd = [shell, flag, script0]"
    and script: "script = (if script0 = lit ''zsh'' then lit ''bash'' else script0)"
    and ex0: "extract_bash_command cmd = Some (shell, script0)" and det: "detect_shell_type shell \<noteq> None"
    by (rule extract_zsh_as_bash)
  have "script \<noteq> lit ''bash''"
    using assms(1) sc safe bash_no_safe_exec by (auto simp: bash_grammar_def)
  then have "script0 = script" using script by (simp split: if_splits)
  obtain root e where root: "parse script = Some (root, e)"
    and word_only: "try_parse_word_only_commands_sequence (root, e) = Some cmds"
    using sc by (auto simp: parse_shell_script_into_commands_def bind_eq_Some_conv)
  have grammar: "\<forall>n \<in> set (descendants root). is_command_node n \<longrightarrow> command_name_first n"
    using assms(1) root by (auto simp: bash_grammar_def)
  have inner: "dangerous_command_match_levels parse k c = None" if c: "c \<in> set (literal_walk [root] [])" for k c
  proof -
    obtain w ws' c' where w: "w # ws' \<in> set cmds" "c = w # c'"
      using literal_of_word_only [OF word_only grammar c] by blast
    then have "is_safe_to_call_with_exec (w # ws')" using safe by (simp add: list_all_iff)
    then show ?thesis using w(2) by (auto elim!: safe_exec_name intro: safe_name_levels)
  qed
  have literal: "parse_shell_lc_literal_commands parse cmd = Some (literal_walk [root] [])"
    using ex0 root word_only_parsed(1) [OF word_only] \<open>script0 = script\<close>
    by (simp add: parse_shell_lc_literal_commands_def)
  have "dangerous_command_match_for_exec rec cmd = None" for rec
    using cmd det by (simp add: shell_not_wrapper)
  moreover have "find_map (dangerous_command_match_levels parse k) (literal_walk [root] []) = None" for k
    using inner by (simp only: find_map_None) blast
  ultimately have "dangerous_command_match_levels parse (Suc k) cmd = None" for k
    using literal by (simp del: literal_walk.simps)
  then show ?thesis
    by (simp add: dangerous_command_match_def dangerous_command_match_with_depth_def
        del: dangerous_command_match_levels.simps)
qed

definition sample_script_tree :: "rstring \<Rightarrow> node" where
  "sample_script_tree name =
     Node (lit ''program'') True 0 None
       [Node (lit ''command'') True 0 None
         [Node (lit ''command_name'') True 0 None [Node (lit ''word'') True 0 (Some name) []],
          Node (lit ''word'') True 3 (Some (lit ''-rf'')) []]]"

definition sample_script_parser :: script_parser where
  "sample_script_parser script =
     (if script = lit ''ls -rf'' then Some (sample_script_tree (lit ''ls''), False)
      else if script = lit ''rm -rf'' then Some (sample_script_tree (lit ''rm''), False)
      else None)"

lemma sample_bash_grammar: "bash_grammar sample_script_parser"
proof -
  have "list_all (\<lambda>n. is_command_node n \<longrightarrow> command_name_first n) (descendants (sample_script_tree (lit ''ls'')))"
    "list_all (\<lambda>n. is_command_node n \<longrightarrow> command_name_first n) (descendants (sample_script_tree (lit ''rm'')))"
    by code_simp+
  moreover have "parse_shell_script_into_commands sample_script_parser (lit ''bash'') = None" by code_simp
  ultimately show ?thesis
    by (auto simp: bash_grammar_def list_all_iff sample_script_parser_def split: if_splits)
qed

theorem safe_command_not_dangerous_witness:
  "is_known_safe_command sample_script_parser [lit ''zsh'', lit ''-lc'', lit ''ls -rf''] \<and>
   dangerous_command_match sample_script_parser [lit ''zsh'', lit ''-lc'', lit ''ls -rf''] = None \<and>
   dangerous_command_match sample_script_parser [lit ''zsh'', lit ''-lc'', lit ''rm -rf''] = Some ForcedRm"
proof (intro conjI)
  show safe: "is_known_safe_command sample_script_parser [lit ''zsh'', lit ''-lc'', lit ''ls -rf'']"
    by code_simp
  show "dangerous_command_match sample_script_parser [lit ''zsh'', lit ''-lc'', lit ''ls -rf''] = None"
    by (rule safe_command_not_dangerous [OF sample_bash_grammar safe])
  show "dangerous_command_match sample_script_parser [lit ''zsh'', lit ''-lc'', lit ''rm -rf''] = Some ForcedRm"
    by code_simp
qed

section \<open>The limit on wrappers\<close>

lemma sudo_levels:
  "dangerous_command_match_levels parse (Suc k) (lit ''sudo'' # command) =
     dangerous_command_match_levels parse k command"
proof -
  have key: "executable_name_lookup_key (lit ''sudo'') = Some (lit ''sudo'')"
    and "lit ''sudo'' \<noteq> lit ''rm''" and "plain_name (lit ''sudo'')"
    by code_simp+
  then show ?thesis
    by (simp add: dangerous_command_match_for_exec_def first_opt_def parse_shell_lc_literal_commands_def
        extract_plain [OF key] split: option.splits)
qed

lemma sudo_chain_levels:
  "dangerous_command_match_levels parse k (replicate j (lit ''sudo'') @ command) =
     (if j \<le> k then dangerous_command_match_levels parse (k - j) command else None)"
proof (induction k arbitrary: j)
  case (Suc k)
  then show ?case by (cases j) (simp_all add: sudo_levels del: dangerous_command_match_levels.simps)
qed simp

text \<open>
  The search through wrappers is bounded: a forced \<^verbatim>\<open>rm\<close> behind a chain of \<^verbatim>\<open>sudo\<close> is flagged
  exactly when the chain has at most \<^verbatim>\<open>MAX_DANGEROUS_COMMAND_WRAPPER_DEPTH\<close> (8) links; at the limit it is
  still flagged, and one link more makes the search give up without a match.
\<close>

theorem sudo_chain_bound:
  assumes "rm_args_include_force_option args"
  shows "dangerous_command_match parse (replicate k (lit ''sudo'') @ lit ''rm'' # args) =
    (if k \<le> MAX_DANGEROUS_COMMAND_WRAPPER_DEPTH then Some ForcedRm else None)"
proof -
  have "executable_name_lookup_key (lit ''rm'') = Some (lit ''rm'')" by code_simp
  then have rm: "dangerous_command_match_levels parse (Suc j) (lit ''rm'' # args) = Some ForcedRm" for j
    using assms by (simp add: dangerous_command_match_for_exec_def first_opt_def)
  show ?thesis
  proof (cases "k \<le> MAX_DANGEROUS_COMMAND_WRAPPER_DEPTH")
    case True
    then have "MAX_DANGEROUS_COMMAND_WRAPPER_DEPTH + 1 - k = Suc (MAX_DANGEROUS_COMMAND_WRAPPER_DEPTH - k)" by simp
    with True rm show ?thesis
      by (simp add: dangerous_command_match_def dangerous_command_match_with_depth_def sudo_chain_levels
          del: dangerous_command_match_levels.simps)
  next
    case False
    then have "k = Suc MAX_DANGEROUS_COMMAND_WRAPPER_DEPTH \<or> \<not> k \<le> Suc MAX_DANGEROUS_COMMAND_WRAPPER_DEPTH" by auto
    then have "dangerous_command_match_levels parse (Suc MAX_DANGEROUS_COMMAND_WRAPPER_DEPTH)
        (replicate k (lit ''sudo'') @ lit ''rm'' # args) = None"
      unfolding sudo_chain_levels by auto
    with False show ?thesis
      by (simp add: dangerous_command_match_def dangerous_command_match_with_depth_def
          del: dangerous_command_match_levels.simps)
  qed
qed

theorem sudo_chain_bound_witness:
  "dangerous_command_match (\<lambda>_. None) (replicate 8 (lit ''sudo'') @ lit ''rm'' # [lit ''-rf'', lit ''/'']) = Some ForcedRm \<and>
   dangerous_command_match (\<lambda>_. None) (replicate 9 (lit ''sudo'') @ lit ''rm'' # [lit ''-rf'', lit ''/'']) = None"
proof -
  have "rm_args_include_force_option [lit ''-rf'', lit ''/'']" by code_simp
  from sudo_chain_bound [OF this, of "\<lambda>_. None" 8] sudo_chain_bound [OF this, of "\<lambda>_. None" 9] show ?thesis
    by (simp add: MAX_DANGEROUS_COMMAND_WRAPPER_DEPTH_def)
qed

section \<open>Git commands that are safe\<close>

lemma value_option_dash: "is_git_global_option_with_value a \<Longrightarrow> starts_with [45] a"
  by (auto simp: is_git_global_option_with_value_def starts_with_def lit_def)

lemma value_option_unsafe:
  "is_git_global_option_with_value a \<Longrightarrow> git_matches_option_pattern a UNSAFE_GIT_GLOBAL_OPTIONS"
  by (auto simp: is_git_global_option_with_value_def git_matches_option_pattern_def UNSAFE_GIT_GLOBAL_OPTIONS_def)

lemma starts_with_head: "starts_with (c # p) s \<Longrightarrow> starts_with [c] s"
  by (cases s) (auto simp: starts_with_def split: if_splits)

lemma inline_option_dash: "is_git_global_option_with_inline_value a \<Longrightarrow> starts_with [45] a"
  by (auto simp: is_git_global_option_with_inline_value_def lit_def intro: starts_with_head)

lemma git_loop_options:
  assumes "list_all (\<lambda>a. starts_with [45] a \<and> \<not> is_git_global_option_with_value a) opts"
    and "\<not> starts_with [45] sub"
  shows "git_subcommand_loop subs False i (opts @ sub # args) =
    (if sub \<in> set subs then Some (i + length opts, sub) else None)"
  using assms
proof (induction opts arbitrary: i)
  case Nil
  have "sub \<noteq> lit ''--''" using Nil by (auto simp: lit_def starts_with_def)
  with Nil show ?case using value_option_dash [of sub] inline_option_dash [of sub] by auto
qed auto

lemma git_loop_Some:
  assumes "git_subcommand_loop subs skip i args = Some (j, sub)"
  shows "\<exists>opts rest. args = opts @ sub # rest \<and> j = i + length opts \<and> sub \<in> set subs \<and>
    (\<not> skip \<and> list_all (\<lambda>a. \<not> is_git_global_option_with_value a) opts \<longrightarrow> list_all (starts_with [45]) opts)"
  using assms
proof (induction args arbitrary: skip i)
  case (Cons arg args)
  show ?case
  proof (cases "\<not> skip \<and> \<not> is_git_global_option_with_inline_value arg \<and> \<not> is_git_global_option_with_value arg \<and>
      \<not> (arg = lit ''--'' \<or> starts_with [45] arg)")
    case True
    with Cons.prems have "arg \<in> set subs" "j = i" "sub = arg" by (auto split: if_splits)
    then show ?thesis by (intro exI [of _ "[]"] exI [of _ args]) simp
  next
    case False
    let ?skip = "\<not> skip \<and> \<not> is_git_global_option_with_inline_value arg \<and> is_git_global_option_with_value arg"
    have "starts_with [45] (lit ''--'')" by code_simp
    with False have dash: "\<not> skip \<Longrightarrow> starts_with [45] arg"
      using value_option_dash [of arg] inline_option_dash [of arg] by blast
    have "git_subcommand_loop subs ?skip (Suc i) args = Some (j, sub)"
      using False Cons.prems by (simp split: if_splits)
    from Cons.IH [OF this] obtain opts rest where "args = opts @ sub # rest" "j = Suc i + length opts"
      "sub \<in> set subs"
      "\<not> ?skip \<and> list_all (\<lambda>a. \<not> is_git_global_option_with_value a) opts \<longrightarrow> list_all (starts_with [45]) opts"
      by blast
    then show ?thesis using dash by (intro exI [of _ "arg # opts"] exI [of _ rest]) auto
  qed
qed simp

lemma branch_args_loop_iff: "branch_args_loop saw args \<longleftrightarrow> list_all branch_read_only_flag args \<and> (saw \<or> args \<noteq> [])"
  by (induction saw args rule: branch_args_loop.induct) auto

lemma git_branch_is_read_only_iff: "git_branch_is_read_only args \<longleftrightarrow> list_all branch_read_only_flag args"
  by (simp add: git_branch_is_read_only_def branch_args_loop_iff)

definition safe_git_shape :: "rstring list \<Rightarrow> rstring list \<Rightarrow> rstring \<Rightarrow> rstring list \<Rightarrow> bool" where
  "safe_git_shape cmd opts sub args \<longleftrightarrow>
     cmd \<noteq> [] \<and> executable_name_lookup_key (hd cmd) = Some (lit ''git'') \<and> tl cmd = opts @ sub # args \<and>
     sub \<in> set SAFE_GIT_SUBCOMMANDS \<and>
     list_all (\<lambda>a. starts_with [45] a \<and> \<not> git_matches_option_pattern a UNSAFE_GIT_GLOBAL_OPTIONS) opts \<and>
     list_all (\<lambda>a. \<not> git_matches_option_pattern a UNSAFE_GIT_SUBCOMMAND_OPTIONS) args \<and>
     (sub = lit ''branch'' \<longrightarrow> list_all branch_read_only_flag args)"

lemma safe_subcommands:
  "sub \<in> set SAFE_GIT_SUBCOMMANDS \<longleftrightarrow>
     sub \<in> {lit ''status'', lit ''log'', lit ''diff'', lit ''show''} \<or> sub = lit ''branch''"
  by (auto simp: SAFE_GIT_SUBCOMMANDS_def)

lemma safe_subcommand_no_dash: "sub \<in> set SAFE_GIT_SUBCOMMANDS \<Longrightarrow> \<not> starts_with [45] sub"
proof -
  have "list_all (\<lambda>s. \<not> starts_with [45] s) SAFE_GIT_SUBCOMMANDS" by code_simp
  then show "sub \<in> set SAFE_GIT_SUBCOMMANDS \<Longrightarrow> \<not> starts_with [45] sub" by (simp add: list_all_iff)
qed

lemma branch_not_other: "lit ''branch'' \<notin> {lit ''status'', lit ''log'', lit ''diff'', lit ''show''}"
  by code_simp

lemma is_safe_git_found:
  assumes "find_git_subcommand (git # opts @ sub # args) SAFE_GIT_SUBCOMMANDS = Some (1 + length opts, sub)"
    and "sub \<in> set SAFE_GIT_SUBCOMMANDS"
  shows "is_safe_git_command (git # opts @ sub # args) \<longleftrightarrow>
    list_all (\<lambda>a. \<not> git_matches_option_pattern a UNSAFE_GIT_GLOBAL_OPTIONS) opts \<and>
    list_all (\<lambda>a. \<not> git_matches_option_pattern a UNSAFE_GIT_SUBCOMMAND_OPTIONS) args \<and>
    (sub = lit ''branch'' \<longrightarrow> list_all branch_read_only_flag args)"
  using assms branch_not_other
  by (auto simp: is_safe_git_command_def safe_subcommands git_has_unsafe_global_option_def
      git_subcommand_args_are_read_only_def git_branch_is_read_only_iff list_all_iff list_ex_iff)

text \<open>
  C17. \<^verbatim>\<open>is_safe_git_command\<close> accepts exactly the commands of one shape: the program is \<^verbatim>\<open>git\<close>; before the
  subcommand there are only options, none of which changes the directory, the configuration or the
  pager; the subcommand is one of the five read-only ones; none of its arguments writes a file or
  runs a program; and \<^verbatim>\<open>git branch\<close> has only flags that list. No option with a separate value can
  smuggle a second word between the options and the subcommand.
\<close>

theorem safe_git_command_iff_shape:
  "is_safe_git_command cmd \<longleftrightarrow> (\<exists>opts sub args. safe_git_shape cmd opts sub args)"
proof
  assume safe: "is_safe_git_command cmd"
  then obtain j sub where found: "find_git_subcommand cmd SAFE_GIT_SUBCOMMANDS = Some (j, sub)"
    by (auto simp: is_safe_git_command_def split: option.splits)
  then obtain git rest where cmd: "cmd = git # rest" and git: "executable_name_lookup_key git = Some (lit ''git'')"
    and loop: "git_subcommand_loop SAFE_GIT_SUBCOMMANDS False 1 rest = Some (j, sub)"
    by (cases cmd) (auto simp: find_git_subcommand_def first_opt_def split: if_splits)
  from git_loop_Some [OF loop] obtain opts args where o: "rest = opts @ sub # args" "j = 1 + length opts"
    "sub \<in> set SAFE_GIT_SUBCOMMANDS"
    "list_all (\<lambda>a. \<not> is_git_global_option_with_value a) opts \<longrightarrow> list_all (starts_with [45]) opts"
    by auto
  have facts: "list_all (\<lambda>a. \<not> git_matches_option_pattern a UNSAFE_GIT_GLOBAL_OPTIONS) opts"
    "list_all (\<lambda>a. \<not> git_matches_option_pattern a UNSAFE_GIT_SUBCOMMAND_OPTIONS) args"
    "sub = lit ''branch'' \<longrightarrow> list_all branch_read_only_flag args"
    using is_safe_git_found [of git opts sub args] safe found cmd o by auto
  then have "list_all (\<lambda>a. \<not> is_git_global_option_with_value a) opts"
    using value_option_unsafe by (auto simp: list_all_iff)
  with facts o git cmd have "safe_git_shape cmd opts sub args" by (auto simp: safe_git_shape_def list_all_iff)
  then show "\<exists>opts sub args. safe_git_shape cmd opts sub args" by blast
next
  assume "\<exists>opts sub args. safe_git_shape cmd opts sub args"
  then obtain git opts sub args where cmd: "cmd = git # opts @ sub # args"
    and shape: "safe_git_shape cmd opts sub args"
    by (metis safe_git_shape_def list.collapse)
  then have sub: "sub \<in> set SAFE_GIT_SUBCOMMANDS" and git: "executable_name_lookup_key git = Some (lit ''git'')"
    by (simp_all add: safe_git_shape_def)
  have opts: "list_all (\<lambda>a. starts_with [45] a \<and> \<not> is_git_global_option_with_value a) opts"
    using shape value_option_unsafe by (auto simp: safe_git_shape_def list_all_iff)
  have "find_git_subcommand cmd SAFE_GIT_SUBCOMMANDS = Some (1 + length opts, sub)"
    using cmd git sub git_loop_options [OF opts safe_subcommand_no_dash [OF sub], of SAFE_GIT_SUBCOMMANDS 1 args]
    by (simp add: find_git_subcommand_def first_opt_def)
  with is_safe_git_found [of git opts sub args] cmd sub shape show "is_safe_git_command cmd"
    by (auto simp: safe_git_shape_def list_all_iff)
qed

section \<open>The argument of sed\<close>

definition digits :: "rstring \<Rightarrow> bool" where
  "digits s \<longleftrightarrow> s \<noteq> [] \<and> list_all is_ascii_digit s"

lemma digits_no_comma: "digits s \<Longrightarrow> 44 \<notin> set s"
  by (auto simp: digits_def list_all_iff is_ascii_digit_def)

text \<open>
  \<^verbatim>\<open>is_valid_sed_n_arg\<close> decides the regular expression of its documentation, \<open>(\d+,)?\d+p\<close>: one
  or two runs of ASCII digits separated by a comma and followed by \<^verbatim>\<open>p\<close>, and nothing else.
\<close>

theorem is_valid_sed_n_arg_iff:
  "is_valid_sed_n_arg (Some s) \<longleftrightarrow>
     (\<exists>a b. digits b \<and> (s = b @ lit ''p'' \<or> digits a \<and> s = a @ lit '','' @ b @ lit ''p''))"
proof
  assume valid: "is_valid_sed_n_arg (Some s)"
  then obtain core where s: "s = core @ lit ''p''" "strip_suffix (lit ''p'') s = Some core"
    by (auto simp: is_valid_sed_n_arg_def strip_suffix_Some_iff split: option.splits)
  with valid have "(\<exists>b. split_on 44 core = [b] \<and> digits b) \<or> (\<exists>a b. split_on 44 core = [a, b] \<and> digits a \<and> digits b)"
    by (auto simp: is_valid_sed_n_arg_def digits_def split: list.splits)
  then have "digits core \<or> (\<exists>a b. core = a @ 44 # b \<and> digits a \<and> digits b)"
    by (metis join_split_on join.simps(2,3) append_Cons append_Nil)
  moreover have "lit '','' = [44]" by code_simp
  ultimately show "\<exists>a b. digits b \<and> (s = b @ lit ''p'' \<or> digits a \<and> s = a @ lit '','' @ b @ lit ''p'')"
    using s(1) by auto
next
  assume "\<exists>a b. digits b \<and> (s = b @ lit ''p'' \<or> digits a \<and> s = a @ lit '','' @ b @ lit ''p'')"
  then obtain core where s: "strip_suffix (lit ''p'') s = Some core"
    and core: "digits core \<or> (\<exists>a b. core = a @ 44 # b \<and> digits a \<and> digits b)"
    by (fastforce simp: strip_suffix_Some_iff lit_def)
  from core show "is_valid_sed_n_arg (Some s)"
  proof
    assume "digits core"
    with s digits_no_comma show ?thesis by (simp add: is_valid_sed_n_arg_def split_on_id digits_def)
  next
    assume "\<exists>a b. core = a @ 44 # b \<and> digits a \<and> digits b"
    with s digits_no_comma show ?thesis by (auto simp: is_valid_sed_n_arg_def split_on_append split_on_id digits_def)
  qed
qed

end
