(* ===== verification/Stream_Text.thy ===== *)
theory Stream_Text
  imports Rust_Prelude "HOL-Library.Word"
begin

text \<open>
  \<^verbatim>\<open>codex-rs/utils/stream-parser/src\<close>: the interface of a parser of streamed text (\<^verbatim>\<open>stream_text.rs\<close>) and
  the parser that feeds it with bytes (\<^verbatim>\<open>utf8_stream.rs\<close>). The trait \<^verbatim>\<open>StreamTextParser\<close> is a locale; what
  the wrapper promises is proved once in it. A call that does not return is \<open>None\<close>.
\<close>

section \<open>Chunks of output\<close>

record 'e stream_text_chunk =
  visible_text :: rstring
  extracted :: "'e list"

definition default_chunk :: "'e stream_text_chunk" where
  "default_chunk = \<lparr>visible_text = [], extracted = []\<rparr>"

definition chunk_is_empty :: "'e stream_text_chunk \<Rightarrow> bool" where
  "chunk_is_empty c \<longleftrightarrow> visible_text c = [] \<and> extracted c = []"

definition append_chunk :: "'e stream_text_chunk \<Rightarrow> 'e stream_text_chunk \<Rightarrow> 'e stream_text_chunk" where
  "append_chunk a b = \<lparr>visible_text = visible_text a @ visible_text b, extracted = extracted a @ extracted b\<rparr>"

lemma append_default [simp]: "append_chunk default_chunk c = c" "append_chunk c default_chunk = c"
  by (simp_all add: append_chunk_def default_chunk_def)

lemma append_chunk_assoc: "append_chunk (append_chunk a b) c = append_chunk a (append_chunk b c)"
  by (simp add: append_chunk_def)

lemma append_chunk_fields [simp]:
  "visible_text (append_chunk a b) = visible_text a @ visible_text b"
  "extracted (append_chunk a b) = extracted a @ extracted b"
  "visible_text default_chunk = []" "extracted default_chunk = []"
  by (simp_all add: append_chunk_def default_chunk_def)


section \<open>Decoding UTF-8\<close>

text \<open>\<^verbatim>\<open>std::str::from_utf8\<close>: the first code point of a non-empty buffer, if it is there.\<close>

datatype utf8_first = Decoded rchar nat | NeedMore | Invalid nat

definition utf8_width :: "nat \<Rightarrow> nat" where
  "utf8_width b =
     (if b < 128 then 1 else if 194 \<le> b \<and> b \<le> 223 then 2 else if 224 \<le> b \<and> b \<le> 239 then 3
      else if 240 \<le> b \<and> b \<le> 244 then 4 else 0)"

definition is_continuation :: "nat \<Rightarrow> bool" where
  "is_continuation b \<longleftrightarrow> 128 \<le> b \<and> b \<le> 191"

definition second_byte_ok :: "nat \<Rightarrow> nat \<Rightarrow> bool" where
  "second_byte_ok b0 b1 \<longleftrightarrow>
     (if b0 = 224 then 160 \<le> b1 \<and> b1 \<le> 191
      else if b0 = 237 then 128 \<le> b1 \<and> b1 \<le> 159
      else if b0 = 240 then 144 \<le> b1 \<and> b1 \<le> 191
      else if b0 = 244 then 128 \<le> b1 \<and> b1 \<le> 143
      else is_continuation b1)"

fun decode_first :: "nat list \<Rightarrow> utf8_first" where
  "decode_first [] = NeedMore"
| "decode_first (b0 # r0) =
     (if utf8_width b0 = 0 then Invalid 1
      else if utf8_width b0 = 1 then Decoded b0 1
      else (case r0 of
          [] \<Rightarrow> NeedMore
        | b1 # r1 \<Rightarrow>
            if \<not> second_byte_ok b0 b1 then Invalid 1
            else if utf8_width b0 = 2 then Decoded ((b0 - 192) * 64 + (b1 - 128)) 2
            else (case r1 of
                [] \<Rightarrow> NeedMore
              | b2 # r2 \<Rightarrow>
                  if \<not> is_continuation b2 then Invalid 2
                  else if utf8_width b0 = 3
                    then Decoded ((b0 - 224) * 4096 + (b1 - 128) * 64 + (b2 - 128)) 3
                  else (case r2 of
                      [] \<Rightarrow> NeedMore
                    | b3 # r3 \<Rightarrow>
                        if \<not> is_continuation b3 then Invalid 3
                        else Decoded ((b0 - 240) * 262144 + (b1 - 128) * 4096 + (b2 - 128) * 64 + (b3 - 128)) 4))))"

lemma decode_first_width: "decode_first bs = Decoded c n \<Longrightarrow> 0 < n \<and> n \<le> length bs"
  by (cases bs) (auto split: if_splits list.splits)

function utf8_scan :: "nat list \<Rightarrow> rstring \<times> nat \<times> nat option option" where
  "utf8_scan bs =
     (if bs = [] then ([], 0, None)
      else (case decode_first bs of
          Decoded c n \<Rightarrow> (case utf8_scan (drop n bs) of (t, v, e) \<Rightarrow> (c # t, n + v, e))
        | NeedMore \<Rightarrow> ([], 0, Some None)
        | Invalid k \<Rightarrow> ([], 0, Some (Some k))))"
  by pat_completeness auto

termination
  by (relation "measure length") (auto dest: decode_first_width)

declare utf8_scan.simps [simp del]

type_synonym bytes = "8 word list"

definition from_utf8 :: "bytes \<Rightarrow> nat \<times> nat option + rstring" where
  "from_utf8 bs = (case utf8_scan (map unat bs) of (t, v, None) \<Rightarrow> Inr t | (t, v, Some e) \<Rightarrow> Inl (v, e))"


section \<open>Feeding bytes (utf8\_stream.rs)\<close>

datatype utf8_stream_parser_error = InvalidUtf8 nat nat | IncompleteUtf8AtEof

record 's utf8_stream_parser =
  inner :: 's
  pending_utf8 :: bytes

type_synonym ('s, 'e) push = "'s \<Rightarrow> rstring \<Rightarrow> ('s \<times> 'e stream_text_chunk) option"
type_synonym ('s, 'e) flush = "'s \<Rightarrow> ('s \<times> 'e stream_text_chunk) option"

definition utf8_new :: "'s \<Rightarrow> 's utf8_stream_parser" where
  "utf8_new s = \<lparr>inner = s, pending_utf8 = []\<rparr>"

definition push_bytes ::
  "('s, 'e) push \<Rightarrow> 's utf8_stream_parser \<Rightarrow> bytes \<Rightarrow>
     ('s utf8_stream_parser \<times> (utf8_stream_parser_error + 'e stream_text_chunk)) option" where
  "push_bytes push_str p chunk =
     (let old_len = length (pending_utf8 p); buf = pending_utf8 p @ chunk in
      case from_utf8 buf of
        Inr txt \<Rightarrow>
          (case push_str (inner p) txt of
             None \<Rightarrow> None
           | Some (s, out) \<Rightarrow> Some (\<lparr>inner = s, pending_utf8 = []\<rparr>, Inr out))
      | Inl (valid_up_to, Some error_len) \<Rightarrow>
          Some (p\<lparr>pending_utf8 := take old_len buf\<rparr>, Inl (InvalidUtf8 valid_up_to error_len))
      | Inl (valid_up_to, None) \<Rightarrow>
          if valid_up_to = 0 then Some (p\<lparr>pending_utf8 := buf\<rparr>, Inr default_chunk)
          else (case from_utf8 (take valid_up_to buf) of
              Inl (v, e) \<Rightarrow>
                Some (p\<lparr>pending_utf8 := take old_len buf\<rparr>, Inl (InvalidUtf8 v (case e of None \<Rightarrow> 0 | Some k \<Rightarrow> k)))
            | Inr txt \<Rightarrow>
                (case push_str (inner p) txt of
                   None \<Rightarrow> None
                 | Some (s, out) \<Rightarrow> Some (\<lparr>inner = s, pending_utf8 = drop valid_up_to buf\<rparr>, Inr out))))"

definition utf8_pending_error :: "bytes \<Rightarrow> utf8_stream_parser_error option" where
  "utf8_pending_error bs =
     (case from_utf8 bs of
        Inr _ \<Rightarrow> None
      | Inl (v, Some k) \<Rightarrow> Some (InvalidUtf8 v k)
      | Inl (v, None) \<Rightarrow> Some IncompleteUtf8AtEof)"

definition utf8_finish ::
  "('s, 'e) push \<Rightarrow> ('s, 'e) flush \<Rightarrow> 's utf8_stream_parser \<Rightarrow>
     ('s utf8_stream_parser \<times> (utf8_stream_parser_error + 'e stream_text_chunk)) option" where
  "utf8_finish push_str finish p =
     (case (if pending_utf8 p \<noteq> [] then utf8_pending_error (pending_utf8 p) else None) of
        Some err \<Rightarrow> Some (p, Inl err)
      | None \<Rightarrow>
          (let flushed =
             (if pending_utf8 p = [] then Some (Inr (inner p, default_chunk))
              else (case from_utf8 (pending_utf8 p) of
                      Inl (v, e) \<Rightarrow> Some (Inl (InvalidUtf8 v (case e of None \<Rightarrow> 0 | Some k \<Rightarrow> k)))
                    | Inr txt \<Rightarrow> map_option Inr (push_str (inner p) txt))) in
           case flushed of
             None \<Rightarrow> None
           | Some (Inl err) \<Rightarrow> Some (p, Inl err)
           | Some (Inr (s, out)) \<Rightarrow>
               (case finish s of
                  None \<Rightarrow> None
                | Some (s', tail) \<Rightarrow> Some (\<lparr>inner = s', pending_utf8 = []\<rparr>, Inr (append_chunk out tail)))))"

definition into_inner :: "'s utf8_stream_parser \<Rightarrow> utf8_stream_parser_error + 's" where
  "into_inner p =
     (if pending_utf8 p = [] then Inr (inner p)
      else (case utf8_pending_error (pending_utf8 p) of None \<Rightarrow> Inr (inner p) | Some err \<Rightarrow> Inl err))"

definition into_inner_lossy :: "'s utf8_stream_parser \<Rightarrow> 's" where
  "into_inner_lossy p = inner p"

text \<open>A stream of chunks, fed one after the other; an error stops it.\<close>

fun feed :: "('s, 'e) push \<Rightarrow> 's \<Rightarrow> rstring list \<Rightarrow> ('s \<times> 'e stream_text_chunk) option" where
  "feed push_str s [] = Some (s, default_chunk)"
| "feed push_str s (c # cs) =
     (case push_str s c of
        None \<Rightarrow> None
      | Some (s1, o1) \<Rightarrow> map_option (\<lambda>(s2, o2). (s2, append_chunk o1 o2)) (feed push_str s1 cs))"

fun feed_bytes ::
  "('s, 'e) push \<Rightarrow> 's utf8_stream_parser \<Rightarrow> bytes list \<Rightarrow>
     ('s utf8_stream_parser \<times> (utf8_stream_parser_error + 'e stream_text_chunk)) option" where
  "feed_bytes push_str p [] = Some (p, Inr default_chunk)"
| "feed_bytes push_str p (c # cs) =
     (case push_bytes push_str p c of
        None \<Rightarrow> None
      | Some (p1, Inl err) \<Rightarrow> Some (p1, Inl err)
      | Some (p1, Inr o1) \<Rightarrow>
          (case feed_bytes push_str p1 cs of
             None \<Rightarrow> None
           | Some (p2, Inl err) \<Rightarrow> Some (p2, Inl err)
           | Some (p2, Inr o2) \<Rightarrow> Some (p2, Inr (append_chunk o1 o2))))"


section \<open>How decoding and concatenation interact\<close>

lemma decode_first_append:
  "decode_first bs = Decoded c n \<Longrightarrow> decode_first (bs @ rest) = Decoded c n"
  "decode_first bs = Invalid k \<Longrightarrow> decode_first (bs @ rest) = Invalid k"
  by (cases bs; auto split: if_splits list.splits)+

lemma decode_first_take: "decode_first bs = Decoded c n \<Longrightarrow> decode_first (take n bs) = Decoded c n"
  by (cases bs) (auto split: if_splits list.splits dest!: sym [of "Suc 0"])

lemma utf8_scan_Nil [simp]: "utf8_scan [] = ([], 0, None)"
  by (simp add: utf8_scan.simps [of "[]"])

lemma utf8_scan_bound: "utf8_scan bs = (t, v, e) \<Longrightarrow> v \<le> length bs"
proof (induction bs arbitrary: t v e rule: utf8_scan.induct)
  case (1 bs)
  show ?case
  proof (cases "decode_first bs")
    case (Decoded c n)
    obtain t' v' e' where r: "utf8_scan (drop n bs) = (t', v', e')" by (metis prod_cases3)
    show ?thesis
    proof (cases "bs = []")
      case False
      with 1(1) [OF False Decoded r] 1(2) Decoded r decode_first_width [OF Decoded] show ?thesis
        by (auto simp: utf8_scan.simps [of bs])
    qed (use 1(2) in simp)
  qed (use 1(2) in \<open>auto simp: utf8_scan.simps [of bs] split: if_splits\<close>)
qed

lemma utf8_scan_append:
  assumes "utf8_scan a = (t, v, e)" and "\<And>k. e \<noteq> Some (Some k)"
  shows "utf8_scan (a @ b) = (case utf8_scan (drop v a @ b) of (t', v', e') \<Rightarrow> (t @ t', v + v', e'))"
  using assms(1)
proof (induction a arbitrary: t v rule: utf8_scan.induct)
  case (1 a)
  show ?case
  proof (cases "a = []")
    case True
    with 1(2) show ?thesis by (auto split: prod.splits)
  next
    case ne: False
    show ?thesis
    proof (cases "decode_first a")
      case (Decoded c n)
      obtain t1 v1 where r: "utf8_scan (drop n a) = (t1, v1, e)" and t: "t = c # t1" "v = n + v1"
        using 1(2) ne Decoded by (auto simp: utf8_scan.simps [of a] split: prod.splits)
      have n: "n \<le> length a" using decode_first_width [OF Decoded] by simp
      have "utf8_scan (a @ b) = (case utf8_scan (drop n a @ b) of (t', v', e') \<Rightarrow> (c # t', n + v', e'))"
        using ne n decode_first_append(1) [OF Decoded, of b] by (simp add: utf8_scan.simps [of "a @ b"])
      also have "utf8_scan (drop n a @ b) =
          (case utf8_scan (drop v1 (drop n a) @ b) of (t', v', e') \<Rightarrow> (t1 @ t', v1 + v', e'))"
        using 1(1) [OF ne Decoded r] .
      finally show ?thesis using t by (simp add: add.commute split: prod.splits)
    next
      case NeedMore
      with 1(2) ne have "t = []" "v = 0" by (auto simp: utf8_scan.simps [of a])
      then show ?thesis by (auto split: prod.splits)
    next
      case (Invalid k')
      with 1(2) ne assms(2) show ?thesis by (auto simp: utf8_scan.simps [of a])
    qed
  qed
qed

lemma utf8_scan_Invalid_append:
  assumes "utf8_scan a = (t, v, Some (Some k))"
  shows "utf8_scan (a @ b) = (t, v, Some (Some k))"
  using assms
proof (induction a arbitrary: t v rule: utf8_scan.induct)
  case (1 a)
  show ?case
  proof (cases "decode_first a")
    case (Decoded c n)
    have ne: "a \<noteq> []" using Decoded by auto
    obtain t1 v1 where r: "utf8_scan (drop n a) = (t1, v1, Some (Some k))" and t: "t = c # t1" "v = n + v1"
      using 1(2) ne Decoded by (auto simp: utf8_scan.simps [of a] split: prod.splits)
    have "utf8_scan (drop n a @ b) = (t1, v1, Some (Some k))" using 1(1) [OF ne Decoded r] .
    then show ?thesis
      using ne t decode_first_width [OF Decoded] decode_first_append(1) [OF Decoded, of b]
      by (simp add: utf8_scan.simps [of "a @ b"])
  next
    case NeedMore
    then show ?thesis using 1(2) by (auto simp: utf8_scan.simps [of a] split: if_splits)
  next
    case (Invalid k')
    then show ?thesis
      using 1(2) decode_first_append(2) [OF Invalid, of b]
      by (auto simp: utf8_scan.simps [of a] utf8_scan.simps [of "a @ b"] split: if_splits)
  qed
qed

lemma utf8_scan_take: "utf8_scan a = (t, v, e) \<Longrightarrow> utf8_scan (take v a) = (t, v, None)"
proof (induction a arbitrary: t v e rule: utf8_scan.induct)
  case (1 a)
  show ?case
  proof (cases "decode_first a")
    case (Decoded c n)
    have ne: "a \<noteq> []" using Decoded by auto
    obtain t1 v1 where r: "utf8_scan (drop n a) = (t1, v1, e)" and t: "t = c # t1" "v = n + v1"
      using 1(2) ne Decoded by (auto simp: utf8_scan.simps [of a] split: prod.splits)
    have n: "0 < n" "n \<le> length a" using decode_first_width [OF Decoded] by auto
    have "decode_first (take v a) = Decoded c n"
      using decode_first_append(1) [OF decode_first_take [OF Decoded], of "take v1 (drop n a)"] t(2)
      by (simp add: take_add)
    moreover have "take v a \<noteq> []" using n ne t(2) by simp
    moreover have "drop n (take v a) = take v1 (drop n a)" using t(2) by (simp add: drop_take)
    ultimately show ?thesis
      using t(1) t(2) 1(1) [OF ne Decoded r] unfolding utf8_scan.simps [of "take v a"] by simp
  qed (use 1(2) in \<open>auto simp: utf8_scan.simps [of a] split: if_splits\<close>)
qed

text \<open>What is left over after decoding is the beginning of one code point.\<close>

definition partial_code_point :: "bytes \<Rightarrow> bool" where
  "partial_code_point bs \<longleftrightarrow> bs = [] \<or> decode_first (map unat bs) = NeedMore"

lemma utf8_scan_leftover:
  assumes "utf8_scan a = (t, v, e)" and "\<And>k. e \<noteq> Some (Some k)"
  shows "drop v a = [] \<or> decode_first (drop v a) = NeedMore" and "e = None \<Longrightarrow> drop v a = []"
proof -
  have "(drop v a = [] \<or> decode_first (drop v a) = NeedMore) \<and> (e = None \<longrightarrow> drop v a = [])"
    using assms(1)
  proof (induction a arbitrary: t v rule: utf8_scan.induct)
    case (1 a)
    show ?case
    proof (cases "decode_first a")
      case (Decoded c n)
      have ne: "a \<noteq> []" using Decoded by auto
      obtain t1 v1 where r: "utf8_scan (drop n a) = (t1, v1, e)" and t: "v = n + v1"
        using 1(2) ne Decoded by (auto simp: utf8_scan.simps [of a] split: prod.splits)
      have "drop v a = drop v1 (drop n a)" using t by (simp add: add.commute)
      with 1(1) [OF ne Decoded r] show ?thesis by metis
    qed (use 1(2) assms(2) in \<open>auto simp: utf8_scan.simps [of a] split: if_splits\<close>)
  qed
  then show "drop v a = [] \<or> decode_first (drop v a) = NeedMore" and "e = None \<Longrightarrow> drop v a = []" by auto
qed


section \<open>The interface of a parser\<close>

text \<open>
  Pushing a text in two parts is the same as pushing it at once, up to a normal form of what is
  extracted; in the states that occur a push returns.
\<close>

locale stream_text_parser =
  fixes push_str :: "('s, 'e) push"
    and ok :: "'s \<Rightarrow> bool"
    and normal :: "'e list \<Rightarrow> 'e list"
  assumes push_returns: "ok s \<Longrightarrow> \<exists>s' out. push_str s t = Some (s', out) \<and> ok s'"
    and push_Nil: "ok s \<Longrightarrow> push_str s [] = Some (s, default_chunk)"
    and push_append: "ok s \<Longrightarrow> push_str s a = Some (s1, o1) \<Longrightarrow> push_str s1 b = Some (s2, o2) \<Longrightarrow>
      \<exists>out. push_str s (a @ b) = Some (s2, out) \<and> visible_text out = visible_text o1 @ visible_text o2 \<and>
        normal (extracted out) = normal (extracted o1 @ extracted o2)"
    and normal_append: "normal (normal xs @ normal ys) = normal (xs @ ys)"
begin

definition same_output :: "'e stream_text_chunk \<Rightarrow> 'e stream_text_chunk \<Rightarrow> bool" where
  "same_output a b \<longleftrightarrow> visible_text a = visible_text b \<and> normal (extracted a) = normal (extracted b)"

lemma same_output_refl [simp]: "same_output a a"
  by (simp add: same_output_def)

lemma same_output_sym: "same_output a b \<Longrightarrow> same_output b a"
  by (simp add: same_output_def)

lemma same_output_trans: "same_output a b \<Longrightarrow> same_output b c \<Longrightarrow> same_output a c"
  by (simp add: same_output_def)

lemma same_output_append:
  "same_output a a' \<Longrightarrow> same_output b b' \<Longrightarrow> same_output (append_chunk a b) (append_chunk a' b')"
  using normal_append [of "extracted a" "extracted b"] normal_append [of "extracted a'" "extracted b'"]
  by (simp add: same_output_def)

lemma push_two:
  assumes "ok s" "push_str s a = Some (s1, o1)" "push_str s1 b = Some (s2, o2)"
  obtains out where "push_str s (a @ b) = Some (s2, out)" "same_output out (append_chunk o1 o2)"
  using push_append [OF assms] by (auto simp: same_output_def)

lemma push_ok: "ok s \<Longrightarrow> push_str s t = Some (s', out) \<Longrightarrow> ok s'"
  using push_returns [of s t] by auto

lemma feed_fragments:
  assumes "ok s"
  shows "\<exists>s' out whole. feed push_str s cs = Some (s', out) \<and> push_str s (concat cs) = Some (s', whole) \<and>
    ok s' \<and> same_output out whole"
  using assms
proof (induction cs arbitrary: s)
  case Nil
  then show ?case by (simp add: push_Nil)
next
  case (Cons c cs)
  obtain s1 o1 where c: "push_str s c = Some (s1, o1)" and ok1: "ok s1" using push_returns [OF Cons.prems] by blast
  from Cons.IH [OF ok1] obtain s2 o2 w2 where r: "feed push_str s1 cs = Some (s2, o2)"
    "push_str s1 (concat cs) = Some (s2, w2)" "ok s2" "same_output o2 w2"
    by blast
  obtain w where w: "push_str s (c @ concat cs) = Some (s2, w)" "same_output w (append_chunk o1 w2)"
    using push_two [OF Cons.prems c r(2)] .
  have "same_output (append_chunk o1 o2) w"
    using same_output_append [OF same_output_refl r(4), of o1] w(2) by (metis same_output_sym same_output_trans)
  with c r w show ?case by simp
qed

lemma push_bytes_valid:
  assumes "ok (inner p)" and "utf8_scan (map unat (pending_utf8 p @ chunk)) = (t, v, e)"
    and e: "\<And>k. e \<noteq> Some (Some k)"
  shows "\<exists>s out. push_str (inner p) t = Some (s, out) \<and> ok s \<and>
    push_bytes push_str p chunk = Some (\<lparr>inner = s, pending_utf8 = drop v (pending_utf8 p @ chunk)\<rparr>, Inr out)"
proof -
  let ?buf = "pending_utf8 p @ chunk"
  obtain s out where s: "push_str (inner p) t = Some (s, out)" "ok s" using push_returns [OF assms(1)] by blast
  consider "e = None" | "e = Some None" using e by (cases e) auto
  then show ?thesis
  proof cases
    case 1
    then have "drop v (map unat ?buf) = []" using utf8_scan_leftover(2) [OF assms(2) e] by blast
    then have "drop v ?buf = []" by (simp add: drop_map [symmetric])
    with 1 s assms(2) show ?thesis by (simp add: push_bytes_def Let_def from_utf8_def)
  next
    case 2
    show ?thesis
    proof (cases "v = 0")
      case True
      have "t = []" using utf8_scan_take [OF assms(2)] True by simp
      with s push_Nil [OF assms(1)] have "s = inner p" "out = default_chunk" by auto
      with s True 2 assms(2) show ?thesis by (simp add: push_bytes_def Let_def from_utf8_def)
    next
      case False
      have "utf8_scan (map unat (take v ?buf)) = (t, v, None)"
        using utf8_scan_take [OF assms(2)] by (simp add: take_map)
      with s False 2 assms(2) show ?thesis by (simp add: push_bytes_def Let_def from_utf8_def)
    qed
  qed
qed

lemma feed_bytes_fragments:
  assumes "ok (inner p)" and "partial_code_point (pending_utf8 p)"
    and "from_utf8 (pending_utf8 p @ concat cs) = Inr t"
  shows "\<exists>s out whole. feed_bytes push_str p cs = Some (\<lparr>inner = s, pending_utf8 = []\<rparr>, Inr out) \<and>
    push_str (inner p) t = Some (s, whole) \<and> ok s \<and> same_output out whole"
  using assms
proof (induction cs arbitrary: p t)
  case Nil
  have "pending_utf8 p = []"
    using Nil by (auto simp: partial_code_point_def from_utf8_def utf8_scan.simps [of "map unat (pending_utf8 p)"]
        split: if_splits)
  moreover from this Nil have "t = []" by (simp add: from_utf8_def)
  moreover have "p = \<lparr>inner = inner p, pending_utf8 = pending_utf8 p\<rparr>" by simp
  ultimately show ?case using Nil(1) push_Nil [OF Nil(1)] by simp
next
  case (Cons c cs)
  let ?buf = "pending_utf8 p @ c"
  obtain t1 v1 e1 where sc: "utf8_scan (map unat ?buf) = (t1, v1, e1)" by (metis prod_cases3)
  obtain v where whole: "utf8_scan (map unat ?buf @ map unat (concat cs)) = (t, v, None)"
    using Cons.prems(3) by (auto simp: from_utf8_def split: prod.splits option.splits)
  have e1: "e1 \<noteq> Some (Some k)" for k
    using utf8_scan_Invalid_append [of "map unat ?buf" t1 v1 k "map unat (concat cs)"] sc whole by auto
  obtain s1 o1 where s1: "push_str (inner p) t1 = Some (s1, o1)" "ok s1"
    and pb: "push_bytes push_str p c = Some (\<lparr>inner = s1, pending_utf8 = drop v1 ?buf\<rparr>, Inr o1)"
    using push_bytes_valid [OF Cons.prems(1) sc e1] by blast
  obtain t2 v2 where t2: "utf8_scan (map unat (drop v1 ?buf @ concat cs)) = (t2, v2, None)" and t: "t = t1 @ t2"
    using utf8_scan_append [OF sc e1, of "map unat (concat cs)"] whole
    by (auto simp: drop_map split: prod.splits)
  have "partial_code_point (drop v1 ?buf)"
    using utf8_scan_leftover(1) [OF sc e1] by (simp add: partial_code_point_def drop_map)
  moreover have "from_utf8 (drop v1 ?buf @ concat cs) = Inr t2" using t2 by (simp add: from_utf8_def)
  ultimately obtain s2 o2 w2 where r:
    "feed_bytes push_str \<lparr>inner = s1, pending_utf8 = drop v1 ?buf\<rparr> cs = Some (\<lparr>inner = s2, pending_utf8 = []\<rparr>, Inr o2)"
    "push_str s1 t2 = Some (s2, w2)" "ok s2" "same_output o2 w2"
    using Cons.IH [of "\<lparr>inner = s1, pending_utf8 = drop v1 ?buf\<rparr>" t2] s1(2) by auto
  obtain w where w: "push_str (inner p) (t1 @ t2) = Some (s2, w)" "same_output w (append_chunk o1 w2)"
    using push_two [OF Cons.prems(1) s1(1) r(2)] .
  have "same_output (append_chunk o1 o2) w"
    using same_output_append [OF same_output_refl r(4), of o1] w(2) by (metis same_output_sym same_output_trans)
  with pb r w t show ?case by simp
qed

end

end
