(* ===== verification/Hidden_Tags.thy ===== *)
theory Hidden_Tags
  imports Stream_Text
begin

text \<open>
  \<^verbatim>\<open>codex-rs/utils/stream-parser/src/inline_hidden_tag.rs\<close> and \<^verbatim>\<open>citation.rs\<close>: the parser that removes inline
  tags from streamed text and extracts what they enclose.

  Positions in a text are counted in characters where the code counts bytes: the code slices only at
  the boundaries of characters, so the slices are the same.
\<close>

section \<open>Searching\<close>

fun find_str :: "rstring \<Rightarrow> rstring \<Rightarrow> nat option" where
  "find_str needle [] = (if needle = [] then Some 0 else None)"
| "find_str needle (c # s) = (if starts_with needle (c # s) then Some 0 else map_option Suc (find_str needle s))"

fun suffix_prefix_loop :: "rstring \<Rightarrow> rstring \<Rightarrow> nat \<Rightarrow> nat" where
  "suffix_prefix_loop s needle 0 = 0"
| "suffix_prefix_loop s needle (Suc k) =
     (if ends_with (take (Suc k) needle) s then Suc k else suffix_prefix_loop s needle k)"

definition longest_suffix_prefix_len :: "rstring \<Rightarrow> rstring \<Rightarrow> nat" where
  "longest_suffix_prefix_len s needle = suffix_prefix_loop s needle (min (length s) (length needle - 1))"


section \<open>The parser\<close>

record 'a extracted_inline_tag =
  ext_tag :: 'a
  ext_content :: rstring

record 'a inline_tag_spec =
  spec_tag :: 'a
  spec_open :: rstring
  spec_close :: rstring

record 'a active_tag =
  act_tag :: 'a
  act_close :: rstring
  act_content :: rstring

record 'a inline_hidden_tag_parser =
  specs :: "'a inline_tag_spec list"
  pending :: rstring
  active :: "'a active_tag option"

text \<open>\<^verbatim>\<open>new\<close> panics on a missing or empty delimiter: \<open>None\<close>.\<close>

definition hidden_new :: "'a inline_tag_spec list \<Rightarrow> 'a inline_hidden_tag_parser option" where
  "hidden_new sp =
     (if sp = [] then None
      else if list_ex (\<lambda>s. spec_open s = [] \<or> spec_close s = []) sp then None
      else Some \<lparr>specs = sp, pending = [], active = None\<rparr>)"

type_synonym candidate = "nat \<times> nat \<times> nat"

definition open_candidates :: "'a inline_tag_spec list \<Rightarrow> rstring \<Rightarrow> candidate list" where
  "open_candidates sp txt =
     List.map_filter (\<lambda>(idx, spec). map_option (\<lambda>pos. (pos, utf8_len (spec_open spec), idx)) (find_str (spec_open spec) txt))
       (enumerate 0 sp)"

fun candidate_le :: "candidate \<Rightarrow> candidate \<Rightarrow> bool" where
  "candidate_le (pos_a, len_a, idx_a) (pos_b, len_b, idx_b) \<longleftrightarrow>
     pos_a < pos_b \<or> pos_a = pos_b \<and> (len_b < len_a \<or> len_a = len_b \<and> idx_a \<le> idx_b)"

fun min_candidate :: "candidate list \<Rightarrow> candidate option" where
  "min_candidate [] = None"
| "min_candidate (c # cs) =
     (case min_candidate cs of
        None \<Rightarrow> Some c
      | Some m \<Rightarrow> Some (if candidate_le c m then c else m))"

definition find_next_open :: "'a inline_hidden_tag_parser \<Rightarrow> (nat \<times> nat) option" where
  "find_next_open s = map_option (\<lambda>(pos, len, idx). (pos, idx)) (min_candidate (open_candidates (specs s) (pending s)))"

definition max_open_prefix_suffix_len :: "'a inline_hidden_tag_parser \<Rightarrow> nat" where
  "max_open_prefix_suffix_len s =
     fold max (map (\<lambda>spec. longest_suffix_prefix_len (pending s) (spec_open spec)) (specs s)) 0"

definition push_visible_prefix :: "rstring \<Rightarrow> 'e stream_text_chunk \<Rightarrow> 'e stream_text_chunk" where
  "push_visible_prefix txt out = (if txt \<noteq> [] then out\<lparr>visible_text := visible_text out @ txt\<rparr> else out)"

definition drain_visible_to_suffix_match ::
  "nat \<Rightarrow> 'a inline_hidden_tag_parser \<times> 'e stream_text_chunk \<Rightarrow> 'a inline_hidden_tag_parser \<times> 'e stream_text_chunk" where
  "drain_visible_to_suffix_match keep so =
     (case so of (s, out) \<Rightarrow>
        let n = length (pending s) - keep in
        if n = 0 then (s, out)
        else (s\<lparr>pending := drop n (pending s)\<rparr>, push_visible_prefix (take n (pending s)) out))"

partial_function (option) hidden_loop ::
  "'a inline_hidden_tag_parser \<Rightarrow> 'a extracted_inline_tag stream_text_chunk \<Rightarrow>
     ('a inline_hidden_tag_parser \<times> 'a extracted_inline_tag stream_text_chunk) option" where
  "hidden_loop s out =
     (case active s of
        Some act \<Rightarrow>
          (case find_str (act_close act) (pending s) of
             Some i \<Rightarrow>
               hidden_loop (s\<lparr>active := None, pending := drop (i + length (act_close act)) (pending s)\<rparr>)
                 (out\<lparr>extracted := extracted out @
                    [\<lparr>ext_tag = act_tag act, ext_content = act_content act @ take i (pending s)\<rparr>]\<rparr>)
           | None \<Rightarrow>
               (let keep = longest_suffix_prefix_len (pending s) (act_close act);
                    n = length (pending s) - keep in
                Some (if 0 < n
                      then s\<lparr>active := Some (act\<lparr>act_content := act_content act @ take n (pending s)\<rparr>),
                             pending := drop n (pending s)\<rparr>
                      else s, out)))
      | None \<Rightarrow>
          (case find_next_open s of
             Some (i, idx) \<Rightarrow>
               (let spec = specs s ! idx in
                hidden_loop
                  (s\<lparr>pending := drop (i + length (spec_open spec)) (pending s),
                     active := Some \<lparr>act_tag = spec_tag spec, act_close = spec_close spec, act_content = []\<rparr>\<rparr>)
                  (push_visible_prefix (take i (pending s)) out))
           | None \<Rightarrow> Some (drain_visible_to_suffix_match (max_open_prefix_suffix_len s) (s, out))))"

definition hidden_push_str :: "('a inline_hidden_tag_parser, 'a extracted_inline_tag) push" where
  "hidden_push_str s chunk = hidden_loop (s\<lparr>pending := pending s @ chunk\<rparr>) default_chunk"

definition hidden_finish ::
  "'a inline_hidden_tag_parser \<Rightarrow> 'a inline_hidden_tag_parser \<times> 'a extracted_inline_tag stream_text_chunk" where
  "hidden_finish s =
     (case active s of
        Some act \<Rightarrow>
          (s\<lparr>active := None, pending := []\<rparr>,
           \<lparr>visible_text = [],
            extracted = [\<lparr>ext_tag = act_tag act, ext_content = act_content act @ pending s\<rparr>]\<rparr>)
      | None \<Rightarrow> (s\<lparr>pending := []\<rparr>, \<lparr>visible_text = pending s, extracted = []\<rparr>))"


section \<open>Citations (citation.rs)\<close>

datatype citation_tag = Citation

definition CITATION_OPEN :: rstring where
  "CITATION_OPEN = lit ''<oai-mem-citation>''"

definition CITATION_CLOSE :: rstring where
  "CITATION_CLOSE = lit ''</oai-mem-citation>''"

type_synonym citation_stream_parser = "citation_tag inline_hidden_tag_parser"

definition citation_spec :: "citation_tag inline_tag_spec" where
  "citation_spec = \<lparr>spec_tag = Citation, spec_open = CITATION_OPEN, spec_close = CITATION_CLOSE\<rparr>"

definition citation_new :: "citation_stream_parser option" where
  "citation_new = hidden_new [citation_spec]"

definition citation_chunk :: "'a extracted_inline_tag stream_text_chunk \<Rightarrow> rstring stream_text_chunk" where
  "citation_chunk out = \<lparr>visible_text = visible_text out, extracted = map ext_content (extracted out)\<rparr>"

definition citation_push_str :: "(citation_stream_parser, rstring) push" where
  "citation_push_str s chunk = map_option (\<lambda>(s', out). (s', citation_chunk out)) (hidden_push_str s chunk)"

definition citation_finish :: "citation_stream_parser \<Rightarrow> citation_stream_parser \<times> rstring stream_text_chunk" where
  "citation_finish s = (case hidden_finish s of (s', out) \<Rightarrow> (s', citation_chunk out))"

definition strip_citations :: "rstring \<Rightarrow> (rstring \<times> rstring list) option" where
  "strip_citations txt =
     (case citation_new of
        None \<Rightarrow> None
      | Some s \<Rightarrow>
          (case citation_push_str s txt of
             None \<Rightarrow> None
           | Some (s', out) \<Rightarrow>
               (let tail = snd (citation_finish s') in
                Some (visible_text out @ visible_text tail, extracted out @ extracted tail))))"


section \<open>Where a delimiter cannot begin\<close>

text \<open>None of the first \<open>m\<close> positions of \<open>s\<close> begins an occurrence of the needle, even one that goes on after \<open>s\<close>.\<close>

definition no_start :: "rstring \<Rightarrow> nat \<Rightarrow> rstring \<Rightarrow> bool" where
  "no_start needle m s \<longleftrightarrow> (\<forall>j < m. \<not> prefix needle (drop j s) \<and> \<not> prefix (drop j s) needle)"

lemma no_start_mono: "no_start needle m s \<Longrightarrow> k \<le> m \<Longrightarrow> no_start needle k s"
  by (auto simp: no_start_def)

lemma no_start_Cons:
  "no_start needle (Suc m) (c # s) \<longleftrightarrow>
     \<not> prefix needle (c # s) \<and> \<not> prefix (c # s) needle \<and> no_start needle m s"
  unfolding no_start_def by (auto simp: All_less_Suc2)

lemma find_str_Some: "find_str needle s = Some i \<Longrightarrow> prefix needle (drop i s) \<and> i + length needle \<le> length s"
  by (induction s arbitrary: i) (auto simp: starts_with_iff dest: prefix_length_le split: if_splits)

lemma find_str_least: "find_str needle s = Some i \<Longrightarrow> j < i \<Longrightarrow> \<not> prefix needle (drop j s)"
proof (induction s arbitrary: i j)
  case (Cons c s)
  then show ?case by (cases j) (auto simp: starts_with_iff split: if_splits)
qed (auto split: if_splits)

lemma find_str_None: "find_str needle s = None \<Longrightarrow> \<not> prefix needle (drop j s)"
proof (induction s arbitrary: j)
  case (Cons c s)
  then show ?case by (cases j) (auto simp: starts_with_iff split: if_splits)
qed (auto split: if_splits)

lemma find_str_exists: "prefix needle (drop j s) \<Longrightarrow> \<exists>i \<le> j. find_str needle s = Some i"
  using find_str_None [of needle s j] find_str_least [of needle s]
  by (cases "find_str needle s") (auto simp: not_less [symmetric])

lemma find_str_append:
  assumes "find_str needle s = Some i"
  shows "find_str needle (s @ t) = Some i"
  using assms
proof (induction s arbitrary: i)
  case Nil
  then show ?case by (cases t) (auto simp: starts_with_iff split: if_splits)
next
  case (Cons c s)
  show ?case
  proof (cases "prefix needle (c # s)")
    case True
    then have "prefix needle (c # s @ t)" by (metis append_Cons prefix_prefix)
    with True Cons.prems show ?thesis by (simp add: starts_with_iff)
  next
    case False
    with Cons.prems obtain k where k: "i = Suc k" "find_str needle s = Some k" by (auto simp: starts_with_iff)
    then have "length needle \<le> length (c # s)" using find_str_Some [of needle s k] by auto
    then have "\<not> prefix needle (c # s @ t)"
      using False by (metis append_Cons prefix_length_prefix prefixI)
    with k Cons.IH show ?thesis by (simp add: starts_with_iff)
  qed
qed

lemma find_str_shift: "no_start needle (length x) (x @ r) \<Longrightarrow>
    find_str needle (x @ r) = map_option ((+) (length x)) (find_str needle r)"
proof (induction x)
  case (Cons c x)
  then show ?case by (cases "find_str needle r") (auto simp: no_start_Cons starts_with_iff)
qed (cases "find_str needle r", simp_all)

lemma suffix_prefix_loop_bound: "suffix_prefix_loop s needle m \<le> m"
  by (induction m) auto

lemma suffix_prefix_loop_ge: "k \<le> m \<Longrightarrow> suffix (take k needle) s \<Longrightarrow> k \<le> suffix_prefix_loop s needle m"
  by (induction m) (auto simp: ends_with_iff le_Suc_eq)

lemma lsp_bound: "longest_suffix_prefix_len s needle \<le> length s"
  unfolding longest_suffix_prefix_len_def
  by (rule order_trans [OF suffix_prefix_loop_bound]) simp

lemma lsp_ge:
  "k \<le> length s \<Longrightarrow> k < length needle \<Longrightarrow> suffix (take k needle) s \<Longrightarrow> k \<le> longest_suffix_prefix_len s needle"
  unfolding longest_suffix_prefix_len_def by (rule suffix_prefix_loop_ge) simp_all

lemma suffix_prefix_loop_Cons:
  assumes "m \<le> length s" and "m < length needle"
  shows "suffix_prefix_loop (c # s) needle m = suffix_prefix_loop s needle m"
  using assms
proof (induction m)
  case (Suc m)
  have "take (Suc m) needle \<noteq> c # s" using Suc.prems by (auto dest!: arg_cong [of _ _ length])
  then have "ends_with (take (Suc m) needle) (c # s) \<longleftrightarrow> ends_with (take (Suc m) needle) s"
    by (simp add: ends_with_iff suffix_Cons)
  with Suc show ?case by simp
qed simp

lemma lsp_Cons:
  assumes "\<not> prefix (c # s) needle"
  shows "longest_suffix_prefix_len (c # s) needle = longest_suffix_prefix_len s needle"
proof (cases "length needle - 1 \<le> length s")
  case True
  then show ?thesis
    by (cases "needle = []") (simp_all add: longest_suffix_prefix_len_def min_absorb2 suffix_prefix_loop_Cons)
next
  case False
  have "take (Suc (length s)) needle \<noteq> c # s"
    using assms by (metis take_is_prefix)
  moreover have "length (take (Suc (length s)) needle) = length (c # s)" using False by simp
  ultimately have "\<not> ends_with (take (Suc (length s)) needle) (c # s)"
    unfolding ends_with_iff by (metis append_eq_append_conv append_Nil suffix_def)
  with False show ?thesis
    by (simp add: longest_suffix_prefix_len_def min_def suffix_prefix_loop_Cons)
qed

lemma lsp_shift: "no_start needle (length x) (x @ r) \<Longrightarrow>
    longest_suffix_prefix_len (x @ r) needle = longest_suffix_prefix_len r needle"
  by (induction x) (simp_all add: no_start_Cons lsp_Cons)

lemma no_start_of_lsp:
  assumes none: "find_str needle p = None" and m: "m \<le> length p - longest_suffix_prefix_len p needle"
  shows "no_start needle m (p @ b)"
  unfolding no_start_def
proof (intro allI impI)
  fix j assume "j < m"
  then have j: "longest_suffix_prefix_len p needle < length p - j" "j < length p" using m by auto
  have d: "drop j (p @ b) = drop j p @ b" using j by simp
  have "\<not> prefix (drop j p) needle"
  proof
    assume pre: "prefix (drop j p) needle"
    have "\<not> prefix needle (drop j p)" using none by (rule find_str_None)
    then have "length (drop j p) < length needle"
      using pre by (auto simp: prefix_def)
    moreover have "take (length (drop j p)) needle = drop j p" using pre by (metis append_eq_conv_conj prefix_def)
    ultimately have "length (drop j p) \<le> longest_suffix_prefix_len p needle"
      by (intro lsp_ge) (simp_all add: suffix_drop)
    with j show False by simp
  qed
  moreover have "\<not> prefix needle (drop j p)" using none by (rule find_str_None)
  ultimately show "\<not> prefix needle (drop j (p @ b)) \<and> \<not> prefix (drop j (p @ b)) needle"
    unfolding d by (blast dest: append_prefixD prefix_same_cases intro: prefixI)
qed


section \<open>The next opening tag\<close>

lemma candidate_le_refl [simp]: "candidate_le c c"
  by (cases c) simp

lemma candidate_le_trans: "candidate_le a b \<Longrightarrow> candidate_le b c \<Longrightarrow> candidate_le a c"
  by (cases a; cases b; cases c) auto

lemma candidate_le_total: "candidate_le a b \<or> candidate_le b a"
  by (cases a; cases b) auto

lemma candidate_le_antisym: "candidate_le a b \<Longrightarrow> candidate_le b a \<Longrightarrow> a = b"
  by (cases a; cases b) auto

lemma min_candidate_None [simp]: "min_candidate cs = None \<longleftrightarrow> cs = []"
  by (cases cs) (auto split: option.splits)

lemma min_candidate_Some:
  "min_candidate cs = Some m \<Longrightarrow> m \<in> set cs \<and> (\<forall>c \<in> set cs. candidate_le m c)"
proof (induction cs arbitrary: m)
  case (Cons c cs)
  show ?case
  proof (cases "min_candidate cs")
    case None
    with Cons.prems show ?thesis by auto
  next
    case (Some k)
    with Cons show ?thesis
      using candidate_le_total [of c k] by (auto split: if_splits intro: candidate_le_trans)
  qed
qed simp

lemma min_candidateI:
  assumes "m \<in> set cs" and "\<And>c. c \<in> set cs \<Longrightarrow> candidate_le m c"
  shows "min_candidate cs = Some m"
proof -
  obtain k where k: "min_candidate cs = Some k" using assms(1) by (cases "min_candidate cs") auto
  from min_candidate_Some [OF k] assms have "candidate_le m k" "candidate_le k m" by auto
  with k show ?thesis by (auto dest: candidate_le_antisym)
qed

lemma set_open_candidates:
  "c \<in> set (open_candidates sp txt) \<longleftrightarrow>
     (\<exists>i pos. i < length sp \<and> find_str (spec_open (sp ! i)) txt = Some pos \<and> c = (pos, utf8_len (spec_open (sp ! i)), i))"
  unfolding open_candidates_def map_filter_def
  by (cases c) (auto simp: in_set_enumerate_eq image_iff)

fun shift_candidate :: "nat \<Rightarrow> candidate \<Rightarrow> candidate" where
  "shift_candidate n (pos, l, i) = (n + pos, l, i)"

lemma open_candidates_shift:
  assumes "\<And>spec. spec \<in> set sp \<Longrightarrow> no_start (spec_open spec) (length x) (x @ r)"
  shows "open_candidates sp (x @ r) = map (shift_candidate (length x)) (open_candidates sp r)"
proof -
  have "List.map_filter (\<lambda>(idx, spec). map_option (\<lambda>pos. (pos, utf8_len (spec_open spec), idx)) (find_str (spec_open spec) (x @ r))) es =
      map (shift_candidate (length x))
        (List.map_filter (\<lambda>(idx, spec). map_option (\<lambda>pos. (pos, utf8_len (spec_open spec), idx)) (find_str (spec_open spec) r)) es)"
    if "set (map snd es) \<subseteq> set sp" for es
    using that
  proof (induction es)
    case (Cons e es)
    then have "find_str (spec_open (snd e)) (x @ r) = map_option ((+) (length x)) (find_str (spec_open (snd e)) r)"
      using assms by (intro find_str_shift) auto
    with Cons show ?case
      by (cases e; cases "find_str (spec_open (snd e)) r") (auto simp: map_filter_simps)
  qed (simp add: map_filter_simps)
  moreover have "set (map snd (enumerate 0 sp)) \<subseteq> set sp" by (simp only: map_snd_enumerate order_refl)
  ultimately show ?thesis unfolding open_candidates_def by blast
qed

lemma min_candidate_shift:
  "min_candidate (map (shift_candidate n) cs) = map_option (shift_candidate n) (min_candidate cs)"
proof (induction cs)
  case (Cons c cs)
  then show ?case by (cases c; cases "min_candidate cs") auto
qed simp

lemma find_next_open_shift:
  assumes "\<And>spec. spec \<in> set (specs s) \<Longrightarrow> no_start (spec_open spec) (length x) (x @ r)"
  shows "find_next_open (s\<lparr>pending := x @ r\<rparr>) =
    map_option (\<lambda>(i, idx). (length x + i, idx)) (find_next_open (s\<lparr>pending := r\<rparr>))"
  using open_candidates_shift [OF assms, of "specs s"]
  by (cases "min_candidate (open_candidates (specs s) r)") (auto simp: find_next_open_def min_candidate_shift)

text \<open>No opening tag occurs inside another one before its last character.\<close>

definition opens_separate :: "'a inline_tag_spec list \<Rightarrow> bool" where
  "opens_separate sp \<longleftrightarrow>
     list_all (\<lambda>s. list_all (\<lambda>t. \<not> contains_str (spec_open t) (butlast (spec_open s))) sp) sp"

lemma find_next_open_index:
  assumes "find_next_open s = Some (i, idx)"
  shows "idx < length (specs s)" and "find_str (spec_open (specs s ! idx)) (pending s) = Some i"
proof -
  obtain l where "min_candidate (open_candidates (specs s) (pending s)) = Some (i, l, idx)"
    using assms by (auto simp: find_next_open_def)
  from min_candidate_Some [OF this]
  show "idx < length (specs s)" "find_str (spec_open (specs s ! idx)) (pending s) = Some i"
    by (auto simp: set_open_candidates)
qed

lemma straddling_open:
  assumes i: "find_str t p = Some i" and j: "find_str u (p @ b) = Some j" and none: "find_str u p = None"
    and "j \<le> i" and "t \<noteq> []"
  shows "contains_str t (butlast u)"
proof -
  have t: "prefix t (drop i p)" "i + length t \<le> length p" using find_str_Some [OF i] by auto
  have u: "prefix u (drop j (p @ b))" using find_str_Some [OF j] by auto
  have long: "length p < j + length u"
  proof (rule ccontr)
    assume "\<not> length p < j + length u"
    then have "length u \<le> length (drop j p)" using assms(4) t(2) by auto
    moreover have "prefix u (drop j p @ b)" using u assms(4) t(2) by simp
    ultimately have "prefix u (drop j p)" by (metis prefix_length_prefix prefixI)
    with find_str_None [OF none] show False by blast
  qed
  have "drop j (p @ b) = drop j p @ b" using assms(4) t(2) by simp
  then have "prefix (drop j p) u" using u long by (metis add.commute length_drop less_diff_conv2 less_imp_le linorder_not_less nat_le_linear prefix_length_prefix prefixI le_diff_conv)
  then obtain z where z: "u = drop j p @ z" by (auto simp: prefix_def)
  have "z \<noteq> []" using z long assms(4) t(2) by auto
  then have "prefix (drop j p) (butlast u)" using z by (simp add: butlast_append)
  moreover have "sublist t (drop j p)"
  proof -
    have "drop i p = drop (i - j) (drop j p)" using assms(4) by simp
    with t(1) show ?thesis by (metis prefix_imp_sublist sublist_drop sublist_order.order_trans)
  qed
  ultimately show ?thesis
    unfolding contains_str_iff by (metis prefix_imp_sublist sublist_order.order_trans)
qed

lemma find_next_open_append:
  assumes sep: "opens_separate (specs s)" and ne: "\<And>spec. spec \<in> set (specs s) \<Longrightarrow> spec_open spec \<noteq> []"
    and found: "find_next_open s = Some (i, idx)"
  shows "find_next_open (s\<lparr>pending := pending s @ b\<rparr>) = Some (i, idx)"
proof -
  let ?sp = "specs s" and ?p = "pending s"
  obtain l where min: "min_candidate (open_candidates ?sp ?p) = Some (i, l, idx)"
    using found by (auto simp: find_next_open_def)
  from min_candidate_Some [OF min] have idx: "idx < length ?sp"
    and i: "find_str (spec_open (?sp ! idx)) ?p = Some i" and l: "l = utf8_len (spec_open (?sp ! idx))"
    and least: "\<And>c. c \<in> set (open_candidates ?sp ?p) \<Longrightarrow> candidate_le (i, l, idx) c"
    by (auto simp: set_open_candidates)
  have "min_candidate (open_candidates ?sp (?p @ b)) = Some (i, l, idx)"
  proof (rule min_candidateI)
    show "(i, l, idx) \<in> set (open_candidates ?sp (?p @ b))"
      using idx l find_str_append [OF i] by (auto simp: set_open_candidates)
  next
    fix c assume "c \<in> set (open_candidates ?sp (?p @ b))"
    then obtain k pos where k: "k < length ?sp" "find_str (spec_open (?sp ! k)) (?p @ b) = Some pos"
      and c: "c = (pos, utf8_len (spec_open (?sp ! k)), k)"
      by (auto simp: set_open_candidates)
    show "candidate_le (i, l, idx) c"
    proof (cases "find_str (spec_open (?sp ! k)) ?p")
      case (Some pos')
      with find_str_append [OF Some] k have "pos' = pos" by simp
      with Some k(1) c show ?thesis by (intro least) (auto simp: set_open_candidates)
    next
      case None
      have "\<not> pos \<le> i"
        using straddling_open [OF i k(2) None] ne idx k(1) sep by (auto simp: opens_separate_def list_all_iff)
      with c show ?thesis by simp
    qed
  qed
  then show ?thesis by (simp add: find_next_open_def)
qed


section \<open>One round of the loop\<close>

definition hidden_wf :: "'a inline_hidden_tag_parser \<Rightarrow> bool" where
  "hidden_wf s \<longleftrightarrow>
     list_all (\<lambda>spec. spec_open spec \<noteq> [] \<and> spec_close spec \<noteq> []) (specs s) \<and> opens_separate (specs s) \<and>
     (case active s of None \<Rightarrow> True | Some act \<Rightarrow> act_close act \<noteq> [])"

text \<open>Between two pushes everything that cannot begin a delimiter has left the buffer.\<close>

definition settled :: "'a inline_hidden_tag_parser \<Rightarrow> bool" where
  "settled s \<longleftrightarrow>
     (case active s of
        Some act \<Rightarrow> find_str (act_close act) (pending s) = None \<and>
          length (pending s) \<le> longest_suffix_prefix_len (pending s) (act_close act)
      | None \<Rightarrow> find_next_open s = None \<and> length (pending s) \<le> max_open_prefix_suffix_len s)"

definition hidden_ok :: "'a inline_hidden_tag_parser \<Rightarrow> bool" where
  "hidden_ok s \<longleftrightarrow> hidden_wf s \<and> settled s"

definition take_content :: "rstring \<Rightarrow> 'a active_tag \<Rightarrow> 'a active_tag" where
  "take_content txt act = act\<lparr>act_content := act_content act @ txt\<rparr>"

definition show_text :: "rstring \<Rightarrow> 'e stream_text_chunk \<Rightarrow> 'e stream_text_chunk" where
  "show_text txt out = out\<lparr>visible_text := visible_text out @ txt\<rparr>"

definition extract_tag :: "'a active_tag \<Rightarrow> rstring \<Rightarrow> 'a extracted_inline_tag stream_text_chunk \<Rightarrow>
    'a extracted_inline_tag stream_text_chunk" where
  "extract_tag act txt out =
     out\<lparr>extracted := extracted out @ [\<lparr>ext_tag = act_tag act, ext_content = act_content act @ txt\<rparr>]\<rparr>"

definition closed :: "'a active_tag \<Rightarrow> nat \<Rightarrow> 'a inline_hidden_tag_parser \<Rightarrow> 'a inline_hidden_tag_parser" where
  "closed act i s = s\<lparr>active := None, pending := drop (i + length (act_close act)) (pending s)\<rparr>"

definition opened :: "nat \<Rightarrow> nat \<Rightarrow> 'a inline_hidden_tag_parser \<Rightarrow> 'a inline_hidden_tag_parser" where
  "opened i idx s =
     s\<lparr>pending := drop (i + length (spec_open (specs s ! idx))) (pending s),
       active := Some \<lparr>act_tag = spec_tag (specs s ! idx), act_close = spec_close (specs s ! idx), act_content = []\<rparr>\<rparr>"

lemma push_visible_show: "push_visible_prefix txt out = show_text txt out"
  by (simp add: push_visible_prefix_def show_text_def)

lemma show_text_simps [simp]: "show_text [] out = out" "show_text b (show_text a out) = show_text (a @ b) out"
  by (simp_all add: show_text_def)

lemma take_content_simps [simp]:
  "take_content [] act = act" "take_content b (take_content a act) = take_content (a @ b) act"
  "act_close (take_content a act) = act_close act"
  by (simp_all add: take_content_def)

lemma extract_take_content [simp]: "extract_tag (take_content a act) b out = extract_tag act (a @ b) out"
  by (simp add: extract_tag_def take_content_def)

lemma loop_close:
  "active s = Some act \<Longrightarrow> find_str (act_close act) (pending s) = Some i \<Longrightarrow>
     hidden_loop s out = hidden_loop (closed act i s) (extract_tag act (take i (pending s)) out)"
  by (simp add: hidden_loop.simps [of s] closed_def extract_tag_def)

lemma loop_keep:
  assumes "active s = Some act" and "find_str (act_close act) (pending s) = None"
    and "n = length (pending s) - longest_suffix_prefix_len (pending s) (act_close act)"
  shows "hidden_loop s out =
    Some (s\<lparr>active := Some (take_content (take n (pending s)) act), pending := drop n (pending s)\<rparr>, out)"
  using assms
  by (cases "n = 0") (simp_all add: hidden_loop.simps [of s] take_content_def Let_def)

lemma loop_open:
  "active s = None \<Longrightarrow> find_next_open s = Some (i, idx) \<Longrightarrow>
     hidden_loop s out = hidden_loop (opened i idx s) (show_text (take i (pending s)) out)"
  by (simp add: hidden_loop.simps [of s] opened_def push_visible_show Let_def)

lemma loop_drain:
  assumes "active s = None" and "find_next_open s = None"
    and "n = length (pending s) - max_open_prefix_suffix_len s"
  shows "hidden_loop s out = Some (s\<lparr>pending := drop n (pending s)\<rparr>, show_text (take n (pending s)) out)"
  using assms
  by (cases "n = 0")
    (simp_all add: hidden_loop.simps [of s] drain_visible_to_suffix_match_def push_visible_show Let_def)

lemma closed_wf: "hidden_wf s \<Longrightarrow> hidden_wf (closed act i s)"
  by (simp add: hidden_wf_def closed_def)

lemma opened_wf: "hidden_wf s \<Longrightarrow> find_next_open s = Some (i, idx) \<Longrightarrow> hidden_wf (opened i idx s)"
  using find_next_open_index(1) [of s i idx] by (simp add: hidden_wf_def opened_def list_all_length)

lemma closed_shorter:
  "hidden_wf s \<Longrightarrow> active s = Some act \<Longrightarrow> find_str (act_close act) (pending s) = Some i \<Longrightarrow>
     length (pending (closed act i s)) < length (pending s)"
  using find_str_Some [of "act_close act" "pending s" i] by (cases "act_close act") (auto simp: hidden_wf_def closed_def)

lemma opened_shorter:
  assumes "hidden_wf s" and "find_next_open s = Some (i, idx)"
  shows "length (pending (opened i idx s)) < length (pending s)"
proof -
  have "spec_open (specs s ! idx) \<noteq> []"
    using assms find_next_open_index(1) [OF assms(2)] by (auto simp: hidden_wf_def list_all_length)
  then show ?thesis
    using find_str_Some [OF find_next_open_index(2) [OF assms(2)]]
    by (cases "spec_open (specs s ! idx)") (auto simp: opened_def)
qed

lemma fold_max_ge: "x \<in> set xs \<Longrightarrow> x \<le> fold max xs (m :: nat)" "m \<le> fold max xs m"
proof (induction xs arbitrary: m)
  case (Cons y ys)
  { case 1 with Cons show ?case by (auto intro: order_trans [OF max.cobounded1]) }
  { case 2 show ?case using Cons(2) [of "max y m"] by simp }
qed simp_all

lemma max_open_ge:
  "spec \<in> set (specs s) \<Longrightarrow> longest_suffix_prefix_len (pending s) (spec_open spec) \<le> max_open_prefix_suffix_len s"
  unfolding max_open_prefix_suffix_len_def by (intro fold_max_ge) simp

lemma find_next_open_None:
  "find_next_open s = None \<Longrightarrow> spec \<in> set (specs s) \<Longrightarrow> find_str (spec_open spec) (pending s) = None"
proof (rule ccontr)
  assume none: "find_next_open s = None" and spec: "spec \<in> set (specs s)"
    and "find_str (spec_open spec) (pending s) \<noteq> None"
  then obtain pos k where "find_str (spec_open spec) (pending s) = Some pos" "k < length (specs s)" "specs s ! k = spec"
    by (auto simp: in_set_conv_nth)
  then have "(pos, utf8_len (spec_open spec), k) \<in> set (open_candidates (specs s) (pending s))"
    unfolding set_open_candidates by blast
  with none show False by (auto simp: find_next_open_def)
qed

lemma no_start_open:
  assumes "find_next_open s = None" and "spec \<in> set (specs s)"
    and "n = length (pending s) - max_open_prefix_suffix_len s"
  shows "no_start (spec_open spec) n (pending s @ b)"
  using max_open_ge [OF assms(2)] assms(3)
  by (intro no_start_of_lsp [OF find_next_open_None [OF assms(1,2)]]) simp

lemma max_open_shift:
  assumes "\<And>spec. spec \<in> set (specs s) \<Longrightarrow> no_start (spec_open spec) (length x) (x @ r)"
  shows "max_open_prefix_suffix_len (s\<lparr>pending := x @ r\<rparr>) = max_open_prefix_suffix_len (s\<lparr>pending := r\<rparr>)"
  by (simp add: max_open_prefix_suffix_len_def assms lsp_shift cong: map_cong)

lemma max_open_bound: "max_open_prefix_suffix_len s \<le> length (pending s)"
proof -
  have "fold max xs m \<le> k" if "\<forall>x \<in> set xs. x \<le> k" "m \<le> k" for xs :: "nat list" and m k
    using that by (induction xs arbitrary: m) auto
  then show ?thesis unfolding max_open_prefix_suffix_len_def using lsp_bound by auto
qed


section \<open>Pushing in parts\<close>

lemma loop_skip_active:
  assumes act: "active s = Some act" and p: "pending s = x @ r"
    and ns: "no_start (act_close act) (length x) (x @ r)"
  shows "hidden_loop s out = hidden_loop (s\<lparr>active := Some (take_content x act), pending := r\<rparr>) out"
proof (cases "find_str (act_close act) r")
  case (Some i)
  have "find_str (act_close act) (pending s) = Some (length x + i)"
    using find_str_shift [OF ns] Some p by simp
  from loop_close [OF act this, of out] show ?thesis
    using p by (subst loop_close [where act = "take_content x act" and i = i])
      (simp_all add: Some closed_def add.commute add.left_commute)
next
  case None
  let ?k = "longest_suffix_prefix_len r (act_close act)"
  have none: "find_str (act_close act) (pending s) = None" using find_str_shift [OF ns] None p by simp
  have k: "?k \<le> length r" by (rule lsp_bound)
  have n: "length x + (length r - ?k) = length (pending s) - longest_suffix_prefix_len (pending s) (act_close act)"
    using lsp_shift [OF ns] p k by simp
  show ?thesis
    unfolding loop_keep [OF act none n]
    using p by (subst loop_keep [where act = "take_content x act" and n = "length r - ?k"]) (simp_all add: None)
qed

lemma loop_skip_inactive:
  assumes act: "active s = None" and p: "pending s = x @ r"
    and ns: "\<And>spec. spec \<in> set (specs s) \<Longrightarrow> no_start (spec_open spec) (length x) (x @ r)"
  shows "hidden_loop s out = hidden_loop (s\<lparr>pending := r\<rparr>) (show_text x out)"
proof -
  let ?r = "s\<lparr>pending := r\<rparr>"
  have s: "s\<lparr>pending := x @ r\<rparr> = s" using p by (metis inline_hidden_tag_parser.surjective inline_hidden_tag_parser.update_convs(2))
  have next_open: "find_next_open s = map_option (\<lambda>(i, idx). (length x + i, idx)) (find_next_open ?r)"
    using find_next_open_shift [of s x r, OF ns] s by simp
  show ?thesis
  proof (cases "find_next_open ?r")
    case (Some io)
    obtain i idx where io: "io = (i, idx)" by (cases io)
    have f: "find_next_open s = Some (length x + i, idx)" using next_open Some io by simp
    from loop_open [OF act f, of out] show ?thesis
      using p act Some io by (subst loop_open [where s = ?r and i = i and idx = idx])
        (simp_all add: opened_def add.commute add.left_commute)
  next
    case None
    have none: "find_next_open s = None" using next_open None by simp
    have keep: "max_open_prefix_suffix_len s = max_open_prefix_suffix_len ?r"
      using max_open_shift [of s x r, OF ns] s by simp
    have n: "length x + (length r - max_open_prefix_suffix_len ?r) = length (pending s) - max_open_prefix_suffix_len s"
      using keep p max_open_bound [of ?r] by simp
    show ?thesis
      unfolding loop_drain [OF act none n]
      using p act by (subst loop_drain [where n = "length r - max_open_prefix_suffix_len ?r"]) (simp_all add: None)
  qed
qed

definition more_text :: "rstring \<Rightarrow> 'a inline_hidden_tag_parser \<Rightarrow> 'a inline_hidden_tag_parser" where
  "more_text b s = s\<lparr>pending := pending s @ b\<rparr>"

lemma more_text_simps [simp]:
  "specs (more_text b s) = specs s" "active (more_text b s) = active s" "pending (more_text b s) = pending s @ b"
  by (simp_all add: more_text_def)

lemma opened_more_text:
  "i + length (spec_open (specs s ! idx)) \<le> length (pending s) \<Longrightarrow>
     opened i idx (more_text b s) = more_text b (opened i idx s)"
  by (cases s) (simp add: opened_def more_text_def)

lemma loop_append:
  assumes "hidden_wf s"
  shows "\<exists>s1 o1. hidden_loop s out = Some (s1, o1) \<and> hidden_ok s1 \<and>
    hidden_loop (more_text b s) out = hidden_loop (more_text b s1) o1"
  using assms
proof (induction "length (pending s)" arbitrary: s out rule: less_induct)
  case less
  show ?case
  proof (cases "active s")
    case act: (Some act)
    show ?thesis
    proof (cases "find_str (act_close act) (pending s)")
      case i: (Some i)
      let ?out = "extract_tag act (take i (pending s)) out"
      have le: "i + length (act_close act) \<le> length (pending s)" using find_str_Some [OF i] by simp
      have "hidden_loop (more_text b s) out = hidden_loop (more_text b (closed act i s)) ?out"
        using le by (subst loop_close [where act = act and i = i])
          (simp_all add: act find_str_append [OF i] more_text_def closed_def)
      moreover have "hidden_loop s out = hidden_loop (closed act i s) ?out" by (rule loop_close [OF act i])
      ultimately show ?thesis
        using less.hyps [OF closed_shorter [OF less.prems act i] closed_wf [OF less.prems], of ?out] by simp
    next
      case none: None
      let ?n = "length (pending s) - longest_suffix_prefix_len (pending s) (act_close act)"
      let ?x = "take ?n (pending s)" and ?r = "drop ?n (pending s)"
      let ?s1 = "s\<lparr>active := Some (take_content ?x act), pending := ?r\<rparr>"
      have ns: "no_start (act_close act) (length ?x) (?x @ ?r @ c)" for c
        using no_start_of_lsp [OF none order_refl, of c] by (simp flip: append_assoc)
      have "hidden_loop s out = Some (?s1, out)" by (rule loop_keep [OF act none refl])
      moreover have "hidden_loop (more_text b s) out = hidden_loop (more_text b ?s1) out"
        by (subst loop_skip_active [where act = act and x = ?x and r = "?r @ b"])
          (use act ns in \<open>simp_all add: more_text_def\<close>)
      moreover have "hidden_ok ?s1"
      proof -
        have ns': "no_start (act_close act) (length ?x) (?x @ ?r)" using ns [of "[]"] by simp
        have "find_str (act_close act) ?r = None" using find_str_shift [OF ns'] none by simp
        moreover have "longest_suffix_prefix_len ?r (act_close act) = longest_suffix_prefix_len (pending s) (act_close act)"
          using lsp_shift [OF ns'] by simp
        ultimately show ?thesis
          using less.prems act by (simp add: hidden_ok_def hidden_wf_def settled_def)
      qed
      ultimately show ?thesis by blast
    qed
  next
    case act: None
    show ?thesis
    proof (cases "find_next_open s")
      case (Some io)
      then obtain i idx where f: "find_next_open s = Some (i, idx)" by (cases io) auto
      let ?out = "show_text (take i (pending s)) out"
      have le: "i + length (spec_open (specs s ! idx)) \<le> length (pending s)"
        using find_str_Some [OF find_next_open_index(2) [OF f]] by simp
      have "find_next_open (more_text b s) = Some (i, idx)"
        unfolding more_text_def using less.prems
        by (intro find_next_open_append [OF _ _ f]) (auto simp: hidden_wf_def list_all_iff)
      then have "hidden_loop (more_text b s) out = hidden_loop (more_text b (opened i idx s)) ?out"
        using le by (subst loop_open [where i = i and idx = idx]) (simp_all add: act opened_more_text)
      moreover have "hidden_loop s out = hidden_loop (opened i idx s) ?out" by (rule loop_open [OF act f])
      ultimately show ?thesis
        using less.hyps [OF opened_shorter [OF less.prems f] opened_wf [OF less.prems f], of ?out] by simp
    next
      case none: None
      let ?n = "length (pending s) - max_open_prefix_suffix_len s"
      let ?x = "take ?n (pending s)" and ?r = "drop ?n (pending s)"
      let ?s1 = "s\<lparr>pending := ?r\<rparr>"
      have ns: "no_start (spec_open spec) (length ?x) (?x @ ?r @ c)" if "spec \<in> set (specs s)" for spec c
        using no_start_open [OF none that refl, of c] by (simp flip: append_assoc)
      have "hidden_loop s out = Some (?s1, show_text ?x out)" by (rule loop_drain [OF act none refl])
      moreover have "hidden_loop (more_text b s) out = hidden_loop (more_text b ?s1) (show_text ?x out)"
        by (subst loop_skip_inactive [where x = ?x and r = "?r @ b"])
          (use act ns in \<open>simp_all add: more_text_def\<close>)
      moreover have "hidden_ok ?s1"
      proof -
        have ns': "no_start (spec_open spec) (length ?x) (?x @ ?r)" if "spec \<in> set (specs s)" for spec
          using ns [OF that, of "[]"] by simp
        have "find_next_open ?s1 = None" using find_next_open_shift [of s ?x ?r, OF ns'] none by simp
        moreover have "max_open_prefix_suffix_len ?s1 = max_open_prefix_suffix_len s"
          using max_open_shift [of s ?x ?r, OF ns'] by simp
        ultimately show ?thesis
          using less.prems act by (simp add: hidden_ok_def hidden_wf_def settled_def)
      qed
      ultimately show ?thesis by blast
    qed
  qed
qed


lemma append_show_extract:
  "show_text txt (append_chunk o1 o2) = append_chunk o1 (show_text txt o2)"
  "extract_tag act txt (append_chunk p1 p2) = append_chunk p1 (extract_tag act txt p2)"
  by (simp_all add: show_text_def extract_tag_def append_chunk_def)

lemma loop_output:
  assumes "hidden_wf s"
  shows "hidden_loop s (append_chunk o1 out) = map_option (\<lambda>(s', o2). (s', append_chunk o1 o2)) (hidden_loop s out)"
  using assms
proof (induction "length (pending s)" arbitrary: s out rule: less_induct)
  case less
  show ?case
  proof (cases "active s")
    case act: (Some act)
    show ?thesis
    proof (cases "find_str (act_close act) (pending s)")
      case i: (Some i)
      show ?thesis
        unfolding loop_close [OF act i] append_show_extract
        by (rule less.hyps [OF closed_shorter [OF less.prems act i] closed_wf [OF less.prems]])
    next
      case none: None
      show ?thesis unfolding loop_keep [OF act none refl] by simp
    qed
  next
    case act: None
    show ?thesis
    proof (cases "find_next_open s")
      case (Some io)
      then obtain i idx where f: "find_next_open s = Some (i, idx)" by (cases io) auto
      show ?thesis
        unfolding loop_open [OF act f] append_show_extract
        by (rule less.hyps [OF opened_shorter [OF less.prems f] opened_wf [OF less.prems f]])
    next
      case none: None
      show ?thesis unfolding loop_drain [OF act none refl] append_show_extract by simp
    qed
  qed
qed

lemma settled_loop: "hidden_ok s \<Longrightarrow> hidden_loop s out = Some (s, out)"
proof -
  assume "hidden_ok s"
  then have st: "settled s" by (simp add: hidden_ok_def)
  show ?thesis
  proof (cases "active s")
    case (Some act)
    with st have "find_str (act_close act) (pending s) = None"
      "0 = length (pending s) - longest_suffix_prefix_len (pending s) (act_close act)"
      by (simp_all add: settled_def)
    from loop_keep [OF Some this, of out] Some show ?thesis by simp
  next
    case None
    with st have "find_next_open s = None" "0 = length (pending s) - max_open_prefix_suffix_len s"
      by (simp_all add: settled_def)
    from loop_drain [OF None this, of out] show ?thesis by simp
  qed
qed

lemma hidden_push_more: "hidden_push_str s chunk = hidden_loop (more_text chunk s) default_chunk"
  by (simp add: hidden_push_str_def more_text_def)

lemma more_text_wf: "hidden_wf (more_text b s) \<longleftrightarrow> hidden_wf s"
  by (simp add: hidden_wf_def)

lemma more_text_more: "more_text b (more_text a s) = more_text (a @ b) s" "more_text [] s = s"
  by (simp_all add: more_text_def)

lemma hidden_push_append:
  assumes ok: "hidden_ok s" and a: "hidden_push_str s a = Some (s1, o1)" and b: "hidden_push_str s1 b = Some (s2, o2)"
  shows "hidden_push_str s (a @ b) = Some (s2, append_chunk o1 o2)"
proof -
  have wf: "hidden_wf (more_text a s)" using ok by (simp add: hidden_ok_def more_text_wf)
  have ok1: "hidden_ok s1" and eq: "hidden_push_str s (a @ b) = hidden_loop (more_text b s1) o1"
    using loop_append [OF wf, of default_chunk b] a by (auto simp: hidden_push_more more_text_more)
  have "hidden_wf (more_text b s1)" using ok1 by (simp add: hidden_ok_def more_text_wf)
  from loop_output [OF this, of o1 default_chunk] b eq show ?thesis by (simp add: hidden_push_more)
qed

lemma hidden_push_returns:
  assumes "hidden_ok s"
  shows "\<exists>s' out. hidden_push_str s t = Some (s', out) \<and> hidden_ok s'"
  using loop_append [of "more_text t s" default_chunk "[]"] assms
  by (auto simp: hidden_push_more more_text_wf hidden_ok_def)

lemma hidden_push_Nil: "hidden_ok s \<Longrightarrow> hidden_push_str s [] = Some (s, default_chunk)"
  by (simp add: hidden_push_more more_text_more settled_loop)

interpretation hidden: stream_text_parser hidden_push_str hidden_ok "\<lambda>xs. xs"
  by unfold_locales (use hidden_push_returns hidden_push_Nil hidden_push_append in \<open>fastforce+\<close>)

lemma citation_chunk_append: "citation_chunk (append_chunk a b) = append_chunk (citation_chunk a) (citation_chunk b)"
  by (simp add: citation_chunk_def append_chunk_def)

lemma citation_chunk_default: "citation_chunk default_chunk = default_chunk"
  by (simp add: citation_chunk_def default_chunk_def)

lemma citation_push_returns:
  "hidden_ok s \<Longrightarrow> \<exists>s' out. citation_push_str s t = Some (s', out) \<and> hidden_ok s'"
  using hidden_push_returns [of s t] by (auto simp: citation_push_str_def)

lemma citation_push_append:
  assumes "hidden_ok s" and "citation_push_str s a = Some (s1, o1)" and "citation_push_str s1 b = Some (s2, o2)"
  shows "citation_push_str s (a @ b) = Some (s2, append_chunk o1 o2)"
  using assms hidden_push_append [OF assms(1)] by (auto simp: citation_push_str_def citation_chunk_append)

interpretation citation: stream_text_parser citation_push_str hidden_ok "\<lambda>xs. xs"
proof
  fix s assume "hidden_ok (s :: citation_stream_parser)"
  then show "citation_push_str s [] = Some (s, default_chunk)"
    by (simp add: citation_push_str_def hidden_push_Nil citation_chunk_default)
qed (use citation_push_returns citation_push_append in \<open>fastforce+\<close>)


section \<open>Citations in a stream\<close>

lemma citation_delimiters:
  "hd CITATION_OPEN \<notin> set (tl CITATION_OPEN)" "hd CITATION_CLOSE \<notin> set (tl CITATION_CLOSE)"
  "CITATION_OPEN \<noteq> []" "CITATION_CLOSE \<noteq> []"
  by code_simp+

definition citation_start :: citation_stream_parser where
  "citation_start = \<lparr>specs = [citation_spec], pending = [], active = None\<rparr>"

lemma citation_new_start: "citation_new = Some citation_start"
  using citation_delimiters by (simp add: citation_new_def hidden_new_def citation_start_def citation_spec_def)

lemma citation_start_ok: "hidden_ok citation_start"
  by code_simp

text \<open>A delimiter whose first character does not occur in it again is found right after a text without it.\<close>

lemma prefix_drop_contains: "prefix n (drop i v) \<Longrightarrow> contains_str n v"
  unfolding contains_str_iff by (metis prefix_imp_sublist sublist_drop sublist_order.order_trans)

lemma find_str_after:
  assumes n: "n \<noteq> []" "hd n \<notin> set (tl n)" and v: "\<not> contains_str n v"
  shows "find_str n (v @ n @ r) = Some (length v)"
proof -
  have "prefix n (drop (length v) (v @ n @ r))" by simp
  then obtain i where i: "i \<le> length v" "find_str n (v @ n @ r) = Some i" using find_str_exists by blast
  have "i = length v"
  proof (rule ccontr)
    assume "i \<noteq> length v"
    with i(1) have lt: "i < length v" by simp
    have pre: "prefix n (drop i v @ n @ r)" using find_str_Some [OF i(2)] lt by simp
    have np: "\<not> prefix n (drop i v)" using v prefix_drop_contains by blast
    then obtain z where z: "n = drop i v @ z" "prefix z (n @ r)"
      using pre unfolding prefix_append [of n "drop i v"] by blast
    have z0: "z \<noteq> []" using np z(1) by force
    obtain c n' where c: "n = c # n'" using n(1) by (cases n) auto
    have "c \<in> set z" using z(2) z0 c by (cases z) auto
    moreover have "set z \<subseteq> set n'"
    proof -
      obtain d ds where "drop i v = d # ds" using lt by (cases "drop i v") simp_all
      with z(1) c have "n' = ds @ z" by simp
      then show ?thesis by simp
    qed
    ultimately show False using n(2) c by auto
  qed
  with i(2) show ?thesis by simp
qed

lemma find_next_open_single:
  "specs s = [spec] \<Longrightarrow> find_next_open s = map_option (\<lambda>i. (i, 0)) (find_str (spec_open spec) (pending s))"
  by (cases "find_str (spec_open spec) (pending s)")
    (simp_all add: find_next_open_def open_candidates_def map_filter_simps)

definition cited :: "(rstring \<times> rstring) list \<Rightarrow> rstring \<Rightarrow> rstring" where
  "cited parts rest = concat (map (\<lambda>(v, c). v @ CITATION_OPEN @ c @ CITATION_CLOSE) parts) @ rest"

definition plain_parts :: "(rstring \<times> rstring) list \<Rightarrow> bool" where
  "plain_parts parts =
     list_all (\<lambda>(v, c). \<not> contains_str CITATION_OPEN v \<and> \<not> contains_str CITATION_CLOSE c) parts"

lemma loop_one_citation:
  assumes v: "\<not> contains_str CITATION_OPEN v" and c: "\<not> contains_str CITATION_CLOSE c"
  shows "hidden_loop (citation_start\<lparr>pending := v @ CITATION_OPEN @ c @ CITATION_CLOSE @ rest\<rparr>) out =
    hidden_loop (citation_start\<lparr>pending := rest\<rparr>)
      (append_chunk out \<lparr>visible_text = v, extracted = [\<lparr>ext_tag = Citation, ext_content = c\<rparr>]\<rparr>)"
proof -
  let ?s = "citation_start\<lparr>pending := v @ CITATION_OPEN @ c @ CITATION_CLOSE @ rest\<rparr>"
  let ?act = "\<lparr>act_tag = Citation, act_close = CITATION_CLOSE, act_content = []\<rparr>"
  let ?s1 = "citation_start\<lparr>pending := c @ CITATION_CLOSE @ rest, active := Some ?act\<rparr>"
  have "find_next_open ?s = Some (length v, 0)"
    using find_str_after [OF citation_delimiters(3,1) v, of "c @ CITATION_CLOSE @ rest"]
    by (subst find_next_open_single [of _ citation_spec]) (simp_all add: citation_start_def citation_spec_def)
  then have "hidden_loop ?s out = hidden_loop ?s1 (show_text v out)"
    by (subst loop_open [where i = "length v" and idx = 0]) (simp_all add: opened_def citation_start_def citation_spec_def)
  also have "\<dots> = hidden_loop (citation_start\<lparr>pending := rest\<rparr>) (extract_tag ?act c (show_text v out))"
    using find_str_after [OF citation_delimiters(4,2) c, of rest]
    by (subst loop_close [where act = ?act and i = "length c"]) (simp_all add: closed_def citation_start_def)
  also have "extract_tag ?act c (show_text v out) =
      append_chunk out \<lparr>visible_text = v, extracted = [\<lparr>ext_tag = Citation, ext_content = c\<rparr>]\<rparr>"
    by (cases out) (simp add: extract_tag_def show_text_def append_chunk_def)
  finally show ?thesis .
qed

lemma loop_citations:
  assumes "plain_parts parts"
  shows "hidden_loop (citation_start\<lparr>pending := cited parts rest\<rparr>) out =
    hidden_loop (citation_start\<lparr>pending := rest\<rparr>)
      (append_chunk out \<lparr>visible_text = concat (map fst parts),
         extracted = map (\<lambda>(v, c). \<lparr>ext_tag = Citation, ext_content = c\<rparr>) parts\<rparr>)"
  using assms
proof (induction parts arbitrary: out)
  case Nil
  then show ?case by (simp add: cited_def flip: default_chunk_def)
next
  case (Cons p parts)
  obtain v c where p: "p = (v, c)" by (cases p)
  have "hidden_loop (citation_start\<lparr>pending := v @ CITATION_OPEN @ c @ CITATION_CLOSE @ cited parts rest\<rparr>) out =
    hidden_loop (citation_start\<lparr>pending := cited parts rest\<rparr>)
      (append_chunk out \<lparr>visible_text = v, extracted = [\<lparr>ext_tag = Citation, ext_content = c\<rparr>]\<rparr>)"
    using Cons.prems p by (intro loop_one_citation) (simp_all add: plain_parts_def)
  then show ?case using Cons p by (simp add: cited_def plain_parts_def append_chunk_def)
qed

lemma loop_plain_rest:
  assumes "\<not> contains_str CITATION_OPEN rest"
  shows "\<exists>k. hidden_loop (citation_start\<lparr>pending := rest\<rparr>) out =
    Some (citation_start\<lparr>pending := drop k rest\<rparr>, show_text (take k rest) out)"
proof -
  have "find_str CITATION_OPEN rest = None"
  proof (cases "find_str CITATION_OPEN rest")
    case (Some i)
    with assms find_str_Some [OF Some] prefix_drop_contains show ?thesis by blast
  qed
  then have "find_next_open (citation_start\<lparr>pending := rest\<rparr>) = None"
    by (subst find_next_open_single [of _ citation_spec]) (simp_all add: citation_start_def citation_spec_def)
  from loop_drain [OF _ this refl, of out] show ?thesis by (auto simp: citation_start_def)
qed

text \<open>
  C11. Citations are removed from a stream and delivered: however a text is cut into chunks, feeding it
  and finishing returns, shows the text without its citations and yields their contents in order.
  A text is given by its visible parts, which do not contain the opening tag, and its citations,
  which do not contain the closing tag; the last part may end inside what looks like a tag.
\<close>

theorem citation_stream_roundtrip:
  assumes "plain_parts parts" and "\<not> contains_str CITATION_OPEN rest" and "concat chunks = cited parts rest"
  shows "\<exists>s out. feed citation_push_str citation_start chunks = Some (s, out) \<and>
    visible_text out @ visible_text (snd (citation_finish s)) = concat (map fst parts) @ rest \<and>
    extracted out @ extracted (snd (citation_finish s)) = map snd parts"
proof -
  obtain k where k: "hidden_push_str citation_start (cited parts rest) =
      Some (citation_start\<lparr>pending := drop k rest\<rparr>, show_text (take k rest)
        \<lparr>visible_text = concat (map fst parts), extracted = map (\<lambda>(v, c). \<lparr>ext_tag = Citation, ext_content = c\<rparr>) parts\<rparr>)"
    using loop_citations [OF assms(1), of rest default_chunk] loop_plain_rest [OF assms(2)]
    by (auto simp: hidden_push_str_def citation_start_def)
  obtain s out whole where f: "feed citation_push_str citation_start chunks = Some (s, out)"
    and w: "citation_push_str citation_start (concat chunks) = Some (s, whole)" and same: "citation.same_output out whole"
    using citation.feed_fragments [OF citation_start_ok, of chunks] by blast
  have s: "s = citation_start\<lparr>pending := drop k rest\<rparr>"
    and whole: "whole = \<lparr>visible_text = concat (map fst parts) @ take k rest, extracted = map snd parts\<rparr>"
    using w k assms(3) by (auto simp: citation_push_str_def citation_chunk_def show_text_def comp_def case_prod_beta')
  have "citation_finish s = (s\<lparr>pending := []\<rparr>, \<lparr>visible_text = drop k rest, extracted = []\<rparr>)"
    by (simp add: s citation_finish_def hidden_finish_def citation_start_def citation_chunk_def)
  with f same whole show ?thesis by (simp add: citation.same_output_def)
qed

definition sample_parts :: "(rstring \<times> rstring) list" where
  "sample_parts = [(lit ''a <'', lit ''doc <1''), ([], lit ''2'')]"

definition sample_fragments :: "rstring list" where
  "sample_fragments = map (\<lambda>c. [c]) (cited sample_parts (lit '' b <oai''))"

theorem citation_stream_roundtrip_witness:
  "\<exists>s out. feed citation_push_str citation_start sample_fragments = Some (s, out) \<and>
    visible_text out @ visible_text (snd (citation_finish s)) = lit ''a < b <oai'' \<and>
    extracted out @ extracted (snd (citation_finish s)) = [lit ''doc <1'', lit ''2'']"
proof -
  have "plain_parts sample_parts" "\<not> contains_str CITATION_OPEN (lit '' b <oai'')" by code_simp+
  moreover have "concat sample_fragments = cited sample_parts (lit '' b <oai'')"
    by (simp add: sample_fragments_def concat_map_singleton)
  moreover have "concat (map fst sample_parts) @ lit '' b <oai'' = lit ''a < b <oai''"
    "map snd sample_parts = [lit ''doc <1'', lit ''2'']"
    by code_simp+
  ultimately show ?thesis
    using citation_stream_roundtrip [of sample_parts "lit '' b <oai''" sample_fragments] by simp
qed

text \<open>
  C31. Bytes may be cut anywhere, also inside a character: for every way of cutting a byte stream that
  is valid UTF-8 into chunks, feeding the bytes never reports an error, leaves no bytes behind, and
  ends in the same state with the same output as pushing the decoded text at once. A chunk with
  bytes that cannot be UTF-8 is rejected and leaves the parser as it was.
\<close>

theorem utf8_stream_decodes:
  "(from_utf8 (concat chunks) = Inr t \<longrightarrow>
     (\<exists>s out. feed_bytes citation_push_str (utf8_new citation_start) chunks = Some (\<lparr>inner = s, pending_utf8 = []\<rparr>, Inr out) \<and>
        citation_push_str citation_start t = Some (s, out))) \<and>
   (from_utf8 (pending_utf8 p @ chunk) = Inl (v, Some k) \<longrightarrow>
     push_bytes citation_push_str p chunk = Some (p, Inl (InvalidUtf8 v k)))"
proof (intro conjI impI)
  assume t: "from_utf8 (concat chunks) = Inr t"
  have "\<exists>s out whole. feed_bytes citation_push_str (utf8_new citation_start) chunks =
      Some (\<lparr>inner = s, pending_utf8 = []\<rparr>, Inr out) \<and>
    citation_push_str (inner (utf8_new citation_start)) t = Some (s, whole) \<and> hidden_ok s \<and>
    citation.same_output out whole"
    using citation_start_ok t
    by (intro citation.feed_bytes_fragments) (simp_all add: utf8_new_def partial_code_point_def)
  then show "\<exists>s out. feed_bytes citation_push_str (utf8_new citation_start) chunks =
      Some (\<lparr>inner = s, pending_utf8 = []\<rparr>, Inr out) \<and> citation_push_str citation_start t = Some (s, out)"
    by (auto simp: utf8_new_def citation.same_output_def)
next
  assume "from_utf8 (pending_utf8 p @ chunk) = Inl (v, Some k)"
  then show "push_bytes citation_push_str p chunk = Some (p, Inl (InvalidUtf8 v k))"
    by (simp add: push_bytes_def Let_def)
qed

theorem utf8_stream_decodes_witness:
  "(\<exists>s out. feed_bytes citation_push_str (utf8_new citation_start) [[195], [169, 226, 130], [], [172]] =
      Some (\<lparr>inner = s, pending_utf8 = []\<rparr>, Inr out) \<and> citation_push_str citation_start [233, 8364] = Some (s, out)) \<and>
   push_bytes citation_push_str (utf8_new citation_start) [65, 255] = Some (utf8_new citation_start, Inl (InvalidUtf8 1 1))"
proof -
  have "from_utf8 (concat [[195], [169, 226, 130], [], [172]]) = Inr [233, 8364]" by code_simp
  moreover have "from_utf8 (pending_utf8 (utf8_new citation_start) @ [65, 255]) = Inl (1, Some 1)" by code_simp
  ultimately show ?thesis
    using utf8_stream_decodes [of "[[195], [169, 226, 130], [], [172]]" "[233, 8364]" "utf8_new citation_start" "[65, 255]" 1 1]
    by blast
qed

end
