(* ===== verification/Tagged_Lines.thy ===== *)
theory Tagged_Lines
  imports Stream_Text
begin

text \<open>
  \<^verbatim>\<open>codex-rs/utils/stream-parser/src/tagged_line_parser.rs\<close> and \<^verbatim>\<open>proposed_plan.rs\<close>: blocks of streamed text
  between tags that stand alone on a line. The parser holds back a line until it can tell that the
  line is no tag; the theory shows that it computes what a reading of the text line by line gives.
\<close>

section \<open>The parser of lines\<close>

record 'a tag_spec =
  line_open :: rstring
  line_close :: rstring
  line_tag :: 'a

datatype 'a segment = NormalText rstring | TagStart 'a | TagDelta 'a rstring | TagEnd 'a

record 'a tagged_line_parser =
  line_specs :: "'a tag_spec list"
  open_tag :: "'a option"
  detect_tag :: bool
  line_buffer :: rstring

definition tagged_new :: "'a tag_spec list \<Rightarrow> 'a tagged_line_parser" where
  "tagged_new sp = \<lparr>line_specs = sp, open_tag = None, detect_tag = True, line_buffer = []\<rparr>"

fun push_segment :: "'a segment \<Rightarrow> 'a segment list \<Rightarrow> 'a segment list" where
  "push_segment (NormalText delta) segments =
     (if delta = [] then segments
      else (case last_opt segments of
              Some (NormalText existing) \<Rightarrow> butlast segments @ [NormalText (existing @ delta)]
            | _ \<Rightarrow> segments @ [NormalText delta]))"
| "push_segment (TagDelta tag delta) segments =
     (if delta = [] then segments
      else (case last_opt segments of
              Some (TagDelta existing_tag existing) \<Rightarrow>
                if existing_tag = tag then butlast segments @ [TagDelta tag (existing @ delta)]
                else segments @ [TagDelta tag delta]
            | _ \<Rightarrow> segments @ [TagDelta tag delta]))"
| "push_segment (TagStart tag) segments = segments @ [TagStart tag]"
| "push_segment (TagEnd tag) segments = segments @ [TagEnd tag]"

definition text_segment :: "'a option \<Rightarrow> rstring \<Rightarrow> 'a segment" where
  "text_segment t txt = (case t of Some tag \<Rightarrow> TagDelta tag txt | None \<Rightarrow> NormalText txt)"

definition push_text :: "'a tagged_line_parser \<Rightarrow> rstring \<Rightarrow> 'a segment list \<Rightarrow> 'a segment list" where
  "push_text s txt segments = push_segment (text_segment (open_tag s) txt) segments"

definition is_tag_prefix :: "'a tag_spec list \<Rightarrow> rstring \<Rightarrow> bool" where
  "is_tag_prefix sp slug0 =
     (let slug = trim_end slug0 in
      list_ex (\<lambda>spec. starts_with slug (line_open spec) \<or> starts_with slug (line_close spec)) sp)"

definition match_open :: "'a tag_spec list \<Rightarrow> rstring \<Rightarrow> 'a option" where
  "match_open sp slug = map_option line_tag (find (\<lambda>spec. line_open spec = slug) sp)"

definition match_close :: "'a tag_spec list \<Rightarrow> rstring \<Rightarrow> 'a option" where
  "match_close sp slug = map_option line_tag (find (\<lambda>spec. line_close spec = slug) sp)"

definition line_slug :: "rstring \<Rightarrow> rstring" where
  "line_slug line = trim_end (trim_start (case strip_suffix [newline] line of Some l \<Rightarrow> l | None \<Rightarrow> line))"

text \<open>What a complete line means: the chain of conditions that \<^verbatim>\<open>finish_line\<close> and \<^verbatim>\<open>finish\<close> share.\<close>

datatype 'a line_class = Opens 'a | Closes 'a | TextLine

definition classify_line :: "'a tag_spec list \<Rightarrow> 'a option \<Rightarrow> rstring \<Rightarrow> 'a line_class" where
  "classify_line sp act slug =
     (let closing = (case match_close sp slug of
                       Some tag \<Rightarrow> if act = Some tag then Closes tag else TextLine
                     | None \<Rightarrow> TextLine) in
      case match_open sp slug of
        Some tag \<Rightarrow> if act = None then Opens tag else closing
      | None \<Rightarrow> closing)"

definition finish_tagged_line :: "'a tagged_line_parser \<Rightarrow> 'a segment list \<Rightarrow> 'a tagged_line_parser \<times> 'a segment list" where
  "finish_tagged_line s0 segments =
     (let line = line_buffer s0; s = s0\<lparr>line_buffer := []\<rparr> in
      case classify_line (line_specs s) (open_tag s) (line_slug line) of
        Opens tag \<Rightarrow> (s\<lparr>open_tag := Some tag, detect_tag := True\<rparr>, push_segment (TagStart tag) segments)
      | Closes tag \<Rightarrow> (s\<lparr>open_tag := None, detect_tag := True\<rparr>, push_segment (TagEnd tag) segments)
      | TextLine \<Rightarrow> (s\<lparr>detect_tag := True\<rparr>, push_text s line segments))"

fun parse_loop ::
  "'a tagged_line_parser \<Rightarrow> rstring \<Rightarrow> 'a segment list \<Rightarrow> rstring \<Rightarrow> 'a tagged_line_parser \<times> 'a segment list" where
  "parse_loop s run segments [] = (s, if run \<noteq> [] then push_text s run segments else segments)"
| "parse_loop s run segments (ch # chs) =
     (if detect_tag s then
        (let segments' = (if run \<noteq> [] then push_text s run segments else segments);
             s' = s\<lparr>line_buffer := line_buffer s @ [ch]\<rparr> in
         if ch = newline then
           (case finish_tagged_line s' segments' of (s'', segments'') \<Rightarrow> parse_loop s'' [] segments'' chs)
         else
           (let slug = trim_start (line_buffer s') in
            if slug = [] \<or> is_tag_prefix (line_specs s') slug then parse_loop s' [] segments' chs
            else parse_loop (s'\<lparr>line_buffer := [], detect_tag := False\<rparr>) []
                   (push_text s' (line_buffer s') segments') chs))
      else if ch = newline then parse_loop (s\<lparr>detect_tag := True\<rparr>) [] (push_text s (run @ [ch]) segments) chs
      else parse_loop s (run @ [ch]) segments chs)"

definition parse_delta :: "'a tagged_line_parser \<Rightarrow> rstring \<Rightarrow> 'a tagged_line_parser \<times> 'a segment list" where
  "parse_delta s delta = parse_loop s [] [] delta"

definition finish_buffered :: "'a tagged_line_parser \<Rightarrow> 'a tagged_line_parser \<times> 'a segment list" where
  "finish_buffered s0 =
     (let buffered = line_buffer s0; s = s0\<lparr>line_buffer := []\<rparr> in
      case classify_line (line_specs s) (open_tag s) (line_slug buffered) of
        Opens tag \<Rightarrow> (s\<lparr>open_tag := Some tag\<rparr>, push_segment (TagStart tag) [])
      | Closes tag \<Rightarrow> (s\<lparr>open_tag := None\<rparr>, push_segment (TagEnd tag) [])
      | TextLine \<Rightarrow> (s, push_text s buffered []))"

definition tagged_finish :: "'a tagged_line_parser \<Rightarrow> 'a tagged_line_parser \<times> 'a segment list" where
  "tagged_finish s =
     (let (s1, segments) = (if line_buffer s \<noteq> [] then finish_buffered s else (s, [])) in
      (s1\<lparr>open_tag := None, detect_tag := True\<rparr>,
       case open_tag s1 of Some tag \<Rightarrow> push_segment (TagEnd tag) segments | None \<Rightarrow> segments))"


section \<open>Proposed plans (proposed\_plan.rs)\<close>

definition OPEN_TAG :: rstring where
  "OPEN_TAG = lit ''<proposed_plan>''"

definition CLOSE_TAG :: rstring where
  "CLOSE_TAG = lit ''</proposed_plan>''"

datatype plan_tag = ProposedPlan

datatype proposed_plan_segment =
  PlanNormal rstring | ProposedPlanStart | ProposedPlanDelta rstring | ProposedPlanEnd

type_synonym proposed_plan_parser = "plan_tag tagged_line_parser"

definition plan_specs :: "plan_tag tag_spec list" where
  "plan_specs = [\<lparr>line_open = OPEN_TAG, line_close = CLOSE_TAG, line_tag = ProposedPlan\<rparr>]"

definition plan_new :: proposed_plan_parser where
  "plan_new = tagged_new plan_specs"

fun plan_of_segment :: "plan_tag segment \<Rightarrow> proposed_plan_segment" where
  "plan_of_segment (NormalText txt) = PlanNormal txt"
| "plan_of_segment (TagStart _) = ProposedPlanStart"
| "plan_of_segment (TagDelta _ txt) = ProposedPlanDelta txt"
| "plan_of_segment (TagEnd _) = ProposedPlanEnd"

fun map_segments_loop ::
  "proposed_plan_segment stream_text_chunk \<Rightarrow> plan_tag segment list \<Rightarrow> proposed_plan_segment stream_text_chunk" where
  "map_segments_loop out [] = out"
| "map_segments_loop out (segment # segments) =
     (let mapped = plan_of_segment segment;
          out' = (case mapped of PlanNormal txt \<Rightarrow> out\<lparr>visible_text := visible_text out @ txt\<rparr> | _ \<Rightarrow> out) in
      map_segments_loop (out'\<lparr>extracted := extracted out' @ [mapped]\<rparr>) segments)"

definition map_segments :: "plan_tag segment list \<Rightarrow> proposed_plan_segment stream_text_chunk" where
  "map_segments segments = map_segments_loop default_chunk segments"

definition plan_push_str :: "proposed_plan_parser \<Rightarrow> rstring \<Rightarrow> proposed_plan_parser \<times> proposed_plan_segment stream_text_chunk" where
  "plan_push_str s chunk = (case parse_delta s chunk of (s', segments) \<Rightarrow> (s', map_segments segments))"

definition plan_finish :: "proposed_plan_parser \<Rightarrow> proposed_plan_parser \<times> proposed_plan_segment stream_text_chunk" where
  "plan_finish s = (case tagged_finish s of (s', segments) \<Rightarrow> (s', map_segments segments))"

definition strip_proposed_plan_blocks :: "rstring \<Rightarrow> rstring" where
  "strip_proposed_plan_blocks txt =
     (case plan_push_str plan_new txt of (s, out) \<Rightarrow> visible_text out @ visible_text (snd (plan_finish s)))"

fun plan_text_loop :: "bool \<Rightarrow> rstring \<Rightarrow> proposed_plan_segment list \<Rightarrow> bool \<times> rstring" where
  "plan_text_loop saw plan_text [] = (saw, plan_text)"
| "plan_text_loop saw plan_text (segment # segments) =
     (case segment of
        ProposedPlanStart \<Rightarrow> plan_text_loop True [] segments
      | ProposedPlanDelta delta \<Rightarrow> plan_text_loop saw (plan_text @ delta) segments
      | _ \<Rightarrow> plan_text_loop saw plan_text segments)"

definition extract_proposed_plan_text :: "rstring \<Rightarrow> rstring option" where
  "extract_proposed_plan_text txt =
     (case plan_push_str plan_new txt of (s, out) \<Rightarrow>
        case plan_text_loop False [] (extracted out @ extracted (snd (plan_finish s))) of
          (saw_plan_block, plan_text) \<Rightarrow> if saw_plan_block then Some plan_text else None)"


section \<open>Merging of segments\<close>

definition normal :: "'a segment list \<Rightarrow> 'a segment list" where
  "normal xs = fold push_segment xs []"

lemma push_text_merge:
  "push_segment (text_segment t b) (push_segment (text_segment t a) xs) = push_segment (text_segment t (a @ b)) xs"
proof -
  consider "a = []" | "b = []" | "a \<noteq> []" "b \<noteq> []" by blast
  then show ?thesis
  proof cases
    case 3
    then show ?thesis
      by (cases t; cases "last_opt xs")
        (auto simp: text_segment_def last_opt_def butlast_append split: segment.splits if_splits)
  qed (cases t; simp add: text_segment_def)+
qed

lemma fold_push_segment:
  "fold push_segment (push_segment y xs) zs = push_segment y (fold push_segment xs zs)"
proof (cases "push_segment y xs = xs @ [y]")
  case False
  show ?thesis
  proof (cases y)
    case (NormalText d)
    note y = this
    show ?thesis
    proof (cases "d = []")
      case False
      with y \<open>push_segment y xs \<noteq> xs @ [y]\<close> obtain us e where xs: "xs = us @ [NormalText e]"
        by (auto simp: last_opt_Some_iff split: option.splits segment.splits)
      then have "push_segment y xs = us @ [NormalText (e @ d)]" using y False by (simp add: last_opt_def)
      then show ?thesis
        using xs y push_text_merge [of None d e "fold push_segment us zs"] by (simp add: text_segment_def)
    qed (use y in simp)
  next
    case (TagDelta t d)
    note y = this
    show ?thesis
    proof (cases "d = []")
      case False
      with y \<open>push_segment y xs \<noteq> xs @ [y]\<close> obtain us e where xs: "xs = us @ [TagDelta t e]"
        by (auto simp: last_opt_Some_iff split: option.splits segment.splits if_splits)
      then have "push_segment y xs = us @ [TagDelta t (e @ d)]" using y False by (simp add: last_opt_def)
      then show ?thesis
        using xs y push_text_merge [of "Some t" d e "fold push_segment us zs"] by (simp add: text_segment_def)
    qed (use y in simp)
  qed (use False in simp_all)
qed simp

lemma fold_normal: "fold push_segment (normal ys) zs = fold push_segment ys zs"
proof (induction ys rule: rev_induct)
  case (snoc y ys)
  then show ?case by (simp add: normal_def fold_push_segment)
qed (simp add: normal_def)

lemma normal_append: "normal (normal xs @ normal ys) = normal (xs @ ys)"
  using fold_normal [of xs "[]"] fold_normal [of ys "fold push_segment xs []"] by (simp add: normal_def)

lemma normal_fold: "fold push_segment xs (normal ys) = normal (ys @ xs)"
  by (simp add: normal_def)

lemma fold_push_chars:
  "fold push_segment (map (\<lambda>c. text_segment t [c]) cs) (push_segment (text_segment t b) xs) =
     push_segment (text_segment t (b @ cs)) xs"
  by (induction cs arbitrary: b) (simp_all add: push_text_merge)


section \<open>One character at a time\<close>

fun emit :: "'a tagged_line_parser \<Rightarrow> rchar \<Rightarrow> 'a tagged_line_parser \<times> 'a segment list" where
  "emit s ch =
     (if detect_tag s then
        (let s' = s\<lparr>line_buffer := line_buffer s @ [ch]\<rparr> in
         if ch = newline then
           (case classify_line (line_specs s) (open_tag s) (line_slug (line_buffer s')) of
              Opens tag \<Rightarrow> (s'\<lparr>line_buffer := [], open_tag := Some tag, detect_tag := True\<rparr>, [TagStart tag])
            | Closes tag \<Rightarrow> (s'\<lparr>line_buffer := [], open_tag := None, detect_tag := True\<rparr>, [TagEnd tag])
            | TextLine \<Rightarrow> (s'\<lparr>line_buffer := [], detect_tag := True\<rparr>, [text_segment (open_tag s) (line_buffer s')]))
         else if trim_start (line_buffer s') = [] \<or> is_tag_prefix (line_specs s) (trim_start (line_buffer s'))
           then (s', [])
         else (s'\<lparr>line_buffer := [], detect_tag := False\<rparr>, [text_segment (open_tag s) (line_buffer s')]))
      else (if ch = newline then s\<lparr>detect_tag := True\<rparr> else s, [text_segment (open_tag s) [ch]]))"

fun emits :: "'a tagged_line_parser \<Rightarrow> rstring \<Rightarrow> 'a tagged_line_parser \<times> 'a segment list" where
  "emits s [] = (s, [])"
| "emits s (c # cs) = (case emit s c of (s1, e1) \<Rightarrow> case emits s1 cs of (s2, e2) \<Rightarrow> (s2, e1 @ e2))"

declare emit.simps [simp del]

lemma emits_append: "emits s (a @ b) = (case emits s a of (s1, e1) \<Rightarrow> case emits s1 b of (s2, e2) \<Rightarrow> (s2, e1 @ e2))"
  by (induction a arbitrary: s) (auto split: prod.splits)

definition flush_run :: "'a tagged_line_parser \<Rightarrow> rstring \<Rightarrow> 'a segment list \<Rightarrow> 'a segment list" where
  "flush_run s run segments = (if run \<noteq> [] then push_text s run segments else segments)"

lemma flush_run_text: "flush_run s run segments = push_segment (text_segment (open_tag s) run) segments"
  by (cases "open_tag s") (simp_all add: flush_run_def push_text_def text_segment_def)

lemma parse_loop_detect:
  assumes "detect_tag s"
  shows "parse_loop s run segments (c # cs) =
    (case emit s c of (s1, es) \<Rightarrow> parse_loop s1 [] (fold push_segment es (flush_run s run segments)) cs)"
proof -
  let ?kind = "classify_line (line_specs s) (open_tag s) (line_slug (line_buffer s @ [c]))"
  let ?held = "trim_start (line_buffer s @ [c]) = [] \<or> is_tag_prefix (line_specs s) (trim_start (line_buffer s @ [c]))"
  consider "c = newline" | "c \<noteq> newline" ?held | "c \<noteq> newline" "\<not> ?held" by blast
  then show ?thesis
  proof cases
    case 1
    then show ?thesis
      using assms
      by (cases ?kind) (simp_all add: emit.simps finish_tagged_line_def push_text_def flush_run_def [symmetric] Let_def)
  next
    case 2
    then show ?thesis
      using assms by (simp add: emit.simps flush_run_def [symmetric] Let_def)
  next
    case 3
    then show ?thesis
      using assms by (simp add: emit.simps push_text_def [of "s\<lparr>line_buffer := line_buffer s @ [c]\<rparr>"] flush_run_def [symmetric] Let_def)
  qed
qed

lemma parse_loop_emits:
  "parse_loop s run segments cs =
     (case emits s cs of (s', es) \<Rightarrow> (s', fold push_segment es (flush_run s run segments)))"
proof (induction cs arbitrary: s run segments)
  case Nil
  then show ?case by (simp add: flush_run_def)
next
  case (Cons c cs)
  show ?case
  proof (cases "detect_tag s")
    case True
    then show ?thesis
      unfolding parse_loop_detect [OF True] by (simp add: Cons.IH flush_run_def split: prod.splits)
  next
    case False
    have merge: "push_segment (text_segment (open_tag s) [c]) (flush_run s run segments) =
        push_segment (text_segment (open_tag s) (run @ [c])) segments"
      by (simp add: flush_run_text push_text_merge)
    with False show ?thesis
      by (cases "c = newline")
        (simp_all add: Cons.IH emit.simps push_text_def split: prod.splits, simp_all add: flush_run_def push_text_def)
  qed
qed

lemma parse_delta_emits:
  "parse_delta s delta = (case emits s delta of (s', es) \<Rightarrow> (s', normal es))"
  by (simp add: parse_delta_def parse_loop_emits flush_run_def normal_def)


section \<open>Reading line by line\<close>

fun split_inclusive :: "rstring \<Rightarrow> rstring list" where
  "split_inclusive [] = []"
| "split_inclusive (c # s) =
     (if c = newline then [c] # split_inclusive s
      else (case split_inclusive s of [] \<Rightarrow> [[c]] | l # ls \<Rightarrow> (c # l) # ls))"

definition read_line :: "'a tag_spec list \<Rightarrow> 'a option \<Rightarrow> rstring \<Rightarrow> 'a option \<times> 'a segment" where
  "read_line sp act line =
     (case classify_line sp act (line_slug line) of
        Opens tag \<Rightarrow> (Some tag, TagStart tag)
      | Closes tag \<Rightarrow> (None, TagEnd tag)
      | TextLine \<Rightarrow> (act, text_segment act line))"

fun read_lines :: "'a tag_spec list \<Rightarrow> 'a option \<Rightarrow> rstring list \<Rightarrow> 'a segment list" where
  "read_lines sp act [] = (case act of Some tag \<Rightarrow> [TagEnd tag] | None \<Rightarrow> [])"
| "read_lines sp act (line # rest) =
     (case read_line sp act line of (act', segment) \<Rightarrow> segment # read_lines sp act' rest)"

definition read_text :: "'a tag_spec list \<Rightarrow> rstring \<Rightarrow> 'a segment list" where
  "read_text sp txt = read_lines sp None (split_inclusive txt)"

lemma split_inclusive_line: "newline \<notin> set l \<Longrightarrow> split_inclusive (l @ newline # r) = (l @ [newline]) # split_inclusive r"
  by (induction l) auto

lemma split_inclusive_last: "newline \<notin> set l \<Longrightarrow> l \<noteq> [] \<Longrightarrow> split_inclusive l = [l]"
proof (induction l)
  case (Cons c l)
  then show ?case by (cases "l = []") auto
qed simp

lemma line_slug_last: "newline \<notin> set l \<Longrightarrow> line_slug l = trim l"
  by (auto simp: line_slug_def trim_def strip_suffix_Some_iff split: option.splits)

lemma line_slug_line: "line_slug (l @ [newline]) = trim l"
proof -
  have "strip_suffix [newline] (l @ [newline]) = Some l" by (simp add: strip_suffix_Some_iff)
  then show ?thesis by (simp add: line_slug_def trim_def)
qed

text \<open>A line that was given up as a tag is none: what was read of it extends to the tag otherwise.\<close>

definition held :: "'a tag_spec list \<Rightarrow> rstring \<Rightarrow> bool" where
  "held sp b \<longleftrightarrow> trim_start b = [] \<or> is_tag_prefix sp (trim_start b)"

lemma trim_end_prefix: "prefix (trim_end a) (trim_end (a @ b))"
proof (induction b rule: rev_induct)
  case (snoc x b)
  have "trim_end (a @ b @ [x]) = (if is_whitespace x then trim_end (a @ b) else a @ b @ [x])"
    using trim_end_snoc [of "a @ b" x] by simp
  moreover have "prefix (trim_end a) a" unfolding trim_end_def by (metis suffix_dropWhile suffix_to_prefix rev_rev_ident)
  ultimately show ?case using snoc by (auto intro: prefix_order.trans)
qed simp

lemma trim_prefix: "prefix p l \<Longrightarrow> prefix (trim p) (trim l)"
proof -
  assume "prefix p l"
  then obtain r where l: "l = p @ r" by (auto simp: prefix_def)
  show ?thesis
  proof (cases "trim_start p = []")
    case True
    then show ?thesis by (simp add: trim_def)
  next
    case False
    then have "trim_start l = trim_start p @ r" unfolding l by (induction p) (auto simp: trim_start_Cons)
    then show ?thesis by (simp add: trim_def trim_end_prefix)
  qed
qed

lemma not_held_text:
  assumes "prefix p l" and "\<not> held sp p"
  shows "classify_line sp act (trim l) = TextLine"
proof -
  have no: "\<not> prefix (trim p) (line_open spec) \<and> \<not> prefix (trim p) (line_close spec)" if "spec \<in> set sp" for spec
    using assms(2) that by (auto simp: held_def is_tag_prefix_def trim_def Let_def list_ex_iff starts_with_iff)
  have "line_open spec \<noteq> trim l \<and> line_close spec \<noteq> trim l" if "spec \<in> set sp" for spec
    using no [OF that] trim_prefix [OF assms(1)] by metis
  then have "find (\<lambda>spec. line_open spec = trim l) sp = None" "find (\<lambda>spec. line_close spec = trim l) sp = None"
    by (auto simp: find_None_iff)
  then show ?thesis by (simp add: classify_line_def match_open_def match_close_def)
qed

definition at :: "'a tag_spec list \<Rightarrow> 'a option \<Rightarrow> bool \<Rightarrow> rstring \<Rightarrow> 'a tagged_line_parser" where
  "at sp act d b = \<lparr>line_specs = sp, open_tag = act, detect_tag = d, line_buffer = b\<rparr>"

lemma emits_text: "newline \<notin> set cs \<Longrightarrow> emits (at sp act False []) cs = (at sp act False [], map (\<lambda>c. text_segment act [c]) cs)"
  by (induction cs) (simp_all add: at_def emit.simps)

lemma emits_line_part:
  assumes "newline \<notin> set cs"
  shows "emits (at sp act True b) cs = (at sp act True (b @ cs), []) \<or>
    (\<exists>es p. prefix p (b @ cs) \<and> \<not> held sp p \<and> emits (at sp act True b) cs = (at sp act False [], es) \<and>
       (\<forall>xs. fold push_segment es xs = push_segment (text_segment act (b @ cs)) xs))"
  using assms
proof (induction cs arbitrary: b)
  case (Cons c cs)
  show ?case
  proof (cases "held sp (b @ [c])")
    case True
    then have "emit (at sp act True b) c = (at sp act True (b @ [c]), [])"
      using Cons.prems by (auto simp: emit.simps at_def held_def)
    then show ?thesis using Cons.IH [of "b @ [c]"] Cons.prems by (auto split: prod.splits)
  next
    case False
    then have "emit (at sp act True b) c = (at sp act False [], [text_segment act (b @ [c])])"
      using Cons.prems by (auto simp: emit.simps at_def held_def)
    then have "emits (at sp act True b) (c # cs) =
        (at sp act False [], text_segment act (b @ [c]) # map (\<lambda>c. text_segment act [c]) cs)"
      using Cons.prems by (simp add: emits_text)
    moreover have "prefix (b @ [c]) (b @ c # cs)" by simp
    moreover have "fold push_segment (text_segment act (b @ [c]) # map (\<lambda>c. text_segment act [c]) cs) xs =
        push_segment (text_segment act (b @ c # cs)) xs" for xs
      using fold_push_chars [of act cs "b @ [c]" xs] by simp
    ultimately show ?thesis using False by blast
  qed
qed simp

lemma emits_line:
  assumes "newline \<notin> set l"
  shows "\<exists>es. emits (at sp act True []) (l @ [newline]) = (at sp (fst (read_line sp act (l @ [newline]))) True [], es) \<and>
    (\<forall>xs. fold push_segment es xs = push_segment (snd (read_line sp act (l @ [newline]))) xs)"
  using emits_line_part [OF assms, of sp act "[]"]
proof
  assume "emits (at sp act True []) l = (at sp act True ([] @ l), [])"
  then show ?thesis
    by (cases "classify_line sp act (line_slug (l @ [newline]))")
      (simp_all add: emits_append emit.simps at_def read_line_def)
next
  assume "\<exists>es p. prefix p ([] @ l) \<and> \<not> held sp p \<and> emits (at sp act True []) l = (at sp act False [], es) \<and>
       (\<forall>xs. fold push_segment es xs = push_segment (text_segment act ([] @ l)) xs)"
  then obtain es p where p: "prefix p l" "\<not> held sp p" and es: "emits (at sp act True []) l = (at sp act False [], es)"
    "\<And>xs. fold push_segment es xs = push_segment (text_segment act l) xs"
    by auto
  have "read_line sp act (l @ [newline]) = (act, text_segment act (l @ [newline]))"
    using not_held_text [OF p] by (simp add: read_line_def line_slug_line)
  moreover have "emits (at sp act True []) (l @ [newline]) = (at sp act True [], es @ [text_segment act [newline]])"
    using es by (simp add: emits_append emit.simps at_def)
  ultimately show ?thesis using es(2) by (simp add: push_text_merge)
qed

lemma emits_last_line:
  assumes "newline \<notin> set l"
  shows "\<exists>s es. emits (at sp act True []) l = (s, es) \<and>
    (\<forall>xs. fold push_segment (es @ snd (tagged_finish s)) xs =
       fold push_segment (read_lines sp act (if l = [] then [] else [l])) xs)"
  using emits_line_part [OF assms, of sp act "[]"]
proof
  assume "emits (at sp act True []) l = (at sp act True ([] @ l), [])"
  then show ?thesis
    by (cases "l = []"; cases act; cases "classify_line sp act (line_slug l)")
      (auto simp: tagged_finish_def finish_buffered_def at_def read_line_def push_text_def Let_def text_segment_def
        last_opt_def)
next
  assume "\<exists>es p. prefix p ([] @ l) \<and> \<not> held sp p \<and> emits (at sp act True []) l = (at sp act False [], es) \<and>
       (\<forall>xs. fold push_segment es xs = push_segment (text_segment act ([] @ l)) xs)"
  then obtain es p where p: "prefix p l" "\<not> held sp p" and es: "emits (at sp act True []) l = (at sp act False [], es)"
    "\<And>xs. fold push_segment es xs = push_segment (text_segment act l) xs"
    by auto
  have "p \<noteq> []" using p(2) by (auto simp: held_def)
  then have "l \<noteq> []" using p(1) by auto
  moreover have "read_line sp act l = (act, text_segment act l)"
    using not_held_text [OF p] by (simp add: read_line_def line_slug_last [OF assms])
  moreover have "tagged_finish (at sp act False []) =
      (at sp None True [], case act of Some tag \<Rightarrow> [TagEnd tag] | None \<Rightarrow> [])"
    by (cases act) (simp_all add: tagged_finish_def at_def)
  ultimately show ?thesis using es by (cases act) simp_all
qed

lemma emits_read:
  "\<exists>s es. emits (at sp act True []) body = (s, es) \<and>
    (\<forall>xs. fold push_segment (es @ snd (tagged_finish s)) xs = fold push_segment (read_lines sp act (split_inclusive body)) xs)"
proof (induction "length body" arbitrary: body act rule: less_induct)
  case less
  show ?case
  proof (cases "newline \<in> set body")
    case False
    then have "split_inclusive body = (if body = [] then [] else [body])" by (simp add: split_inclusive_last)
    with emits_last_line [OF False, of sp act] show ?thesis by simp
  next
    case True
    then obtain l r where body: "body = l @ newline # r" and l: "newline \<notin> set l" by (meson split_list_first)
    obtain act' seg where rl: "read_line sp act (l @ [newline]) = (act', seg)" by (cases "read_line sp act (l @ [newline])")
    obtain es1 where e1: "emits (at sp act True []) (l @ [newline]) = (at sp act' True [], es1)"
      "\<And>xs. fold push_segment es1 xs = push_segment seg xs"
      using emits_line [OF l, of sp act] rl by auto
    have "length r < length body" using body by simp
    from less [OF this, of act'] obtain s es2 where e2: "emits (at sp act' True []) r = (s, es2)"
      "\<And>xs. fold push_segment (es2 @ snd (tagged_finish s)) xs = fold push_segment (read_lines sp act' (split_inclusive r)) xs"
      by blast
    have "emits (at sp act True []) body = (s, es1 @ es2)"
      using emits_append [of "at sp act True []" "l @ [newline]" r] e1(1) e2(1) body by simp
    moreover have "fold push_segment ((es1 @ es2) @ snd (tagged_finish s)) xs =
        fold push_segment (read_lines sp act (split_inclusive body)) xs" for xs
      using e1(2) e2(2) [of "push_segment seg xs"] rl by (simp add: body split_inclusive_line [OF l])
    ultimately show ?thesis by blast
  qed
qed


section \<open>Plans in a stream\<close>

fun segment_of_plan :: "proposed_plan_segment \<Rightarrow> plan_tag segment" where
  "segment_of_plan (PlanNormal txt) = NormalText txt"
| "segment_of_plan ProposedPlanStart = TagStart ProposedPlan"
| "segment_of_plan (ProposedPlanDelta txt) = TagDelta ProposedPlan txt"
| "segment_of_plan ProposedPlanEnd = TagEnd ProposedPlan"

lemma plan_segment_map [simp]: "segment_of_plan (plan_of_segment x) = x"
proof -
  have "t = ProposedPlan" for t by (cases t)
  then show ?thesis by (cases x) (simp_all, metis+)
qed

lemma plan_segment_comp [simp]: "segment_of_plan \<circ> plan_of_segment = id"
  by (simp add: fun_eq_iff)

text \<open>Neighbouring pieces of the same kind are one piece: how the text was cut does not matter.\<close>

definition plan_normal :: "proposed_plan_segment list \<Rightarrow> proposed_plan_segment list" where
  "plan_normal xs = map plan_of_segment (normal (map segment_of_plan xs))"

fun shown :: "'a segment \<Rightarrow> rstring" where
  "shown (NormalText txt) = txt"
| "shown _ = []"

lemma plan_segment_list [simp]: "map segment_of_plan (map plan_of_segment xs) = xs"
  by (simp add: comp_def)

lemma map_segments_loop_eq:
  "map_segments_loop out xs = append_chunk out \<lparr>visible_text = concat (map shown xs), extracted = map plan_of_segment xs\<rparr>"
proof (induction xs arbitrary: out)
  case (Cons x xs)
  then show ?case by (cases x) (simp_all add: append_chunk_def)
qed (cases out, simp add: append_chunk_def)

lemma map_segments_eq: "map_segments xs = \<lparr>visible_text = concat (map shown xs), extracted = map plan_of_segment xs\<rparr>"
  by (simp add: map_segments_def map_segments_loop_eq)

lemma shown_push: "concat (map shown (push_segment x xs)) = concat (map shown xs) @ shown x"
  by (cases x) (auto simp: last_opt_Some_iff split: option.splits segment.splits)

lemma shown_fold: "concat (map shown (fold push_segment xs ys)) = concat (map shown ys) @ concat (map shown xs)"
  by (induction xs arbitrary: ys) (simp_all add: shown_push)

lemma shown_normal: "concat (map shown (normal xs)) = concat (map shown xs)"
  by (simp add: normal_def shown_fold)

lemma plan_push_emits:
  "plan_push_str s t = (case emits s t of (s', es) \<Rightarrow> (s', map_segments (normal es)))"
  by (simp add: plan_push_str_def parse_delta_emits split: prod.splits)

definition plan_push :: "(proposed_plan_parser, proposed_plan_segment) push" where
  "plan_push s t = Some (plan_push_str s t)"

interpretation plan: stream_text_parser plan_push "\<lambda>s. True" plan_normal
proof
  fix s t
  show "\<exists>s' out. plan_push s t = Some (s', out) \<and> True"
    by (cases "plan_push_str s t") (simp add: plan_push_def)
next
  fix s
  show "plan_push s [] = Some (s, default_chunk)"
    by (simp add: plan_push_def plan_push_emits map_segments_eq normal_def default_chunk_def)
next
  fix s a s1 o1 b s2 o2
  assume "plan_push s a = Some (s1, o1)" and "plan_push s1 b = Some (s2, o2)"
  then obtain ea eb where a: "emits s a = (s1, ea)" "o1 = map_segments (normal ea)"
    and b: "emits s1 b = (s2, eb)" "o2 = map_segments (normal eb)"
    by (auto simp: plan_push_def plan_push_emits split: prod.splits)
  have "emits s (a @ b) = (s2, ea @ eb)" using a b by (simp add: emits_append)
  then show "\<exists>out. plan_push s (a @ b) = Some (s2, out) \<and> visible_text out = visible_text o1 @ visible_text o2 \<and>
      plan_normal (extracted out) = plan_normal (extracted o1 @ extracted o2)"
    using a b fold_normal [of "ea @ eb" "[]"]
    by (simp add: plan_push_def plan_push_emits map_segments_eq shown_normal plan_normal_def normal_append)
      (simp add: normal_def)
next
  fix xs ys
  show "plan_normal (plan_normal xs @ plan_normal ys) = plan_normal (xs @ ys)"
    by (simp add: plan_normal_def normal_append comp_def)
qed

text \<open>
  Plan blocks are read line by line: however a text is cut into chunks, feeding it and finishing
  shows exactly the text outside the blocks and yields the segments that reading its lines gives, up
  to how neighbouring pieces of text are joined. A line is a tag when it is the tag between white
  space; holding back what may become a tag never loses, repeats or reorders text, and a block
  that is still open at the end is closed.
\<close>

lemma plan_stream_by_lines:
  "\<exists>s out. feed plan_push plan_new chunks = Some (s, out) \<and>
    visible_text out @ visible_text (snd (plan_finish s)) = concat (map shown (read_text plan_specs (concat chunks))) \<and>
    plan_normal (extracted out @ extracted (snd (plan_finish s))) =
      map plan_of_segment (normal (read_text plan_specs (concat chunks)))"
proof -
  let ?read = "read_text plan_specs (concat chunks)"
  obtain s es where e: "emits plan_new (concat chunks) = (s, es)"
    "\<And>xs. fold push_segment (es @ snd (tagged_finish s)) xs = fold push_segment ?read xs"
    using emits_read [of plan_specs None "concat chunks"]
    by (auto simp: plan_new_def tagged_new_def at_def read_text_def)
  obtain s' out whole where f: "feed plan_push plan_new chunks = Some (s', out)"
    and w: "plan_push plan_new (concat chunks) = Some (s', whole)" and same: "plan.same_output out whole"
    using plan.feed_fragments [of plan_new chunks] by blast
  have s': "s' = s" and whole: "whole = map_segments (normal es)"
    using w e(1) by (simp_all add: plan_push_def plan_push_emits)
  obtain fs where fin: "snd (plan_finish s) = map_segments fs" and fs: "snd (tagged_finish s) = fs"
    by (cases "tagged_finish s") (simp add: plan_finish_def)
  have norm: "normal (es @ fs) = normal ?read" using e(2) [of "[]"] fs by (simp add: normal_def)
  have "visible_text out @ visible_text (map_segments fs) = concat (map shown (es @ fs))"
    using same whole by (simp add: plan.same_output_def map_segments_eq shown_normal)
  also have "\<dots> = concat (map shown ?read)" using norm by (metis shown_normal)
  finally have vis: "visible_text out @ visible_text (map_segments fs) = concat (map shown ?read)" .
  have "plan_normal (extracted out @ extracted (map_segments fs)) =
      plan_normal (plan_normal (extracted out) @ plan_normal (extracted (map_segments fs)))"
    by (rule plan.normal_append [symmetric])
  also have "\<dots> = plan_normal (map plan_of_segment (normal es) @ map plan_of_segment fs)"
    using same whole plan.normal_append [of "map plan_of_segment (normal es)" "map plan_of_segment fs"]
    by (simp add: plan.same_output_def map_segments_eq)
  also have "\<dots> = map plan_of_segment (normal (es @ fs))"
    using fold_normal [of es "[]"] by (simp add: plan_normal_def comp_def normal_def)
  finally show ?thesis using f s' fin vis norm by auto
qed

end
