(* ===== verification/Assistant_Text.thy ===== *)
theory Assistant_Text
  imports Hidden_Tags Tagged_Lines
begin

text \<open>
  \<^verbatim>\<open>codex-rs/utils/stream-parser/src/assistant_text.rs\<close>: the pipeline for the text of the assistant. Citations
  are removed first; in plan mode what remains visible goes through the parser of plan blocks.
\<close>

record assistant_text_chunk =
  shown_text :: rstring
  citations :: "rstring list"
  plan_segments :: "proposed_plan_segment list"

definition default_assistant_chunk :: assistant_text_chunk where
  "default_assistant_chunk = \<lparr>shown_text = [], citations = [], plan_segments = []\<rparr>"

definition assistant_chunk_is_empty :: "assistant_text_chunk \<Rightarrow> bool" where
  "assistant_chunk_is_empty c \<longleftrightarrow> shown_text c = [] \<and> citations c = [] \<and> plan_segments c = []"

record assistant_text_stream_parser =
  plan_mode :: bool
  citation_parser :: citation_stream_parser
  plan_parser :: proposed_plan_parser

definition assistant_new :: "bool \<Rightarrow> assistant_text_stream_parser option" where
  "assistant_new m = map_option (\<lambda>c. \<lparr>plan_mode = m, citation_parser = c, plan_parser = plan_new\<rparr>) citation_new"

definition parse_visible_text ::
  "assistant_text_stream_parser \<Rightarrow> rstring \<Rightarrow> assistant_text_stream_parser \<times> assistant_text_chunk" where
  "parse_visible_text s visible =
     (if \<not> plan_mode s then (s, default_assistant_chunk\<lparr>shown_text := visible\<rparr>)
      else (case plan_push_str (plan_parser s) visible of (p, out) \<Rightarrow>
              (s\<lparr>plan_parser := p\<rparr>,
               default_assistant_chunk\<lparr>shown_text := visible_text out, plan_segments := extracted out\<rparr>)))"

definition assistant_push_str ::
  "assistant_text_stream_parser \<Rightarrow> rstring \<Rightarrow> (assistant_text_stream_parser \<times> assistant_text_chunk) option" where
  "assistant_push_str s chunk =
     (case citation_push_str (citation_parser s) chunk of
        None \<Rightarrow> None
      | Some (c, cited_chunk) \<Rightarrow>
          (case parse_visible_text (s\<lparr>citation_parser := c\<rparr>) (visible_text cited_chunk) of (s', out) \<Rightarrow>
             Some (s', out\<lparr>citations := extracted cited_chunk\<rparr>)))"

definition assistant_finish ::
  "assistant_text_stream_parser \<Rightarrow> assistant_text_stream_parser \<times> assistant_text_chunk" where
  "assistant_finish s =
     (case citation_finish (citation_parser s) of (c, cited_chunk) \<Rightarrow>
      case parse_visible_text (s\<lparr>citation_parser := c\<rparr>) (visible_text cited_chunk) of (s1, out1) \<Rightarrow>
      case (if plan_mode s1 then
              (case plan_finish (plan_parser s1) of (p, tail) \<Rightarrow>
                 (s1\<lparr>plan_parser := p\<rparr>,
                  if \<not> chunk_is_empty tail
                  then out1\<lparr>shown_text := shown_text out1 @ visible_text tail,
                            plan_segments := plan_segments out1 @ extracted tail\<rparr>
                  else out1))
            else (s1, out1)) of (s2, out2) \<Rightarrow>
        (s2, out2\<lparr>citations := extracted cited_chunk\<rparr>))"

definition append_assistant_chunk :: "assistant_text_chunk \<Rightarrow> assistant_text_chunk \<Rightarrow> assistant_text_chunk" where
  "append_assistant_chunk a b =
     \<lparr>shown_text = shown_text a @ shown_text b, citations = citations a @ citations b,
      plan_segments = plan_segments a @ plan_segments b\<rparr>"

text \<open>What a caller collects that pushes the chunks of a stream and then finishes.\<close>

fun assistant_feed ::
  "assistant_text_stream_parser \<Rightarrow> rstring list \<Rightarrow> assistant_text_chunk option" where
  "assistant_feed s [] = Some (snd (assistant_finish s))"
| "assistant_feed s (c # cs) =
     (case assistant_push_str s c of
        None \<Rightarrow> None
      | Some (s', out) \<Rightarrow> map_option (append_assistant_chunk out) (assistant_feed s' cs))"


section \<open>The stages of the pipeline\<close>

text \<open>
  The pieces \<open>vs\<close> are what the citation parser makes visible of each chunk and at the end: the plan
  parser is fed with them.
\<close>

lemma assistant_feed_stages:
  assumes "hidden_ok c"
  shows "\<exists>c' co vs p' po. feed citation_push_str c chunks = Some (c', co) \<and>
    concat vs = visible_text co @ visible_text (snd (citation_finish c')) \<and>
    feed plan_push p vs = Some (p', po) \<and>
    assistant_feed \<lparr>plan_mode = m, citation_parser = c, plan_parser = p\<rparr> chunks =
      Some \<lparr>shown_text = (if m then visible_text po @ visible_text (snd (plan_finish p')) else concat vs),
            citations = extracted co @ extracted (snd (citation_finish c')),
            plan_segments = (if m then extracted po @ extracted (snd (plan_finish p')) else [])\<rparr>"
  using assms
proof (induction chunks arbitrary: c p)
  case Nil
  obtain c1 t where fin: "citation_finish c = (c1, t)" by (cases "citation_finish c")
  obtain p1 o1 where p1: "plan_push_str p (visible_text t) = (p1, o1)" by (cases "plan_push_str p (visible_text t)")
  obtain p2 o2 where p2: "plan_finish p1 = (p2, o2)" by (cases "plan_finish p1")
  have "assistant_feed \<lparr>plan_mode = m, citation_parser = c, plan_parser = p\<rparr> [] =
      Some \<lparr>shown_text = (if m then visible_text o1 @ visible_text o2 else visible_text t),
            citations = extracted t, plan_segments = (if m then extracted o1 @ extracted o2 else [])\<rparr>"
    using fin p1 p2
    by (cases m) (auto simp: assistant_finish_def parse_visible_text_def default_assistant_chunk_def chunk_is_empty_def)
  moreover have "feed plan_push p [visible_text t] = Some (p1, o1)" using p1 by (simp add: plan_push_def)
  ultimately show ?case
    using fin p2 by (intro exI [of _ c] exI [of _ default_chunk] exI [of _ "[visible_text t]"] exI [of _ p1] exI [of _ o1]) simp
next
  case (Cons chunk chunks)
  obtain c1 t where c1: "citation_push_str c chunk = Some (c1, t)" and ok: "hidden_ok c1"
    using citation_push_returns [OF Cons.prems] by blast
  obtain p1 o1 where p1: "plan_push_str p (visible_text t) = (p1, o1)" by (cases "plan_push_str p (visible_text t)")
  obtain c' co where co: "feed citation_push_str c1 chunks = Some (c', co)"
    using Cons.IH [OF ok] by blast
  show ?case
  proof (cases m)
    case True
    from Cons.IH [OF ok, of p1] obtain vs p' po where ih:
      "concat vs = visible_text co @ visible_text (snd (citation_finish c'))" "feed plan_push p1 vs = Some (p', po)"
      "assistant_feed \<lparr>plan_mode = m, citation_parser = c1, plan_parser = p1\<rparr> chunks =
        Some \<lparr>shown_text = visible_text po @ visible_text (snd (plan_finish p')),
              citations = extracted co @ extracted (snd (citation_finish c')),
              plan_segments = extracted po @ extracted (snd (plan_finish p'))\<rparr>"
      using co True by auto
    have "feed plan_push p (visible_text t # vs) = Some (p', append_chunk o1 po)"
      using p1 ih(2) by (simp add: plan_push_def)
    moreover have "feed citation_push_str c (chunk # chunks) = Some (c', append_chunk t co)"
      using c1 co by simp
    moreover have "concat (visible_text t # vs) = visible_text (append_chunk t co) @ visible_text (snd (citation_finish c'))"
      using ih(1) by simp
    moreover have "assistant_feed \<lparr>plan_mode = m, citation_parser = c, plan_parser = p\<rparr> (chunk # chunks) =
        Some \<lparr>shown_text = visible_text (append_chunk o1 po) @ visible_text (snd (plan_finish p')),
              citations = extracted (append_chunk t co) @ extracted (snd (citation_finish c')),
              plan_segments = extracted (append_chunk o1 po) @ extracted (snd (plan_finish p'))\<rparr>"
      using True c1 p1 ih(3)
      by (simp add: assistant_push_str_def parse_visible_text_def default_assistant_chunk_def append_assistant_chunk_def)
    ultimately show ?thesis
      by (intro exI [of _ c'] exI [of _ "append_chunk t co"] exI [of _ "visible_text t # vs"] exI [of _ p']
          exI [of _ "append_chunk o1 po"]) (simp only: True if_True simp_thms)
  next
    case False
    from Cons.IH [OF ok, of p] obtain vs where ih:
      "concat vs = visible_text co @ visible_text (snd (citation_finish c'))"
      "assistant_feed \<lparr>plan_mode = m, citation_parser = c1, plan_parser = p\<rparr> chunks =
        Some \<lparr>shown_text = concat vs, citations = extracted co @ extracted (snd (citation_finish c')),
              plan_segments = []\<rparr>"
      using co False by auto
    obtain p' po where pf: "feed plan_push p (visible_text t # vs) = Some (p', po)"
      using plan.feed_fragments [of p "visible_text t # vs"] by blast
    have "feed citation_push_str c (chunk # chunks) = Some (c', append_chunk t co)"
      using c1 co by simp
    moreover have "concat (visible_text t # vs) = visible_text (append_chunk t co) @ visible_text (snd (citation_finish c'))"
      using ih(1) by simp
    moreover have "assistant_feed \<lparr>plan_mode = m, citation_parser = c, plan_parser = p\<rparr> (chunk # chunks) =
        Some \<lparr>shown_text = concat (visible_text t # vs),
              citations = extracted (append_chunk t co) @ extracted (snd (citation_finish c')), plan_segments = []\<rparr>"
      using False c1 ih(2)
      by (simp add: assistant_push_str_def parse_visible_text_def default_assistant_chunk_def append_assistant_chunk_def)
    ultimately show ?thesis
      by (intro exI [of _ c'] exI [of _ "append_chunk t co"] exI [of _ "visible_text t # vs"] exI [of _ p']
          exI [of _ po]) (simp only: False if_False pf simp_thms)
  qed
qed

lemma strip_citations_feed:
  assumes "feed citation_push_str citation_start chunks = Some (c, co)"
  shows "strip_citations (concat chunks) =
    Some (visible_text co @ visible_text (snd (citation_finish c)), extracted co @ extracted (snd (citation_finish c)))"
  using citation.feed_fragments [OF citation_start_ok, of chunks] assms
  by (auto simp: strip_citations_def citation_new_start citation.same_output_def Let_def)

text \<open>
  C5. The text of the assistant comes out of the streaming pipeline as from two passes over the whole
  text: however it is cut into chunks, pushing them and finishing returns; the citations are those of
  \<^verbatim>\<open>strip_citations\<close>; outside plan mode the text shown is the text without citations; in plan mode
  that text is read line by line, the plan blocks are left out of what is shown and delivered as
  segments, up to how neighbouring pieces of text are joined. A tag may be cut anywhere, also by a
  citation inside it.
\<close>

theorem assistant_stream_two_passes:
  "\<exists>s out visible cited. assistant_new m = Some s \<and> assistant_feed s chunks = Some out \<and>
    strip_citations (concat chunks) = Some (visible, cited) \<and> citations out = cited \<and>
    shown_text out = (if m then concat (map shown (read_text plan_specs visible)) else visible) \<and>
    plan_normal (plan_segments out) =
      (if m then map plan_of_segment (normal (read_text plan_specs visible)) else [])"
proof -
  obtain c co vs p po where st: "feed citation_push_str citation_start chunks = Some (c, co)"
    "concat vs = visible_text co @ visible_text (snd (citation_finish c))"
    "feed plan_push plan_new vs = Some (p, po)"
    "assistant_feed \<lparr>plan_mode = m, citation_parser = citation_start, plan_parser = plan_new\<rparr> chunks =
      Some \<lparr>shown_text = (if m then visible_text po @ visible_text (snd (plan_finish p)) else concat vs),
            citations = extracted co @ extracted (snd (citation_finish c)),
            plan_segments = (if m then extracted po @ extracted (snd (plan_finish p)) else [])\<rparr>"
    using assistant_feed_stages [OF citation_start_ok, of chunks plan_new m] by blast
  have "plan_normal [] = []" by (simp add: plan_normal_def normal_def)
  moreover have "visible_text po @ visible_text (snd (plan_finish p)) = concat (map shown (read_text plan_specs (concat vs)))"
    "plan_normal (extracted po @ extracted (snd (plan_finish p))) =
      map plan_of_segment (normal (read_text plan_specs (concat vs)))"
    using plan_stream_by_lines [of vs] st(3) by auto
  moreover have "assistant_new m = Some \<lparr>plan_mode = m, citation_parser = citation_start, plan_parser = plan_new\<rparr>"
    by (simp add: assistant_new_def citation_new_start)
  moreover have "strip_citations (concat chunks) = Some (concat vs, extracted co @ extracted (snd (citation_finish c)))"
    using strip_citations_feed [OF st(1)] st(2) by simp
  ultimately show ?thesis using st(4) by (cases m) auto
qed

end
