(* ===== verification/Head_Tail_Buffer.thy ===== *)
theory Head_Tail_Buffer
  imports Rust_Prelude "HOL-Library.Word"
begin

text \<open>
  \<^verbatim>\<open>codex-rs/core/src/unified_exec/head_tail_buffer.rs\<close>: the capped buffer that keeps the beginning and
  the end of the output of a process. Counters are \<^verbatim>\<open>usize\<close> on a 64-bit target: additions saturate.
\<close>

type_synonym bytes = "8 word list"

record head_tail_buffer =
  max_bytes :: nat
  head_budget :: nat
  tail_budget :: nat
  buffer_head :: bytes
  buffer_tail :: bytes
  omitted :: nat

definition UNIFIED_EXEC_OUTPUT_MAX_BYTES :: nat where
  "UNIFIED_EXEC_OUTPUT_MAX_BYTES = 1024 * 1024"

definition buffer_new :: "nat \<Rightarrow> head_tail_buffer" where
  "buffer_new m =
     (let hb = m div 2; tb = m - hb in
      \<lparr>max_bytes = m, head_budget = hb, tail_budget = tb, buffer_head = [], buffer_tail = [], omitted = 0\<rparr>)"

definition buffer_default :: head_tail_buffer where
  "buffer_default = buffer_new UNIFIED_EXEC_OUTPUT_MAX_BYTES"

definition retained_bytes :: "head_tail_buffer \<Rightarrow> nat" where
  "retained_bytes b = saturating_add (length (buffer_head b)) (length (buffer_tail b))"

definition omitted_bytes :: "head_tail_buffer \<Rightarrow> nat" where
  "omitted_bytes b = omitted b"

definition total_bytes :: "head_tail_buffer \<Rightarrow> nat" where
  "total_bytes b = saturating_add (retained_bytes b) (omitted b)"

definition trim_tail_to_budget :: "head_tail_buffer \<Rightarrow> head_tail_buffer" where
  "trim_tail_to_budget b =
     (let excess = length (buffer_tail b) - tail_budget b in
      if 0 < excess
      then b\<lparr>buffer_tail := drop excess (buffer_tail b), omitted := saturating_add (omitted b) excess\<rparr>
      else b)"

definition push_to_tail :: "bytes \<Rightarrow> head_tail_buffer \<Rightarrow> head_tail_buffer" where
  "push_to_tail chunk b =
     (if chunk = [] then b
      else if tail_budget b = 0 then b\<lparr>omitted := saturating_add (omitted b) (length chunk)\<rparr>
      else if tail_budget b \<le> length chunk then
        (let start = length chunk - tail_budget b;
             kept = drop start chunk;
             dropped = length chunk - length kept in
         b\<lparr>omitted := saturating_add (saturating_add (omitted b) (length (buffer_tail b))) dropped,
           buffer_tail := kept\<rparr>)
      else trim_tail_to_budget (b\<lparr>buffer_tail := buffer_tail b @ chunk\<rparr>))"

definition push_chunk :: "bytes \<Rightarrow> head_tail_buffer \<Rightarrow> head_tail_buffer" where
  "push_chunk chunk b =
     (if chunk = [] then b
      else if max_bytes b = 0 then b\<lparr>omitted := saturating_add (omitted b) (length chunk)\<rparr>
      else
        (let remaining_head = head_budget b - length (buffer_head b);
             head_len = min remaining_head (length chunk);
             b' = (if 0 < head_len then b\<lparr>buffer_head := buffer_head b @ take head_len chunk\<rparr> else b) in
         push_to_tail (drop head_len chunk) b'))"

definition snapshot_chunks :: "head_tail_buffer \<Rightarrow> bytes list" where
  "snapshot_chunks b =
     (if buffer_head b \<noteq> [] then [buffer_head b] else []) @ (if buffer_tail b \<noteq> [] then [buffer_tail b] else [])"

definition to_bytes :: "head_tail_buffer \<Rightarrow> bytes" where
  "to_bytes b = buffer_head b @ buffer_tail b"

definition ascii_bytes :: "string \<Rightarrow> bytes" where
  "ascii_bytes s = map of_char s"

fun decimal_digits :: "nat \<Rightarrow> bytes" where
  "decimal_digits n =
     (if n < 10 then [of_nat (48 + n)] else decimal_digits (n div 10) @ [of_nat (48 + n mod 10)])"

declare decimal_digits.simps [simp del]

definition format_output_omission_marker :: "nat \<Rightarrow> bytes" where
  "format_output_omission_marker n = ascii_bytes ''... '' @ decimal_digits n @ ascii_bytes '' bytes omitted ...''"

definition to_bytes_with_omission_marker :: "head_tail_buffer \<Rightarrow> bytes" where
  "to_bytes_with_omission_marker b =
     (if omitted b = 0 then to_bytes b
      else buffer_head b @ [10] @ format_output_omission_marker (omitted b) @ [10] @ buffer_tail b)"

text \<open>\<^verbatim>\<open>drain\<close> returns the contents and leaves an empty buffer of the same capacity.\<close>

definition buffer_drain :: "head_tail_buffer \<Rightarrow> head_tail_buffer \<times> head_tail_buffer" where
  "buffer_drain b = (b, b\<lparr>buffer_head := [], buffer_tail := [], omitted := 0\<rparr>)"

definition push_buffer :: "head_tail_buffer \<Rightarrow> head_tail_buffer \<Rightarrow> head_tail_buffer" where
  "push_buffer other b =
     (let b' = push_chunk (buffer_tail other) (push_chunk (buffer_head other) b) in
      b'\<lparr>omitted := saturating_add (omitted b') (omitted other)\<rparr>)"


section \<open>The buffer as a function of the whole output\<close>

definition suffix_of :: "nat \<Rightarrow> 'a list \<Rightarrow> 'a list" where
  "suffix_of n xs = drop (length xs - n) xs"

definition buffer_of :: "nat \<Rightarrow> bytes \<Rightarrow> head_tail_buffer" where
  "buffer_of m out =
     \<lparr>max_bytes = m, head_budget = m div 2, tail_budget = m - m div 2,
      buffer_head = take (m div 2) out,
      buffer_tail = suffix_of (m - m div 2) (drop (m div 2) out),
      omitted = min usize_max (length out - m)\<rparr>"

lemma saturating_add_assoc: "saturating_add (saturating_add a b) c = saturating_add a (b + c)"
  by (simp add: saturating_add_def)

lemma suffix_of_append_long: "n \<le> length ys \<Longrightarrow> suffix_of n (xs @ ys) = suffix_of n ys"
  by (simp add: suffix_of_def)

lemma length_suffix_of [simp]: "length (suffix_of n xs) = min n (length xs)"
  by (simp add: suffix_of_def)

lemma suffix_of_append_suffix: "suffix_of n (suffix_of n xs @ ys) = suffix_of n (xs @ ys)"
proof (cases "n \<le> length xs")
  case True
  then have "xs = take (length xs - n) xs @ suffix_of n xs" by (simp add: suffix_of_def)
  then have "suffix_of n (xs @ ys) = suffix_of n (take (length xs - n) xs @ (suffix_of n xs @ ys))"
    by (metis append_assoc)
  also have "\<dots> = suffix_of n (suffix_of n xs @ ys)" using True by (simp add: suffix_of_append_long)
  finally show ?thesis by simp
qed (simp add: suffix_of_def)

lemma push_to_tail_spec:
  assumes "length (buffer_tail b) \<le> tail_budget b" and "omitted b = min usize_max k"
  shows "push_to_tail chunk b =
    b\<lparr>buffer_tail := suffix_of (tail_budget b) (buffer_tail b @ chunk),
      omitted := min usize_max (k + (length (buffer_tail b) + length chunk - tail_budget b))\<rparr>"
proof -
  consider "chunk = []" | "chunk \<noteq> []" "tail_budget b = 0" | "chunk \<noteq> []" "0 < tail_budget b" "tail_budget b \<le> length chunk"
    | "chunk \<noteq> []" "0 < tail_budget b" "length chunk < tail_budget b"
    by linarith
  then show ?thesis
  proof cases
    case 1
    then show ?thesis using assms by (simp add: push_to_tail_def suffix_of_def)
  next
    case 2
    then show ?thesis using assms by (simp add: push_to_tail_def suffix_of_def saturating_add_def)
  next
    case 3
    then show ?thesis
      using assms
      by (simp add: push_to_tail_def Let_def saturating_add_def suffix_of_append_long) (simp add: suffix_of_def)
  next
    case 4
    then show ?thesis
      using assms by (simp add: push_to_tail_def trim_tail_to_budget_def Let_def saturating_add_def suffix_of_def)
  qed
qed

lemma omitted_count:
  fixes h m n c :: nat
  assumes "h \<le> m"
  shows "(n - m) + (min (m - h) (n - h) + (c - min (h - n) c) - (m - h)) = n + c - m"
proof (cases "n \<le> h")
  case True
  then show ?thesis using assms by (cases "h - n \<le> c") simp_all
next
  case False
  then show ?thesis using assms by (cases "n \<le> m") simp_all
qed

lemma push_chunk_buffer_of: "push_chunk chunk (buffer_of m out) = buffer_of m (out @ chunk)"
proof -
  consider "chunk = []" | "chunk \<noteq> []" "m = 0" | "chunk \<noteq> []" "0 < m" by blast
  then show ?thesis
  proof cases
    case 2
    then show ?thesis
      by (simp add: push_chunk_def buffer_of_def saturating_add_def suffix_of_def)
  next
    case 3
    let ?hb = "m div 2" and ?tb = "m - m div 2"
    let ?n = "min (?hb - length out) (length chunk)"
    have n: "min (?hb - length (take ?hb out)) (length chunk) = ?n"
      by (cases "length out \<le> ?hb") simp_all
    have head: "take ?hb out @ take ?n chunk = take ?hb (out @ chunk)" by (simp add: min_def)
    have tail: "drop ?hb out @ drop ?n chunk = drop ?hb (out @ chunk)" by (simp add: min_def)
    let ?b = "(buffer_of m out)\<lparr>buffer_head := take ?hb (out @ chunk)\<rparr>"
    have "push_chunk chunk (buffer_of m out) = push_to_tail (drop ?n chunk) ?b"
    proof -
      have fields: "max_bytes (buffer_of m out) = m" "head_budget (buffer_of m out) = ?hb"
        "buffer_head (buffer_of m out) = take ?hb out"
        by (simp_all add: buffer_of_def)
      have "(if 0 < ?n then (buffer_of m out)\<lparr>buffer_head := take ?hb out @ take ?n chunk\<rparr> else buffer_of m out) = ?b"
      proof (cases "0 < ?n")
        case False
        then have "take ?hb (out @ chunk) = buffer_head (buffer_of m out)" using head fields(3) by (metis append_Nil2 gr0I take0)
        then have "?b = (buffer_of m out)\<lparr>buffer_head := buffer_head (buffer_of m out)\<rparr>" by (simp only:)
        also have "\<dots> = buffer_of m out" by simp
        finally show ?thesis using False by (simp only: if_False)
      qed (simp only: head if_True)
      then show ?thesis using 3 unfolding push_chunk_def Let_def fields n by simp
    qed
    also have "\<dots> = ?b\<lparr>buffer_tail := suffix_of ?tb (suffix_of ?tb (drop ?hb out) @ drop ?n chunk),
        omitted := min usize_max ((length out - m) + (length (suffix_of ?tb (drop ?hb out)) + length (drop ?n chunk) - ?tb))\<rparr>"
      by (subst push_to_tail_spec [where k = "length out - m"]) (simp_all add: buffer_of_def)
    also have "\<dots> = buffer_of m (out @ chunk)"
    proof -
      have cnt: "(length out - m) + (length (suffix_of ?tb (drop ?hb out)) + length (drop ?n chunk) - ?tb) =
          length out + length chunk - m"
        unfolding length_suffix_of length_drop by (rule omitted_count) simp
      show ?thesis unfolding cnt suffix_of_append_suffix tail by (simp add: buffer_of_def)
    qed
    finally show ?thesis .
  qed (simp add: push_chunk_def)
qed

lemma buffer_new_of: "buffer_new m = buffer_of m []"
  by (simp add: buffer_new_def buffer_of_def suffix_of_def Let_def)

text \<open>
  C16. Whatever chunks the output arrives in, the buffer holds exactly the first half of its capacity of
  bytes and the last bytes that fit in the other half, it counts the rest as omitted (saturating at
  the width of the counter), and it never retains more than its capacity.
\<close>

theorem buffer_keeps_head_and_tail:
  "fold push_chunk chunks (buffer_new m) = buffer_of m (concat chunks) \<and>
   length (to_bytes (fold push_chunk chunks (buffer_new m))) = min m (length (concat chunks)) \<and>
   (length (concat chunks) \<le> usize_max \<longrightarrow>
      total_bytes (fold push_chunk chunks (buffer_new m)) = length (concat chunks)) \<and>
   (length (concat chunks) \<le> m \<longrightarrow>
      to_bytes_with_omission_marker (fold push_chunk chunks (buffer_new m)) = concat chunks)"
proof -
  have "fold push_chunk chunks (buffer_of m out) = buffer_of m (out @ concat chunks)" for out
    by (induction chunks arbitrary: out) (simp_all add: push_chunk_buffer_of)
  from this [of "[]"] have eq: "fold push_chunk chunks (buffer_new m) = buffer_of m (concat chunks)"
    by (simp add: buffer_new_of)
  let ?out = "concat chunks"
  have len: "length (to_bytes (buffer_of m ?out)) = min m (length ?out)"
  proof -
    have split: "min n h + min (m - h) (n - h) = min m n" if "h \<le> m" for n h using that by arith
    show ?thesis using split [of "m div 2"] by (simp add: to_bytes_def buffer_of_def min.commute)
  qed
  moreover have "total_bytes (buffer_of m ?out) = length ?out" if "length ?out \<le> usize_max"
  proof -
    have "min usize_max (min m n + (n - m)) = n" if "n \<le> usize_max" for n
      using that by (cases "m \<le> n") simp_all
    with that len show ?thesis
      by (simp add: total_bytes_def retained_bytes_def saturating_add_def to_bytes_def buffer_of_def)
  qed
  moreover have "to_bytes_with_omission_marker (buffer_of m ?out) = ?out" if "length ?out \<le> m"
    using that by (simp add: to_bytes_with_omission_marker_def to_bytes_def buffer_of_def suffix_of_def)
  ultimately show ?thesis unfolding eq by blast
qed

theorem buffer_keeps_head_and_tail_witness:
  "to_bytes (fold push_chunk [[1, 2], [3], [4, 5, 6]] (buffer_new 4)) = [1, 2, 5, 6] \<and>
   total_bytes (fold push_chunk [[1, 2], [3], [4, 5, 6]] (buffer_new 4)) = 6"
proof -
  let ?chunks = "[[1, 2], [3], [4, 5, 6 :: 8 word]]"
  have "length (concat ?chunks) \<le> usize_max" by (simp add: usize_max_def)
  with buffer_keeps_head_and_tail [of ?chunks 4]
  have "fold push_chunk ?chunks (buffer_new 4) = buffer_of 4 (concat ?chunks)"
    and "total_bytes (fold push_chunk ?chunks (buffer_new 4)) = length (concat ?chunks)"
    by blast+
  moreover have "to_bytes (buffer_of 4 (concat ?chunks)) = [1, 2, 5, 6]"
    by (simp add: to_bytes_def buffer_of_def suffix_of_def)
  ultimately show ?thesis by (simp del: fold.simps)
qed

end
