(* ===== verification/String_Utils.thy ===== *)
theory String_Utils
  imports Rust_Prelude "HOL-Library.Monad_Syntax"
begin

text \<open>
  \<^verbatim>\<open>codex-rs/utils/string/src\<close>: cutting the middle out of a long text on character boundaries
  (\<^verbatim>\<open>truncate.rs\<close>) and the small string helpers of \<^verbatim>\<open>lib.rs\<close>.

  Offsets are byte offsets, as in the code. Slicing a string panics when an offset is not a
  character boundary; a function that slices returns an option, and \<open>split_string_spec\<close> shows that
  the offsets the loop computes never panic.
\<close>

section \<open>Truncation\<close>

definition APPROX_BYTES_PER_TOKEN :: nat where
  "APPROX_BYTES_PER_TOKEN = 4"

definition approx_token_count :: "rstring \<Rightarrow> nat" where
  "approx_token_count text =
     saturating_add (utf8_len text) (APPROX_BYTES_PER_TOKEN - 1) div APPROX_BYTES_PER_TOKEN"

definition approx_bytes_for_tokens :: "nat \<Rightarrow> nat" where
  "approx_bytes_for_tokens tokens = saturating_mul tokens APPROX_BYTES_PER_TOKEN"

definition approx_tokens_from_byte_count :: "nat \<Rightarrow> nat" where
  "approx_tokens_from_byte_count bytes =
     saturating_add bytes (APPROX_BYTES_PER_TOKEN - 1) div APPROX_BYTES_PER_TOKEN"

record split_state =
  prefix_end :: nat
  suffix_start :: nat
  removed_chars :: nat
  suffix_started :: bool

fun split_loop :: "nat \<Rightarrow> nat \<Rightarrow> nat \<Rightarrow> rstring \<Rightarrow> split_state \<Rightarrow> split_state" where
  "split_loop beginning_bytes tail_start_target idx [] st = st"
| "split_loop beginning_bytes tail_start_target idx (ch # s) st =
     (let char_end = idx + len_utf8 ch;
          st' = (if char_end \<le> beginning_bytes then st\<lparr>prefix_end := char_end\<rparr>
                 else if tail_start_target \<le> idx then
                   (if \<not> suffix_started st then st\<lparr>suffix_start := idx, suffix_started := True\<rparr> else st)
                 else st\<lparr>removed_chars := saturating_add (removed_chars st) 1\<rparr>)
      in split_loop beginning_bytes tail_start_target char_end s st')"

definition split_string :: "rstring \<Rightarrow> nat \<Rightarrow> nat \<Rightarrow> (nat \<times> rstring \<times> rstring) option" where
  "split_string s beginning_bytes end_bytes =
     (if s = [] then Some (0, [], [])
      else
        (let len = utf8_len s;
             st = split_loop beginning_bytes (len - end_bytes) 0 s
                    \<lparr>prefix_end = 0, suffix_start = len, removed_chars = 0, suffix_started = False\<rparr>;
             start = (if suffix_start st < prefix_end st then prefix_end st else suffix_start st)
         in do {
           (before, _) \<leftarrow> byte_split (prefix_end st) s;
           (_, after) \<leftarrow> byte_split start s;
           Some (removed_chars st, before, after)
         }))"

definition split_budget :: "nat \<Rightarrow> nat \<times> nat" where
  "split_budget budget = (let left = budget div 2 in (left, budget - left))"

text \<open>The marker is delimited by horizontal ellipses (U+2026).\<close>

definition format_truncation_marker :: "bool \<Rightarrow> nat \<Rightarrow> rstring" where
  "format_truncation_marker use_tokens removed_count =
     (if use_tokens then [8230] @ show_nat removed_count @ lit '' tokens truncated'' @ [8230]
      else [8230] @ show_nat removed_count @ lit '' chars truncated'' @ [8230])"

definition removed_units :: "bool \<Rightarrow> nat \<Rightarrow> nat \<Rightarrow> nat" where
  "removed_units use_tokens removed_bytes removed =
     (if use_tokens then approx_tokens_from_byte_count removed_bytes else removed)"

definition assemble_truncated_output :: "rstring \<Rightarrow> rstring \<Rightarrow> rstring \<Rightarrow> rstring" where
  "assemble_truncated_output before after marker = before @ marker @ after"

definition truncate_with_byte_estimate :: "rstring \<Rightarrow> nat \<Rightarrow> bool \<Rightarrow> rstring option" where
  "truncate_with_byte_estimate s max_bytes use_tokens =
     (if s = [] then Some []
      else if max_bytes = 0 then
        Some (format_truncation_marker use_tokens (removed_units use_tokens (utf8_len s) (length s)))
      else if utf8_len s \<le> max_bytes then Some s
      else
        (let (left_budget, right_budget) = split_budget max_bytes in
         do {
           (removed, left, right) \<leftarrow> split_string s left_budget right_budget;
           let marker = format_truncation_marker use_tokens
                          (removed_units use_tokens (utf8_len s - max_bytes) removed);
           Some (assemble_truncated_output left right marker)
         }))"

definition truncate_middle_chars :: "rstring \<Rightarrow> nat \<Rightarrow> rstring option" where
  "truncate_middle_chars s max_bytes = truncate_with_byte_estimate s max_bytes False"

definition truncate_middle_with_token_budget :: "rstring \<Rightarrow> nat \<Rightarrow> (rstring \<times> nat option) option" where
  "truncate_middle_with_token_budget s max_tokens =
     (if s = [] then Some ([], None)
      else if 0 < max_tokens \<and> utf8_len s \<le> approx_bytes_for_tokens max_tokens then Some (s, None)
      else do {
        truncated \<leftarrow> truncate_with_byte_estimate s (approx_bytes_for_tokens max_tokens) True;
        let total_tokens = approx_token_count s;
        Some (if truncated = s then (truncated, None) else (truncated, Some total_tokens))
      })"


section \<open>Other helpers\<close>

fun boundary_loop :: "nat \<Rightarrow> nat \<Rightarrow> rstring \<Rightarrow> nat \<Rightarrow> nat" where
  "boundary_loop maxb i [] last_ok = last_ok"
| "boundary_loop maxb i (ch # s) last_ok =
     (let nb = i + len_utf8 ch in if maxb < nb then last_ok else boundary_loop maxb nb s nb)"

definition take_bytes_at_char_boundary :: "rstring \<Rightarrow> nat \<Rightarrow> rstring option" where
  "take_bytes_at_char_boundary s maxb =
     (if utf8_len s \<le> maxb then Some s else map_option fst (byte_split (boundary_loop maxb 0 s 0) s))"

definition is_ascii_alphanumeric :: "rchar \<Rightarrow> bool" where
  "is_ascii_alphanumeric c \<longleftrightarrow>
     48 \<le> c \<and> c \<le> 57 \<or> 65 \<le> c \<and> c \<le> 90 \<or> 97 \<le> c \<and> c \<le> 122"

definition is_tag_char :: "rchar \<Rightarrow> bool" where
  "is_tag_char c \<longleftrightarrow> is_ascii_alphanumeric c \<or> c \<in> set (lit ''._-/'')"

definition trim_matches :: "rchar \<Rightarrow> rstring \<Rightarrow> rstring" where
  "trim_matches c s = trim_end_matches c (dropWhile (\<lambda>x. x = c) s)"

definition sanitize_metric_tag_value :: "rstring \<Rightarrow> rstring option" where
  "sanitize_metric_tag_value v =
     (let sanitized = map (\<lambda>ch. if is_tag_char ch then ch else 95) v;
          trimmed = trim_matches 95 sanitized
      in if trimmed = [] \<or> list_all (\<lambda>ch. \<not> is_ascii_alphanumeric ch) trimmed then Some (lit ''unspecified'')
         else if utf8_len trimmed \<le> 256 then Some trimmed
         else map_option fst (byte_split 256 trimmed))"

definition parse_markdown_hash_location_point :: "rstring \<Rightarrow> (rstring \<times> rstring option) option" where
  "parse_markdown_hash_location_point point =
     do {
       point \<leftarrow> strip_prefix (lit ''L'') point;
       case split_once 67 point of
         Some (line, column) \<Rightarrow> Some (line, Some column)
       | None \<Rightarrow> Some (point, None)
     }"

definition push_location :: "rstring \<times> rstring option \<Rightarrow> rstring" where
  "push_location p = fst p @ (case snd p of Some column \<Rightarrow> lit '':'' @ column | None \<Rightarrow> [])"

definition normalize_markdown_hash_location_suffix :: "rstring \<Rightarrow> rstring option" where
  "normalize_markdown_hash_location_suffix sfx =
     do {
       fragment \<leftarrow> strip_prefix (lit ''#'') sfx;
       let (start, end_point) =
         (case split_once 45 fragment of Some (a, b) \<Rightarrow> (a, Some b) | None \<Rightarrow> (fragment, None));
       start_point \<leftarrow> parse_markdown_hash_location_point start;
       let normalized = lit '':'' @ push_location start_point;
       case end_point of
         None \<Rightarrow> Some normalized
       | Some e \<Rightarrow>
           do { p \<leftarrow> parse_markdown_hash_location_point e; Some (normalized @ lit ''-'' @ push_location p) }
     }"


section \<open>What the loops compute\<close>

text \<open>The longest prefix within a budget of bytes, and the characters that begin before an offset.\<close>

fun bytes_prefix :: "nat \<Rightarrow> rstring \<Rightarrow> rstring" where
  "bytes_prefix b [] = []"
| "bytes_prefix b (c # s) = (if len_utf8 c \<le> b then c # bytes_prefix (b - len_utf8 c) s else [])"

fun starting_before :: "nat \<Rightarrow> rstring \<Rightarrow> rstring" where
  "starting_before t [] = []"
| "starting_before t (c # s) = (if 0 < t then c # starting_before (t - len_utf8 c) s else [])"

lemma bytes_prefix_split:
  obtains r where "s = bytes_prefix b s @ r" "utf8_len (bytes_prefix b s) \<le> b"
    "r \<noteq> [] \<longrightarrow> b < utf8_len (bytes_prefix b s) + len_utf8 (hd r)"
proof -
  have "\<exists>r. s = bytes_prefix b s @ r \<and> utf8_len (bytes_prefix b s) \<le> b \<and>
      (r \<noteq> [] \<longrightarrow> b < utf8_len (bytes_prefix b s) + len_utf8 (hd r))"
  proof (induction b s rule: bytes_prefix.induct)
    case (2 b c s)
    show ?case
    proof (cases "len_utf8 c \<le> b")
      case True
      from 2 [OF True] obtain r where "s = bytes_prefix (b - len_utf8 c) s @ r"
        "utf8_len (bytes_prefix (b - len_utf8 c) s) \<le> b - len_utf8 c"
        "r \<noteq> [] \<longrightarrow> b - len_utf8 c < utf8_len (bytes_prefix (b - len_utf8 c) s) + len_utf8 (hd r)"
        by blast
      with True show ?thesis by (intro exI [of _ r]) auto
    qed (intro exI [of _ "c # s"], auto)
  qed simp
  then show thesis using that by blast
qed

lemma starting_before_split:
  obtains r where "s = starting_before t s @ r" "r \<noteq> [] \<longrightarrow> t \<le> utf8_len (starting_before t s)"
    "starting_before t s \<noteq> [] \<longrightarrow>
     utf8_len (starting_before t s) < t + len_utf8 (last (starting_before t s))"
proof -
  have "\<exists>r. s = starting_before t s @ r \<and> (r \<noteq> [] \<longrightarrow> t \<le> utf8_len (starting_before t s)) \<and>
      (starting_before t s \<noteq> [] \<longrightarrow>
       utf8_len (starting_before t s) < t + len_utf8 (last (starting_before t s)))"
  proof (induction t s rule: starting_before.induct)
    case (2 t c s)
    show ?case
    proof (cases "0 < t")
      case True
      from 2 [OF True] obtain r where r: "s = starting_before (t - len_utf8 c) s @ r"
        "r \<noteq> [] \<longrightarrow> t - len_utf8 c \<le> utf8_len (starting_before (t - len_utf8 c) s)"
        "starting_before (t - len_utf8 c) s \<noteq> [] \<longrightarrow> utf8_len (starting_before (t - len_utf8 c) s)
           < t - len_utf8 c + len_utf8 (last (starting_before (t - len_utf8 c) s))"
        by blast
      have "starting_before (t - len_utf8 c) s \<noteq> [] \<Longrightarrow> len_utf8 c < t"
        by (cases s) (auto split: if_splits)
      with True r show ?thesis by (intro exI [of _ r]) auto
    qed (intro exI [of _ "c # s"], auto)
  qed simp
  then show thesis using that by blast
qed

lemma split_loop_before:
  "idx + utf8_len before \<le> b \<Longrightarrow>
   split_loop b t idx (before @ r) st =
   split_loop b t (idx + utf8_len before) r
     (if before = [] then st else st\<lparr>prefix_end := idx + utf8_len before\<rparr>)"
proof (induction before arbitrary: idx st)
  case (Cons c before)
  from Cons.prems have "split_loop b t idx ((c # before) @ r) st =
    split_loop b t (idx + len_utf8 c) (before @ r) (st\<lparr>prefix_end := idx + len_utf8 c\<rparr>)"
    by (simp add: Let_def)
  also have "\<dots> = split_loop b t (idx + len_utf8 c + utf8_len before) r
     (if before = [] then st\<lparr>prefix_end := idx + len_utf8 c\<rparr>
      else st\<lparr>prefix_end := idx + len_utf8 c\<rparr>\<lparr>prefix_end := idx + len_utf8 c + utf8_len before\<rparr>)"
    using Cons.prems by (intro Cons.IH) simp
  finally show ?case by (simp add: add.assoc)
qed simp

lemma split_loop_middle:
  "(middle \<noteq> [] \<Longrightarrow> b < idx + len_utf8 (hd middle)) \<Longrightarrow> starting_before (t - idx) (middle @ r) = middle \<Longrightarrow>
   removed_chars st \<le> usize_max \<Longrightarrow>
   split_loop b t idx (middle @ r) st =
   split_loop b t (idx + utf8_len middle) r
     (st\<lparr>removed_chars := min usize_max (removed_chars st + length middle)\<rparr>)"
proof (induction middle arbitrary: idx st)
  case (Cons c middle)
  let ?st = "st\<lparr>removed_chars := saturating_add (removed_chars st) 1\<rparr>"
  from Cons.prems have t: "idx < t" and rest: "starting_before (t - (idx + len_utf8 c)) (middle @ r) = middle"
    by (auto split: if_splits)
  from Cons.prems t have "split_loop b t idx ((c # middle) @ r) st = split_loop b t (idx + len_utf8 c) (middle @ r) ?st"
    by (simp add: Let_def)
  also have "\<dots> = split_loop b t (idx + len_utf8 c + utf8_len middle) r
      (?st\<lparr>removed_chars := min usize_max (removed_chars ?st + length middle)\<rparr>)"
    using Cons.prems by (intro Cons.IH rest) (auto simp: saturating_add_def intro: trans_less_add1)
  also have "min usize_max (removed_chars ?st + length middle) = min usize_max (removed_chars st + length (c # middle))"
    by (simp add: saturating_add_def)
  finally show ?case by (simp add: add.assoc)
qed simp

lemma split_loop_after:
  "(r \<noteq> [] \<Longrightarrow> b < idx + len_utf8 (hd r)) \<Longrightarrow> (r \<noteq> [] \<Longrightarrow> t \<le> idx) \<Longrightarrow>
   split_loop b t idx r st =
     (if r = [] \<or> suffix_started st then st else st\<lparr>suffix_start := idx, suffix_started := True\<rparr>)"
proof (induction r arbitrary: idx st)
  case (Cons c r)
  have "split_loop b t (idx + len_utf8 c) r st' =
      (if r = [] \<or> suffix_started st' then st' else st'\<lparr>suffix_start := idx + len_utf8 c, suffix_started := True\<rparr>)" for st'
    using Cons.prems by (intro Cons.IH) (auto intro: trans_less_add1)
  with Cons.prems show ?case by (simp add: Let_def)
qed simp

text \<open>
  A text cut in three: the outer parts fit their budgets of bytes, and no character of the part
  between them could be added to either.
\<close>

definition ends_kept :: "rstring \<Rightarrow> nat \<Rightarrow> nat \<Rightarrow> rstring \<Rightarrow> rstring \<Rightarrow> rstring \<Rightarrow> bool" where
  "ends_kept s b e before middle after \<longleftrightarrow>
     s = before @ middle @ after \<and> utf8_len before \<le> b \<and> utf8_len after \<le> e \<and>
     (middle = [] \<or>
      b < utf8_len before + len_utf8 (hd middle) \<and> e < utf8_len after + len_utf8 (last middle))"

lemma ends_kept_exists:
  obtains before middle after where "ends_kept s b e before middle after" "before = bytes_prefix b s"
    "starting_before (utf8_len s - e - utf8_len before) (middle @ after) = middle"
    "middle @ after \<noteq> [] \<longrightarrow> b < utf8_len before + len_utf8 (hd (middle @ after))"
    "after \<noteq> [] \<longrightarrow> utf8_len s - e \<le> utf8_len before + utf8_len middle"
proof -
  obtain r where r: "s = bytes_prefix b s @ r" "utf8_len (bytes_prefix b s) \<le> b"
    "r \<noteq> [] \<longrightarrow> b < utf8_len (bytes_prefix b s) + len_utf8 (hd r)"
    by (rule bytes_prefix_split [of s b])
  define before where "before = bytes_prefix b s"
  define t where "t = utf8_len s - e - utf8_len before"
  obtain after where a: "r = starting_before t r @ after" "after \<noteq> [] \<longrightarrow> t \<le> utf8_len (starting_before t r)"
    "starting_before t r \<noteq> [] \<longrightarrow> utf8_len (starting_before t r) < t + len_utf8 (last (starting_before t r))"
    by (rule starting_before_split [of r t])
  define middle where "middle = starting_before t r"
  have s: "s = before @ middle @ after" using r(1) a(1) by (simp add: before_def middle_def)
  then have len: "utf8_len s = utf8_len before + utf8_len middle + utf8_len after" by simp
  have after: "after \<noteq> [] \<Longrightarrow> utf8_len s - e \<le> utf8_len before + utf8_len middle"
    using a(2) unfolding middle_def [symmetric] by (simp add: t_def)
  then have "utf8_len after \<le> e" using len by (cases "after = []") simp_all
  moreover have "middle \<noteq> [] \<Longrightarrow> e < utf8_len after + len_utf8 (last middle)"
  proof -
    assume ne: "middle \<noteq> []"
    then have "0 < t" unfolding middle_def by (cases r) (auto split: if_splits)
    moreover have "utf8_len middle < t + len_utf8 (last middle)"
      using a(3) ne unfolding middle_def by blast
    ultimately show ?thesis using len by (simp add: t_def)
  qed
  moreover have "middle \<noteq> [] \<Longrightarrow> b < utf8_len before + len_utf8 (hd middle)"
    using r(3) a(1) unfolding before_def middle_def by (metis append_is_Nil_conv hd_append2)
  ultimately have "ends_kept s b e before middle after"
    using s r(2) unfolding ends_kept_def before_def [symmetric] by blast
  moreover have "middle @ after = r" using a(1) unfolding middle_def by (rule sym)
  moreover from this have "starting_before t (middle @ after) = middle" by (simp add: middle_def)
  ultimately show thesis
    using that [of before middle after] r(3) after unfolding t_def before_def by blast
qed

lemma split_string_spec:
  "\<exists>before middle after. split_string s b e = Some (min usize_max (length middle), before, after) \<and>
     ends_kept s b e before middle after"
proof (cases "s = []")
  case True
  then show ?thesis by (simp add: split_string_def ends_kept_def)
next
  case False
  obtain before middle after where ek: "ends_kept s b e before middle after" and b: "before = bytes_prefix b s"
    and m: "starting_before (utf8_len s - e - utf8_len before) (middle @ after) = middle"
    and h: "middle @ after \<noteq> [] \<longrightarrow> b < utf8_len before + len_utf8 (hd (middle @ after))"
    and a: "after \<noteq> [] \<longrightarrow> utf8_len s - e \<le> utf8_len before + utf8_len middle"
    by (rule ends_kept_exists [of s b e])
  define t where "t = utf8_len s - e"
  define st where "st = \<lparr>prefix_end = 0, suffix_start = utf8_len s, removed_chars = 0, suffix_started = False\<rparr>"
  have s: "s = before @ middle @ after" and le: "utf8_len before \<le> b" using ek by (simp_all add: ends_kept_def)
  have h': "middle \<noteq> [] \<Longrightarrow> b < utf8_len before + len_utf8 (hd middle)" using h by simp
  have h'': "after \<noteq> [] \<Longrightarrow> b < utf8_len before + utf8_len middle + len_utf8 (hd after)"
    using h by (cases "middle = []") (auto simp: neq_Nil_conv)
  have 1: "split_loop b t 0 s st = split_loop b t (utf8_len before) (middle @ after)
      (if before = [] then st else st\<lparr>prefix_end := utf8_len before\<rparr>)"
    using split_loop_before [of 0 before b t "middle @ after" st] le s by simp
  let ?st1 = "if before = [] then st else st\<lparr>prefix_end := utf8_len before\<rparr>"
  have r0: "removed_chars ?st1 = 0" "suffix_started ?st1 = False" by (simp_all add: st_def)
  have 2: "split_loop b t (utf8_len before) (middle @ after) ?st1 =
      split_loop b t (utf8_len before + utf8_len middle) after
        (?st1\<lparr>removed_chars := min usize_max (length middle)\<rparr>)"
    using split_loop_middle [of middle b "utf8_len before" t after ?st1] h' m r0 by (simp add: t_def)
  have 3: "split_loop b t (utf8_len before + utf8_len middle) after (?st1\<lparr>removed_chars := min usize_max (length middle)\<rparr>) =
      (if after = [] then ?st1\<lparr>removed_chars := min usize_max (length middle)\<rparr>
       else ?st1\<lparr>removed_chars := min usize_max (length middle)\<rparr>
              \<lparr>suffix_start := utf8_len before + utf8_len middle, suffix_started := True\<rparr>)"
    using split_loop_after [of after b "utf8_len before + utf8_len middle" t] h'' a r0 by (simp add: t_def)
  define fin where "fin = split_loop b t 0 s st"
  have fin: "prefix_end fin = utf8_len before" "suffix_start fin = utf8_len before + utf8_len middle"
    "removed_chars fin = min usize_max (length middle)"
    unfolding fin_def 1 2 3 by (simp_all add: st_def s)
  have "byte_split (utf8_len before) s = Some (before, middle @ after)"
    "byte_split (utf8_len before + utf8_len middle) s = Some (before @ middle, after)"
    using byte_split_append [of before "middle @ after"] byte_split_append [of "before @ middle" after] s by simp_all
  with False have "split_string s b e = Some (min usize_max (length middle), before, after)"
    by (simp add: split_string_def fin fin_def [symmetric] st_def [symmetric] t_def [symmetric])
  with ek show ?thesis by blast
qed

lemma take_bytes_at_char_boundary_prefix: "take_bytes_at_char_boundary s n = Some (bytes_prefix n s)"
proof -
  have loop: "boundary_loop n i s k = (if bytes_prefix (n - i) s = [] then k else i + utf8_len (bytes_prefix (n - i) s))"
    if "i \<le> n" for i k s
    using that
  proof (induction s arbitrary: i k)
    case (Cons c s)
    show ?case
    proof (cases "i + len_utf8 c \<le> n")
      case True
      with Cons.IH [of "i + len_utf8 c" "i + len_utf8 c"] show ?thesis by (auto simp: Let_def)
    qed (use Cons.prems in \<open>auto simp: Let_def\<close>)
  qed simp
  have full: "utf8_len s \<le> n \<Longrightarrow> bytes_prefix n s = s" for n s
    by (induction n s rule: bytes_prefix.induct) auto
  obtain r where "s = bytes_prefix n s @ r" by (rule bytes_prefix_split [of s n])
  then have "byte_split (utf8_len (bytes_prefix n s)) s = Some (bytes_prefix n s, r)"
    by (metis byte_split_append)
  then show ?thesis
    using loop [of 0 s 0] by (auto simp: take_bytes_at_char_boundary_def full)
qed

section \<open>Properties\<close>

lemma length_le_usize_max: "utf8_len s \<le> usize_max \<Longrightarrow> s = a @ m @ z \<Longrightarrow> length m \<le> usize_max"
  using length_le_utf8_len [of m] by simp

lemma truncate_with_byte_estimate_spec:
  assumes "utf8_len s \<le> usize_max"
  shows "\<exists>out. truncate_with_byte_estimate s m use_tokens = Some out \<and>
    (if utf8_len s \<le> m then out = s
     else \<exists>before middle after. ends_kept s (m div 2) (m - m div 2) before middle after \<and> middle \<noteq> [] \<and>
       out = before @ format_truncation_marker use_tokens
               (removed_units use_tokens (utf8_len s - m) (length middle)) @ after)"
proof -
  consider "s = []" | "s \<noteq> []" "m = 0" | "s \<noteq> []" "0 < m" "utf8_len s \<le> m" | "m < utf8_len s" "0 < m"
    by linarith
  then show ?thesis
  proof cases
    case 2
    then have "ends_kept s 0 0 [] s []" by (simp add: ends_kept_def)
    with 2 have "\<exists>before middle after. ends_kept s (m div 2) (m - m div 2) before middle after \<and> middle \<noteq> [] \<and>
        format_truncation_marker use_tokens (removed_units use_tokens (utf8_len s) (length s)) =
        before @ format_truncation_marker use_tokens (removed_units use_tokens (utf8_len s - m) (length middle)) @ after"
      by (intro exI [of _ "[]"] exI [of _ s]) simp
    with 2 show ?thesis by (simp add: truncate_with_byte_estimate_def)
  next
    case 4
    obtain before middle after where
      sp: "split_string s (m div 2) (m - m div 2) = Some (min usize_max (length middle), before, after)"
      and ek: "ends_kept s (m div 2) (m - m div 2) before middle after"
      using split_string_spec by blast
    then have s: "s = before @ middle @ after" and "utf8_len before \<le> m div 2" "utf8_len after \<le> m - m div 2"
      by (simp_all add: ends_kept_def)
    with 4 have "middle \<noteq> []" by auto
    moreover have "min usize_max (length middle) = length middle"
      using length_le_usize_max [OF assms s] by (rule min_absorb2)
    moreover have "s \<noteq> []" using 4 by auto
    ultimately have tw: "truncate_with_byte_estimate s m use_tokens =
        Some (before @ format_truncation_marker use_tokens (removed_units use_tokens (utf8_len s - m) (length middle)) @ after)"
      using 4 sp by (simp add: truncate_with_byte_estimate_def split_budget_def assemble_truncated_output_def Let_def)
    with 4 ek \<open>middle \<noteq> []\<close> show ?thesis by auto
  qed (simp_all add: truncate_with_byte_estimate_def)
qed

lemma truncate_with_byte_estimate_total:
  obtains out where "truncate_with_byte_estimate s m use_tokens = Some out"
    "utf8_len s \<le> m \<longrightarrow> out = s" "s \<noteq> [] \<longrightarrow> out \<noteq> []"
proof -
  have marker: "format_truncation_marker u n \<noteq> []" for u n by (simp add: format_truncation_marker_def)
  obtain r left right where "split_string s (m div 2) (m - m div 2) = Some (r, left, right)"
    using split_string_spec by blast
  with marker have "\<exists>out. truncate_with_byte_estimate s m use_tokens = Some out \<and>
      (utf8_len s \<le> m \<longrightarrow> out = s) \<and> (s \<noteq> [] \<longrightarrow> out \<noteq> [])"
    by (auto simp: truncate_with_byte_estimate_def split_budget_def assemble_truncated_output_def Let_def)
  then show thesis using that by blast
qed

text \<open>
  C32. Truncation of a text to a budget of \<open>m\<close> bytes never panics on a character boundary. A text
  within the budget is returned unchanged. Otherwise the result is the beginning of the text, a marker
  and the end of the text, where the beginning fits into half of the budget and the end into the rest,
  neither could hold one more character, at least one character is left out, and the marker states
  exactly how many characters are left out.
\<close>

theorem truncate_middle_keeps_ends:
  assumes "utf8_len s \<le> usize_max"
  shows "\<exists>out. truncate_middle_chars s m = Some out \<and>
    (if utf8_len s \<le> m then out = s
     else \<exists>before middle after. ends_kept s (m div 2) (m - m div 2) before middle after \<and> middle \<noteq> [] \<and>
       out = before @ [8230] @ show_nat (length middle) @ lit '' chars truncated'' @ [8230] @ after)"
  using truncate_with_byte_estimate_spec [OF assms, of m False]
  by (auto simp: truncate_middle_chars_def format_truncation_marker_def removed_units_def simp del: ex_simps)

theorem truncate_middle_keeps_ends_witness:
  "utf8_len (lit ''hello world'') \<le> usize_max \<and>
   (\<exists>out. truncate_middle_chars (lit ''hello world'') 10 = Some out \<and>
      (\<exists>before middle after. ends_kept (lit ''hello world'') 5 5 before middle after \<and> middle \<noteq> [] \<and>
         out = before @ [8230] @ show_nat (length middle) @ lit '' chars truncated'' @ [8230] @ after)) \<and>
   truncate_middle_chars (lit ''hello world'') 10 = Some (lit ''hello'' @ [8230] @ lit ''1 chars truncated'' @ [8230] @ lit ''world'')"
proof -
  have a: "utf8_len (lit ''hello world'') \<le> usize_max"
    by (simp add: lit_def utf8_len_def len_utf8_def usize_max_def)
  have b: "\<not> utf8_len (lit ''hello world'') \<le> 10" by code_simp
  have c: "truncate_middle_chars (lit ''hello world'') 10 =
      Some (lit ''hello'' @ [8230] @ lit ''1 chars truncated'' @ [8230] @ lit ''world'')" by code_simp
  show ?thesis using truncate_middle_keeps_ends [OF a, of 10] a b c by simp
qed

lemma sanitize_metric_tag_value_valid:
  "\<exists>out. sanitize_metric_tag_value v = Some out \<and> out \<noteq> [] \<and> length out \<le> 256 \<and> list_all is_tag_char out"
proof -
  define t where "t = trim_matches 95 (map (\<lambda>ch. if is_tag_char ch then ch else 95) v)"
  have "set t \<subseteq> set (map (\<lambda>ch. if is_tag_char ch then ch else 95) v)"
    unfolding t_def trim_matches_def trim_end_matches_def
    by (metis (no_types, lifting) set_dropWhileD set_rev subsetI)
  moreover have "is_tag_char 95" by code_simp
  ultimately have tags: "list_all is_tag_char t" by (auto simp: list_all_iff split: if_splits)
  have ascii: "is_tag_char c \<Longrightarrow> len_utf8 c = 1" for c
    by (auto simp: is_tag_char_def is_ascii_alphanumeric_def len_utf8_def lit_def)
  have len: "list_all is_tag_char s \<Longrightarrow> utf8_len s = length s" for s
    by (induction s) (auto simp: ascii)
  have "list_all is_tag_char (lit ''unspecified'')" "length (lit ''unspecified'') \<le> 256" by code_simp+
  moreover have "list_all is_tag_char (take 256 t)"
    using tags by (meson in_set_takeD list_all_iff)
  moreover from this have "256 < length t \<Longrightarrow> byte_split 256 t = Some (take 256 t, drop 256 t)"
    using byte_split_append [of "take 256 t" "drop 256 t"] len [of "take 256 t"] by simp
  ultimately show ?thesis
    using tags len [OF tags] by (auto simp: sanitize_metric_tag_value_def Let_def t_def [symmetric] not_le)
qed

end
