(* ===== verification/Response_Items.thy ===== *)
theory Response_Items
  imports String_Utils
begin

text \<open>
  The items of a conversation (\<^verbatim>\<open>codex-rs/protocol/src/models.rs\<close>) and the predicates that tell
  context fragments from instructions (\<^verbatim>\<open>codex-rs/core/src/event_mapping.rs\<close>).

  \<open>'j\<close> stands for \<^verbatim>\<open>serde_json::Value\<close>, \<open>'m\<close> for the passthrough metadata, which the modelled code
  only copies. Constructors of \<^verbatim>\<open>FunctionCallOutputContentItem\<close> and \<^verbatim>\<open>AgentMessageInputContent\<close> that
  have the names of those of \<^verbatim>\<open>ContentItem\<close> carry a prefix.
\<close>

datatype image_detail = Auto | Low | High | Original

datatype content_item =
    InputText rstring
  | InputImage rstring "image_detail option"
  | InputAudio rstring
  | OutputText rstring

datatype agent_message_input_content =
    Agent_InputText rstring
  | Agent_EncryptedContent rstring

datatype function_call_output_content_item =
    Out_InputText rstring
  | Out_InputImage rstring "image_detail option"
  | Out_InputAudio rstring
  | Out_EncryptedContent rstring

datatype function_call_output_body =
    Text_Body rstring
  | ContentItems "function_call_output_content_item list"

record function_call_output_payload =
  body :: function_call_output_body
  success :: "bool option"

datatype message_phase = Commentary | FinalAnswer

datatype local_shell_status = Completed | InProgress | Incomplete

record local_shell_exec_action =
  command :: "rstring list"
  timeout_ms :: "nat option"
  working_directory :: "rstring option"
  env :: "(rstring \<rightharpoonup> rstring) option"
  user :: "rstring option"

datatype local_shell_action = Exec local_shell_exec_action

datatype web_search_action =
    Search "rstring option" "rstring list option"
  | OpenPage "rstring option"
  | FindInPage "rstring option" "rstring option"
  | Other_Action

datatype reasoning_item_reasoning_summary = SummaryText rstring

datatype reasoning_item_content = ReasoningText rstring | Reasoning_Text rstring

text \<open>
  The fields of every variant are in the order of the declaration; the first one is the item id of
  the Responses API, the last one the passthrough metadata.
\<close>

datatype ('j, 'm) response_item =
    AdditionalTools "rstring option" rstring "'j list"
  | Message "rstring option" rstring "content_item list" "message_phase option" "'m option"
  | AgentMessage "rstring option" rstring rstring "agent_message_input_content list" "'m option"
  | Reasoning "rstring option" "reasoning_item_reasoning_summary list" "reasoning_item_content list option"
      "rstring option" "'m option"
  | LocalShellCall "rstring option" "rstring option" local_shell_status local_shell_action "'m option"
  | FunctionCall "rstring option" rstring "rstring option" rstring "rstring list option" rstring "'m option"
  | ToolSearchCall "rstring option" "rstring option" "rstring option" rstring 'j "'m option"
  | FunctionCallOutput "rstring option" rstring function_call_output_payload "'m option"
  | CustomToolCall "rstring option" "rstring option" rstring rstring "rstring option" rstring "'m option"
  | CustomToolCallOutput "rstring option" rstring "rstring option" function_call_output_payload "'m option"
  | ToolSearchOutput "rstring option" "rstring option" rstring rstring "'j list" "'m option"
  | WebSearchCall "rstring option" "rstring option" "web_search_action option" "'m option"
  | ImageGenerationCall "rstring option" rstring "rstring option" rstring "'m option"
  | Compaction "rstring option" rstring "'m option"
  | CompactionTrigger
  | ContextCompaction "rstring option" "rstring option" "'m option"
  | Other

definition from_text :: "rstring \<Rightarrow> function_call_output_payload" where
  "from_text content = \<lparr>body = Text_Body content, success = None\<rparr>"

definition from_content_items :: "function_call_output_content_item list \<Rightarrow> function_call_output_payload" where
  "from_content_items items = \<lparr>body = ContentItems items, success = None\<rparr>"

definition text_content :: "function_call_output_payload \<Rightarrow> rstring option" where
  "text_content p = (case body p of Text_Body content \<Rightarrow> Some content | ContentItems _ \<Rightarrow> None)"

definition content_items :: "function_call_output_payload \<Rightarrow> function_call_output_content_item list option" where
  "content_items p = (case body p of Text_Body _ \<Rightarrow> None | ContentItems items \<Rightarrow> Some items)"

text \<open>An update through \<^verbatim>\<open>content_items_mut\<close>.\<close>

definition map_content_items ::
  "(function_call_output_content_item list \<Rightarrow> function_call_output_content_item list) \<Rightarrow>
   function_call_output_payload \<Rightarrow> function_call_output_payload" where
  "map_content_items f p =
     (case body p of Text_Body _ \<Rightarrow> p | ContentItems items \<Rightarrow> p\<lparr>body := ContentItems (f items)\<rparr>)"

definition function_call_output_content_items_to_text ::
  "function_call_output_content_item list \<Rightarrow> rstring option" where
  "function_call_output_content_items_to_text items =
     (let text_segments = List.map_filter
            (\<lambda>item. case item of Out_InputText txt \<Rightarrow> if trim txt \<noteq> [] then Some txt else None | _ \<Rightarrow> None) items
      in if text_segments = [] then None else Some (join [newline] text_segments))"

definition to_text :: "function_call_output_body \<Rightarrow> rstring option" where
  "to_text b =
     (case b of Text_Body content \<Rightarrow> Some content
      | ContentItems items \<Rightarrow> function_call_output_content_items_to_text items)"

fun plaintext_parts :: "agent_message_input_content list \<Rightarrow> rstring list option" where
  "plaintext_parts [] = Some []"
| "plaintext_parts (Agent_InputText txt # ps) = map_option ((#) txt) (plaintext_parts ps)"
| "plaintext_parts (Agent_EncryptedContent _ # ps) = None"

definition plaintext_agent_message_content :: "agent_message_input_content list \<Rightarrow> rstring option" where
  "plaintext_agent_message_content content =
     do {
       parts \<leftarrow> plaintext_parts content;
       let txt = join [newline] parts;
       if trim txt \<noteq> [] then Some txt else None
     }"

text \<open>\<^verbatim>\<open>ResponseItemId::with_suffix\<close>.\<close>

definition with_suffix :: "rstring \<Rightarrow> rstring \<Rightarrow> rstring" where
  "with_suffix pre sfx = pre @ lit ''_'' @ sfx"

definition is_prefixed :: "rstring \<Rightarrow> bool" where
  "is_prefixed i = (case split_once 95 i of Some (pre, sfx) \<Rightarrow> pre \<noteq> [] \<and> sfx \<noteq> [] | None \<Rightarrow> False)"


section \<open>Context fragments\<close>

definition CONTEXTUAL_DEVELOPER_PREFIXES :: "rstring list" where
  "CONTEXTUAL_DEVELOPER_PREFIXES =
     [lit ''<permissions instructions>'', lit ''<model_switch>'', lit ''<apps_instructions>'',
      lit ''<collaboration_mode>'', lit ''<multi_agent_mode>'', lit ''<environments_instructions>'',
      lit ''<git_attribution>'', lit ''<plugins_instructions>'', lit ''<realtime_conversation>'',
      lit ''<skills_instructions>'', lit ''<tools>'', lit ''<personality_spec>'', lit ''<token_budget>'',
      lit ''<context_window>'', lit ''<context_window_guidance>'', lit ''<rollout_budget>'']"

definition is_contextual_dev_fragment :: "content_item \<Rightarrow> bool" where
  "is_contextual_dev_fragment item =
     (case item of
        InputText txt \<Rightarrow>
          (let trimmed = trim_start txt in
           list_ex (\<lambda>pre. case byte_split (utf8_len pre) trimmed of
                            Some (candidate, _) \<Rightarrow> eq_ignore_ascii_case candidate pre
                          | None \<Rightarrow> False) CONTEXTUAL_DEVELOPER_PREFIXES)
      | _ \<Rightarrow> False)"

definition is_contextual_dev_message_content :: "content_item list \<Rightarrow> bool" where
  "is_contextual_dev_message_content message = list_ex is_contextual_dev_fragment message"

definition has_non_contextual_dev_message_content :: "content_item list \<Rightarrow> bool" where
  "has_non_contextual_dev_message_content message =
     list_ex (\<lambda>content_item. \<not> is_contextual_dev_fragment content_item) message"

text \<open>
  \<open>hook_prompt\<close> says whether the XML parser reads a text as a hook prompt with a run id, \<open>standard\<close>
  whether a registered context fragment matches it.
\<close>

definition is_contextual_user_fragment :: "(rstring \<Rightarrow> bool) \<Rightarrow> (rstring \<Rightarrow> bool) \<Rightarrow> content_item \<Rightarrow> bool" where
  "is_contextual_user_fragment hook_prompt standard item =
     (case item of InputText txt \<Rightarrow> hook_prompt txt \<or> standard txt | _ \<Rightarrow> False)"

definition is_contextual_user_message_content ::
  "(rstring \<Rightarrow> bool) \<Rightarrow> (rstring \<Rightarrow> bool) \<Rightarrow> content_item list \<Rightarrow> bool" where
  "is_contextual_user_message_content hook_prompt standard message =
     list_ex (is_contextual_user_fragment hook_prompt standard) message"

end
