(* ===== verification/Normalize.thy ===== *)
theory Normalize
  imports Response_Items
begin

text \<open>
  \<^verbatim>\<open>codex-rs/core/src/context_manager/normalize.rs\<close>: every call in the prompt has an output, every
  output has a call, and content the model cannot read is replaced.

  \<open>debug\<close> is \<^verbatim>\<open>cfg!(debug_assertions)\<close>: a broken history panics (\<open>None\<close>) in a debug build and is
  logged and repaired in a release build. \<open>uuid\<close> gives the text of the version 5 UUID of a name in the
  namespace of synthetic outputs; it is code of the \<^verbatim>\<open>uuid\<close> crate.
\<close>

section \<open>The passes\<close>

text \<open>\<^verbatim>\<open>error_or_panic\<close> of \<^verbatim>\<open>util.rs\<close>, followed by what the caller goes on with.\<close>

definition error_or_panic :: "bool \<Rightarrow> 'a \<Rightarrow> 'a option" where
  "error_or_panic debug x = (if debug then None else Some x)"

definition synthetic_output_id :: "(rstring \<Rightarrow> rstring) \<Rightarrow> rstring \<Rightarrow> rstring option \<Rightarrow> rstring option" where
  "synthetic_output_id uuid pre item_id =
     (case item_id of
        None \<Rightarrow> None
      | Some source_id \<Rightarrow>
          if source_id = [] then None
          else (let name = pre @ lit '':'' @ source_id in Some (with_suffix pre (uuid name))))"

fun function_output_id :: "('j, 'm) response_item \<Rightarrow> rstring option" where
  "function_output_id (FunctionCallOutput _ call_id _ _) = Some call_id"
| "function_output_id _ = None"

fun tool_search_output_id :: "('j, 'm) response_item \<Rightarrow> rstring option" where
  "tool_search_output_id (ToolSearchOutput _ call_id _ _ _ _) = call_id"
| "tool_search_output_id _ = None"

fun custom_tool_output_id :: "('j, 'm) response_item \<Rightarrow> rstring option" where
  "custom_tool_output_id (CustomToolCallOutput _ call_id _ _ _) = Some call_id"
| "custom_tool_output_id _ = None"

definition ids :: "(('j, 'm) response_item \<Rightarrow> rstring option) \<Rightarrow> ('j, 'm) response_item list \<Rightarrow> rstring set" where
  "ids f items = set (List.map_filter f items)"

text \<open>The synthetic output of a call without output; the outer option is the panic of a debug build.\<close>

fun missing_output ::
  "bool \<Rightarrow> (rstring \<Rightarrow> rstring) \<Rightarrow> rstring set \<Rightarrow> rstring set \<Rightarrow> rstring set \<Rightarrow>
   ('j, 'm) response_item \<Rightarrow> ('j, 'm) response_item option option" where
  "missing_output debug uuid fos tss cts (FunctionCall i _ _ _ _ call_id _) =
     Some (if call_id \<notin> fos
           then Some (FunctionCallOutput (synthetic_output_id uuid (lit ''fco'') i) call_id (from_text (lit ''aborted'')) None)
           else None)"
| "missing_output debug uuid fos tss cts (ToolSearchCall i (Some call_id) _ _ _ _) =
     Some (if call_id \<notin> tss
           then Some (ToolSearchOutput (synthetic_output_id uuid (lit ''tso'') i) (Some call_id)
                        (lit ''completed'') (lit ''client'') [] None)
           else None)"
| "missing_output debug uuid fos tss cts (CustomToolCall i _ call_id _ _ _ _) =
     (if call_id \<notin> cts
      then error_or_panic debug
             (Some (CustomToolCallOutput (synthetic_output_id uuid (lit ''ctco'') i) call_id None
                      (from_text (lit ''aborted'')) None))
      else Some None)"
| "missing_output debug uuid fos tss cts (LocalShellCall i (Some call_id) _ _ _) =
     (if call_id \<notin> fos
      then error_or_panic debug
             (Some (FunctionCallOutput (synthetic_output_id uuid (lit ''fco'') i) call_id (from_text (lit ''aborted'')) None))
      else Some None)"
| "missing_output debug uuid fos tss cts _ = Some None"

fun collect_missing ::
  "(('j, 'm) response_item \<Rightarrow> ('j, 'm) response_item option option) \<Rightarrow> nat \<Rightarrow> ('j, 'm) response_item list \<Rightarrow>
   (nat \<times> ('j, 'm) response_item) list option" where
  "collect_missing missing idx [] = Some []"
| "collect_missing missing idx (item # items) =
     do {
       output_item \<leftarrow> missing item;
       rest \<leftarrow> collect_missing missing (Suc idx) items;
       Some (case output_item of Some o' \<Rightarrow> (idx, o') # rest | None \<Rightarrow> rest)
     }"

fun insert_outputs :: "(nat \<times> 'a) list \<Rightarrow> 'a list \<Rightarrow> 'a list option" where
  "insert_outputs [] items = Some items"
| "insert_outputs ((idx, output_item) # rest) items =
     Option.bind (vec_insert (idx + 1) output_item items) (insert_outputs rest)"

definition ensure_call_outputs_present ::
  "bool \<Rightarrow> (rstring \<Rightarrow> rstring) \<Rightarrow> ('j, 'm) response_item list \<Rightarrow> ('j, 'm) response_item list option" where
  "ensure_call_outputs_present debug uuid items =
     do {
       let missing = missing_output debug uuid (ids function_output_id items)
                       (ids tool_search_output_id items) (ids custom_tool_output_id items);
       missing_outputs_to_insert \<leftarrow> collect_missing missing 0 items;
       insert_outputs (rev missing_outputs_to_insert) items
     }"

fun function_call_id :: "('j, 'm) response_item \<Rightarrow> rstring option" where
  "function_call_id (FunctionCall _ _ _ _ _ call_id _) = Some call_id"
| "function_call_id _ = None"

fun tool_search_call_id :: "('j, 'm) response_item \<Rightarrow> rstring option" where
  "tool_search_call_id (ToolSearchCall _ call_id _ _ _ _) = call_id"
| "tool_search_call_id _ = None"

fun local_shell_call_id :: "('j, 'm) response_item \<Rightarrow> rstring option" where
  "local_shell_call_id (LocalShellCall _ call_id _ _ _) = call_id"
| "local_shell_call_id _ = None"

fun custom_tool_call_id :: "('j, 'm) response_item \<Rightarrow> rstring option" where
  "custom_tool_call_id (CustomToolCall _ _ call_id _ _ _ _) = Some call_id"
| "custom_tool_call_id _ = None"

definition check_match :: "bool \<Rightarrow> bool \<Rightarrow> bool option" where
  "check_match debug has_match = (if has_match then Some True else error_or_panic debug False)"

fun retain_output ::
  "bool \<Rightarrow> rstring set \<Rightarrow> rstring set \<Rightarrow> rstring set \<Rightarrow> rstring set \<Rightarrow> ('j, 'm) response_item \<Rightarrow> bool option" where
  "retain_output debug fcs tss lss cts (FunctionCallOutput _ call_id _ _) =
     check_match debug (call_id \<in> fcs \<or> call_id \<in> lss)"
| "retain_output debug fcs tss lss cts (CustomToolCallOutput _ call_id _ _ _) = check_match debug (call_id \<in> cts)"
| "retain_output debug fcs tss lss cts (ToolSearchOutput _ call_id _ execution _ _) =
     (if execution = lit ''server'' then Some True
      else (case call_id of Some c \<Rightarrow> check_match debug (c \<in> tss) | None \<Rightarrow> Some True))"
| "retain_output debug fcs tss lss cts _ = Some True"

fun retain :: "('a \<Rightarrow> bool option) \<Rightarrow> 'a list \<Rightarrow> 'a list option" where
  "retain f [] = Some []"
| "retain f (x # xs) =
     do { keep \<leftarrow> f x; rest \<leftarrow> retain f xs; Some (if keep then x # rest else rest) }"

definition remove_orphan_outputs ::
  "bool \<Rightarrow> ('j, 'm) response_item list \<Rightarrow> ('j, 'm) response_item list option" where
  "remove_orphan_outputs debug items =
     retain (retain_output debug (ids function_call_id items) (ids tool_search_call_id items)
               (ids local_shell_call_id items) (ids custom_tool_call_id items)) items"

fun position :: "('a \<Rightarrow> bool) \<Rightarrow> 'a list \<Rightarrow> nat option" where
  "position f [] = None"
| "position f (x # xs) = (if f x then Some 0 else map_option Suc (position f xs))"

definition remove_first_matching :: "('a \<Rightarrow> bool) \<Rightarrow> 'a list \<Rightarrow> 'a list" where
  "remove_first_matching f items =
     (case position f items of Some pos \<Rightarrow> vec_remove pos items | None \<Rightarrow> items)"

fun remove_corresponding_for ::
  "('j, 'm) response_item \<Rightarrow> ('j, 'm) response_item list \<Rightarrow> ('j, 'm) response_item list" where
  "remove_corresponding_for (FunctionCall _ _ _ _ _ call_id _) items =
     remove_first_matching (\<lambda>i. function_output_id i = Some call_id) items"
| "remove_corresponding_for (FunctionCallOutput _ call_id _ _) items =
     (case position (\<lambda>i. function_call_id i = Some call_id) items of
        Some pos \<Rightarrow> vec_remove pos items
      | None \<Rightarrow>
          (case position (\<lambda>i. local_shell_call_id i = Some call_id) items of
             Some pos \<Rightarrow> vec_remove pos items
           | None \<Rightarrow> items))"
| "remove_corresponding_for (ToolSearchCall _ (Some call_id) _ _ _ _) items =
     remove_first_matching (\<lambda>i. tool_search_output_id i = Some call_id) items"
| "remove_corresponding_for (ToolSearchOutput _ (Some call_id) _ _ _ _) items =
     remove_first_matching (\<lambda>i. tool_search_call_id i = Some call_id) items"
| "remove_corresponding_for (CustomToolCall _ _ call_id _ _ _ _) items =
     remove_first_matching (\<lambda>i. custom_tool_output_id i = Some call_id) items"
| "remove_corresponding_for (CustomToolCallOutput _ call_id _ _ _) items =
     remove_first_matching (\<lambda>i. custom_tool_call_id i = Some call_id) items"
| "remove_corresponding_for (LocalShellCall _ (Some call_id) _ _ _) items =
     remove_first_matching (\<lambda>i. function_output_id i = Some call_id) items"
| "remove_corresponding_for _ items = items"

datatype input_modality = Text_Modality | Image_Modality | Audio_Modality

definition IMAGE_CONTENT_OMITTED_PLACEHOLDER :: rstring where
  "IMAGE_CONTENT_OMITTED_PLACEHOLDER = lit ''image content omitted because you do not support image input''"

definition AUDIO_CONTENT_OMITTED_PLACEHOLDER :: rstring where
  "AUDIO_CONTENT_OMITTED_PLACEHOLDER = lit ''audio content omitted because you do not support audio input''"

fun strip_image_content :: "content_item \<Rightarrow> content_item" where
  "strip_image_content (InputImage _ _) = InputText IMAGE_CONTENT_OMITTED_PLACEHOLDER"
| "strip_image_content c = c"

fun strip_image_output :: "function_call_output_content_item \<Rightarrow> function_call_output_content_item" where
  "strip_image_output (Out_InputImage _ _) = Out_InputText IMAGE_CONTENT_OMITTED_PLACEHOLDER"
| "strip_image_output c = c"

fun strip_image :: "('j, 'm) response_item \<Rightarrow> ('j, 'm) response_item" where
  "strip_image (Message i role content phase metadata) =
     Message i role (map strip_image_content content) phase metadata"
| "strip_image (FunctionCallOutput i call_id output metadata) =
     FunctionCallOutput i call_id (map_content_items (map strip_image_output) output) metadata"
| "strip_image (CustomToolCallOutput i call_id name output metadata) =
     CustomToolCallOutput i call_id name (map_content_items (map strip_image_output) output) metadata"
| "strip_image (ImageGenerationCall i status revised_prompt _ metadata) =
     ImageGenerationCall i status revised_prompt [] metadata"
| "strip_image item = item"

definition strip_images_when_unsupported ::
  "input_modality list \<Rightarrow> ('j, 'm) response_item list \<Rightarrow> ('j, 'm) response_item list" where
  "strip_images_when_unsupported input_modalities items =
     (if Image_Modality \<in> set input_modalities then items else map strip_image items)"

fun strip_audio_content :: "content_item \<Rightarrow> content_item" where
  "strip_audio_content (InputAudio _) = InputText AUDIO_CONTENT_OMITTED_PLACEHOLDER"
| "strip_audio_content c = c"

fun strip_audio_output :: "function_call_output_content_item \<Rightarrow> function_call_output_content_item" where
  "strip_audio_output (Out_InputAudio _) = Out_InputText AUDIO_CONTENT_OMITTED_PLACEHOLDER"
| "strip_audio_output c = c"

fun strip_audio :: "('j, 'm) response_item \<Rightarrow> ('j, 'm) response_item" where
  "strip_audio (Message i role content phase metadata) =
     Message i role (map strip_audio_content content) phase metadata"
| "strip_audio (FunctionCallOutput i call_id output metadata) =
     FunctionCallOutput i call_id (map_content_items (map strip_audio_output) output) metadata"
| "strip_audio (CustomToolCallOutput i call_id name output metadata) =
     CustomToolCallOutput i call_id name (map_content_items (map strip_audio_output) output) metadata"
| "strip_audio item = item"

definition strip_audio_when_unsupported ::
  "input_modality list \<Rightarrow> ('j, 'm) response_item list \<Rightarrow> ('j, 'm) response_item list" where
  "strip_audio_when_unsupported input_modalities items =
     (if Audio_Modality \<in> set input_modalities then items else map strip_audio items)"

text \<open>\<^verbatim>\<open>ContextManager::normalize_history\<close> on the items of the history.\<close>

definition normalize_history ::
  "bool \<Rightarrow> (rstring \<Rightarrow> rstring) \<Rightarrow> input_modality list \<Rightarrow> ('j, 'm) response_item list \<Rightarrow>
   ('j, 'm) response_item list option" where
  "normalize_history debug uuid input_modalities items =
     do {
       items \<leftarrow> ensure_call_outputs_present debug uuid items;
       items \<leftarrow> remove_orphan_outputs debug items;
       let items = strip_images_when_unsupported input_modalities items;
       Some (strip_audio_when_unsupported input_modalities items)
     }"

section \<open>Calls and outputs\<close>

text \<open>
  A call and its output share a key: the kind of the pair and the call id. The output of a local shell
  call is a function call output. A tool search that the server executed needs no call in the history.
\<close>

datatype pair_kind = Function_Pair | Search_Pair | Custom_Pair

fun call_key :: "('j, 'm) response_item \<Rightarrow> (pair_kind \<times> rstring) option" where
  "call_key (FunctionCall _ _ _ _ _ c _) = Some (Function_Pair, c)"
| "call_key (LocalShellCall _ c _ _ _) = map_option (Pair Function_Pair) c"
| "call_key (ToolSearchCall _ c _ _ _ _) = map_option (Pair Search_Pair) c"
| "call_key (CustomToolCall _ _ c _ _ _ _) = Some (Custom_Pair, c)"
| "call_key _ = None"

fun output_key :: "('j, 'm) response_item \<Rightarrow> (pair_kind \<times> rstring) option" where
  "output_key (FunctionCallOutput _ c _ _) = Some (Function_Pair, c)"
| "output_key (ToolSearchOutput _ c _ _ _ _) = map_option (Pair Search_Pair) c"
| "output_key (CustomToolCallOutput _ c _ _ _) = Some (Custom_Pair, c)"
| "output_key _ = None"

fun requires_call :: "('j, 'm) response_item \<Rightarrow> (pair_kind \<times> rstring) option" where
  "requires_call (ToolSearchOutput _ c _ execution _ _) =
     (if execution = lit ''server'' then None else map_option (Pair Search_Pair) c)"
| "requires_call item = output_key item"

definition call_keys :: "('j, 'm) response_item list \<Rightarrow> (pair_kind \<times> rstring) set" where
  "call_keys items = {k. \<exists>i\<in>set items. call_key i = Some k}"

definition output_keys :: "('j, 'm) response_item list \<Rightarrow> (pair_kind \<times> rstring) set" where
  "output_keys items = {k. \<exists>i\<in>set items. output_key i = Some k}"

text \<open>Every call has an output and every output that needs a call has one.\<close>

definition paired :: "('j, 'm) response_item list \<Rightarrow> bool" where
  "paired items \<longleftrightarrow>
     call_keys items \<subseteq> output_keys items \<and>
     (\<forall>i\<in>set items. \<forall>k. requires_call i = Some k \<longrightarrow> k \<in> call_keys items)"

definition orphan :: "(pair_kind \<times> rstring) set \<Rightarrow> ('j, 'm) response_item \<Rightarrow> bool" where
  "orphan K i \<longleftrightarrow> (\<exists>k. requires_call i = Some k \<and> k \<notin> K)"

text \<open>The output that stands in for one that is missing.\<close>

definition aborted_output :: "(rstring \<Rightarrow> rstring) \<Rightarrow> ('j, 'm) response_item \<Rightarrow> ('j, 'm) response_item option" where
  "aborted_output uuid item = Option.bind (missing_output False uuid {} {} {} item) id"

definition completed :: "(rstring \<Rightarrow> rstring) \<Rightarrow> (pair_kind \<times> rstring) set \<Rightarrow> ('j, 'm) response_item \<Rightarrow> ('j, 'm) response_item option" where
  "completed uuid K item = (case call_key item of Some k \<Rightarrow> if k \<in> K then None else aborted_output uuid item | None \<Rightarrow> None)"

text \<open>A custom tool call or a local shell call without output: a panic in a debug build.\<close>

definition unanswered :: "(pair_kind \<times> rstring) set \<Rightarrow> ('j, 'm) response_item \<Rightarrow> bool" where
  "unanswered K item \<longleftrightarrow>
     (\<exists>k. call_key item = Some k \<and> k \<notin> K) \<and> (custom_tool_call_id item \<noteq> None \<or> local_shell_call_id item \<noteq> None)"

lemma requires_call_output_key: "requires_call i = Some k \<Longrightarrow> output_key i = Some k"
  by (cases i) (auto split: if_splits)

lemma call_key_no_output: "call_key i = Some k \<Longrightarrow> output_key i = None \<and> requires_call i = None"
  by (cases i) auto

lemma aborted_output_keys:
  "aborted_output uuid i = Some z \<Longrightarrow> output_key z = call_key i \<and> requires_call z = call_key i \<and> call_key z = None"
  by (cases "(False, uuid, {} :: rstring set, {} :: rstring set, {} :: rstring set, i)" rule: missing_output.cases)
    (auto simp: aborted_output_def error_or_panic_def lit_def)

lemma aborted_output_Some: "call_key i = Some k \<Longrightarrow> \<exists>z. aborted_output uuid i = Some z"
  by (cases "(False, uuid, {} :: rstring set, {} :: rstring set, {} :: rstring set, i)" rule: missing_output.cases)
    (auto simp: aborted_output_def error_or_panic_def)

lemma ids_iff: "c \<in> ids f items \<longleftrightarrow> (\<exists>i\<in>set items. f i = Some c)"
  by (force simp: ids_def map_filter_def)

lemma output_id_key:
  "function_output_id i = Some c \<longleftrightarrow> output_key i = Some (Function_Pair, c)"
  "tool_search_output_id i = Some c \<longleftrightarrow> output_key i = Some (Search_Pair, c)"
  "custom_tool_output_id i = Some c \<longleftrightarrow> output_key i = Some (Custom_Pair, c)"
  by (cases i; auto)+

lemma call_id_key:
  "function_call_id i = Some c \<or> local_shell_call_id i = Some c \<longleftrightarrow> call_key i = Some (Function_Pair, c)"
  "tool_search_call_id i = Some c \<longleftrightarrow> call_key i = Some (Search_Pair, c)"
  "custom_tool_call_id i = Some c \<longleftrightarrow> call_key i = Some (Custom_Pair, c)"
  by (cases i; auto)+

lemma ids_output_keys:
  "c \<in> ids function_output_id items \<longleftrightarrow> (Function_Pair, c) \<in> output_keys items"
  "c \<in> ids tool_search_output_id items \<longleftrightarrow> (Search_Pair, c) \<in> output_keys items"
  "c \<in> ids custom_tool_output_id items \<longleftrightarrow> (Custom_Pair, c) \<in> output_keys items"
  by (simp_all add: ids_iff output_keys_def output_id_key)

lemma ids_call_keys:
  "c \<in> ids function_call_id items \<or> c \<in> ids local_shell_call_id items \<longleftrightarrow> (Function_Pair, c) \<in> call_keys items"
  "c \<in> ids tool_search_call_id items \<longleftrightarrow> (Search_Pair, c) \<in> call_keys items"
  "c \<in> ids custom_tool_call_id items \<longleftrightarrow> (Custom_Pair, c) \<in> call_keys items"
  by (auto simp: ids_iff call_keys_def call_id_key [symmetric])

lemma missing_output_eq:
  "missing_output debug uuid (ids function_output_id items) (ids tool_search_output_id items)
     (ids custom_tool_output_id items) i =
   (if debug \<and> unanswered (output_keys items) i then None else Some (completed uuid (output_keys items) i))"
  by (cases "(False, uuid, {} :: rstring set, {} :: rstring set, {} :: rstring set, i)" rule: missing_output.cases)
    (auto simp: ids_output_keys completed_def unanswered_def aborted_output_def error_or_panic_def)

lemma retain_output_eq:
  "retain_output debug (ids function_call_id items) (ids tool_search_call_id items)
     (ids local_shell_call_id items) (ids custom_tool_call_id items) i =
   (if orphan (call_keys items) i then (if debug then None else Some False) else Some True)"
  by (cases i) (auto simp: ids_call_keys orphan_def check_match_def error_or_panic_def split: option.splits)

section \<open>The passes as one pass\<close>

definition opt_list :: "'a option \<Rightarrow> 'a list" where
  "opt_list x = (case x of Some y \<Rightarrow> [y] | None \<Rightarrow> [])"

fun indexed :: "('a \<Rightarrow> 'b option) \<Rightarrow> nat \<Rightarrow> 'a list \<Rightarrow> (nat \<times> 'b) list" where
  "indexed f n [] = []"
| "indexed f n (x # xs) = map (Pair n) (opt_list (f x)) @ indexed f (Suc n) xs"

lemma collect_missing_eq:
  "collect_missing (\<lambda>i. if P i then None else Some (f i)) n items =
   (if \<exists>i\<in>set items. P i then None else Some (indexed f n items))"
  by (induction items arbitrary: n) (auto simp: opt_list_def split: option.splits)

lemma insert_outputs_append:
  "insert_outputs (a @ b) items = Option.bind (insert_outputs a items) (insert_outputs b)"
  by (induction a items rule: insert_outputs.induct) (auto split: bind_splits)

lemma insert_outputs_indexed:
  "insert_outputs (rev (indexed f (length pre) items)) (pre @ items) =
   Some (pre @ concat (map (\<lambda>i. i # opt_list (f i)) items))"
proof (induction items arbitrary: pre)
  case (Cons i items)
  have "insert_outputs (rev (indexed f (Suc (length pre)) items)) (pre @ i # items) =
      Some (pre @ i # concat (map (\<lambda>i. i # opt_list (f i)) items))"
    using Cons.IH [of "pre @ [i]"] by simp
  then show ?case
    by (cases "f i") (simp_all add: insert_outputs_append opt_list_def vec_insert_def)
qed simp

lemma ensure_call_outputs_present_eq:
  "ensure_call_outputs_present debug uuid items =
   (if debug \<and> (\<exists>i\<in>set items. unanswered (output_keys items) i) then None
    else Some (concat (map (\<lambda>i. i # opt_list (completed uuid (output_keys items) i)) items)))"
proof -
  have "missing_output debug uuid (ids function_output_id items) (ids tool_search_output_id items)
      (ids custom_tool_output_id items) =
    (\<lambda>i. if debug \<and> unanswered (output_keys items) i then None else Some (completed uuid (output_keys items) i))"
    by (rule ext) (rule missing_output_eq)
  note missing = this
  show ?thesis
    using insert_outputs_indexed [of "completed uuid (output_keys items)" "[]" items]
    unfolding ensure_call_outputs_present_def Let_def missing collect_missing_eq by simp
qed

lemma retain_eq:
  "retain f xs = (if \<exists>x\<in>set xs. f x = None then None else Some (filter (\<lambda>x. f x = Some True) xs))"
  by (induction xs) (auto split: bind_splits)

lemma remove_orphan_outputs_eq:
  "remove_orphan_outputs debug items =
   (if debug \<and> (\<exists>i\<in>set items. orphan (call_keys items) i) then None
    else Some (filter (\<lambda>i. \<not> orphan (call_keys items) i) items))"
  by (auto simp: remove_orphan_outputs_def retain_output_eq retain_eq intro!: filter_cong split: if_splits)

lemma completed_keys:
  "completed uuid K i = Some z \<Longrightarrow>
   call_key z = None \<and> requires_call z = call_key i \<and> output_key z = call_key i \<and> (\<exists>k. call_key i = Some k)"
  using aborted_output_keys by (fastforce simp: completed_def split: option.splits if_splits)

lemma set_with_outputs:
  "x \<in> set (concat (map (\<lambda>i. i # opt_list (f i)) items)) \<longleftrightarrow> (\<exists>i\<in>set items. x = i \<or> f i = Some x)"
  by (induction items) (auto simp: opt_list_def split: option.splits)

lemma call_keys_with_outputs:
  "call_keys (concat (map (\<lambda>i. i # opt_list (completed uuid K i)) items)) = call_keys items"
  unfolding call_keys_def set_with_outputs Bex_def by (force dest: completed_keys)

text \<open>What normalisation makes of one item, given the keys of all calls and all outputs.\<close>

definition normal_item ::
  "(rstring \<Rightarrow> rstring) \<Rightarrow> ('j, 'm) response_item list \<Rightarrow> ('j, 'm) response_item \<Rightarrow> ('j, 'm) response_item list" where
  "normal_item uuid items i =
     (if orphan (call_keys items) i then [] else [i]) @ opt_list (completed uuid (output_keys items) i)"

definition strip :: "input_modality list \<Rightarrow> ('j, 'm) response_item \<Rightarrow> ('j, 'm) response_item" where
  "strip mods i =
     (let i' = (if Image_Modality \<in> set mods then i else strip_image i) in
      if Audio_Modality \<in> set mods then i' else strip_audio i')"

lemma filter_with_outputs:
  "filter (\<lambda>i. \<not> orphan (call_keys items) i) (concat (map (\<lambda>i. i # opt_list (completed uuid (output_keys items) i)) xs)) =
   concat (map (normal_item uuid items) xs)" if "set xs \<subseteq> set items"
  using that
proof (induction xs)
  case (Cons x xs)
  have "completed uuid (output_keys items) x = Some z \<Longrightarrow> \<not> orphan (call_keys items) z" for z
    using completed_keys [of uuid "output_keys items" x z] Cons.prems
    by (auto simp: orphan_def call_keys_def)
  then have "filter (\<lambda>i. \<not> orphan (call_keys items) i) (opt_list (completed uuid (output_keys items) x)) =
      opt_list (completed uuid (output_keys items) x)"
    by (cases "completed uuid (output_keys items) x") (simp_all add: opt_list_def)
  with Cons show ?case by (simp add: normal_item_def)
qed simp

lemma normalize_history_eq:
  "normalize_history debug uuid mods items =
   (if debug \<and> (\<exists>i\<in>set items. unanswered (output_keys items) i \<or> orphan (call_keys items) i) then None
    else Some (map (strip mods) (concat (map (normal_item uuid items) items))))"
proof -
  define full where "full = concat (map (\<lambda>i. i # opt_list (completed uuid (output_keys items) i)) items)"
  have keys: "call_keys full = call_keys items" unfolding full_def by (rule call_keys_with_outputs)
  have filt: "filter (\<lambda>i. \<not> orphan (call_keys items) i) full = concat (map (normal_item uuid items) items)"
    unfolding full_def by (rule filter_with_outputs) simp
  have orph: "(\<exists>i\<in>set full. orphan (call_keys items) i) \<longleftrightarrow> (\<exists>i\<in>set items. orphan (call_keys items) i)"
  proof -
    have "completed uuid (output_keys items) i = Some z \<Longrightarrow> i \<in> set items \<Longrightarrow> \<not> orphan (call_keys items) z" for i z
      using completed_keys [of uuid "output_keys items" i z] by (auto simp: orphan_def call_keys_def)
    then show ?thesis unfolding full_def Bex_def set_with_outputs by blast
  qed
  have strip: "strip_audio_when_unsupported mods (strip_images_when_unsupported mods xs) = map (strip mods) xs"
    for xs :: "('a, 'b) response_item list"
    by (induction xs) (auto simp: strip_audio_when_unsupported_def strip_images_when_unsupported_def strip_def)
  show ?thesis
    by (auto simp: normalize_history_def ensure_call_outputs_present_eq full_def [symmetric]
        remove_orphan_outputs_eq keys filt orph strip Let_def simp del: map_concat)
qed

section \<open>Properties\<close>

lemma strip_keys [simp]:
  "call_key (strip mods i) = call_key i" "output_key (strip mods i) = output_key i"
  "requires_call (strip mods i) = requires_call i"
  by (cases i; simp add: strip_def Let_def)+

lemma strip_image_content_simps [simp]:
  "strip_image_content (strip_image_content c) = strip_image_content c"
  "strip_audio_content (strip_audio_content c) = strip_audio_content c"
  "strip_image_content (strip_audio_content (strip_image_content c)) = strip_audio_content (strip_image_content c)"
  "strip_audio_content (strip_image_content (strip_audio_content (strip_image_content c))) =
   strip_audio_content (strip_image_content c)"
  by (cases c; simp)+

lemma strip_image_output_simps [simp]:
  "strip_image_output (strip_image_output c) = strip_image_output c"
  "strip_audio_output (strip_audio_output c) = strip_audio_output c"
  "strip_image_output (strip_audio_output (strip_image_output c)) = strip_audio_output (strip_image_output c)"
  "strip_audio_output (strip_image_output (strip_audio_output (strip_image_output c))) =
   strip_audio_output (strip_image_output c)"
  by (cases c; simp)+

lemma map_content_items_comp [simp]:
  "map_content_items f (map_content_items g p) = map_content_items (f \<circ> g) p"
  by (simp add: map_content_items_def split: function_call_output_body.splits)

lemma map_content_items_cong: "(\<And>xs. f xs = g xs) \<Longrightarrow> map_content_items f p = map_content_items g p"
  by (simp add: map_content_items_def split: function_call_output_body.splits)

lemma strip_idem [simp]: "strip mods (strip mods i) = strip mods i"
  by (cases i) (auto simp: strip_def Let_def intro!: map_content_items_cong)

text \<open>Items that carry images or audio.\<close>

definition output_has :: "(function_call_output_content_item \<Rightarrow> bool) \<Rightarrow> function_call_output_payload \<Rightarrow> bool" where
  "output_has f p = (case body p of Text_Body _ \<Rightarrow> False | ContentItems items \<Rightarrow> list_ex f items)"

fun has_image :: "('j, 'm) response_item \<Rightarrow> bool" where
  "has_image (Message _ _ content _ _) = list_ex (\<lambda>c. case c of InputImage _ _ \<Rightarrow> True | _ \<Rightarrow> False) content"
| "has_image (FunctionCallOutput _ _ p _) = output_has (\<lambda>c. case c of Out_InputImage _ _ \<Rightarrow> True | _ \<Rightarrow> False) p"
| "has_image (CustomToolCallOutput _ _ _ p _) = output_has (\<lambda>c. case c of Out_InputImage _ _ \<Rightarrow> True | _ \<Rightarrow> False) p"
| "has_image (ImageGenerationCall _ _ _ result _) = (result \<noteq> [])"
| "has_image _ = False"

fun has_audio :: "('j, 'm) response_item \<Rightarrow> bool" where
  "has_audio (Message _ _ content _ _) = list_ex (\<lambda>c. case c of InputAudio _ \<Rightarrow> True | _ \<Rightarrow> False) content"
| "has_audio (FunctionCallOutput _ _ p _) = output_has (\<lambda>c. case c of Out_InputAudio _ \<Rightarrow> True | _ \<Rightarrow> False) p"
| "has_audio (CustomToolCallOutput _ _ _ p _) = output_has (\<lambda>c. case c of Out_InputAudio _ \<Rightarrow> True | _ \<Rightarrow> False) p"
| "has_audio _ = False"

definition readable :: "input_modality list \<Rightarrow> ('j, 'm) response_item \<Rightarrow> bool" where
  "readable mods i \<longleftrightarrow>
     (Image_Modality \<in> set mods \<or> \<not> has_image i) \<and> (Audio_Modality \<in> set mods \<or> \<not> has_audio i)"

lemma output_has_map: "output_has f (map_content_items (map g) p) = output_has (f \<circ> g) p"
  by (simp add: output_has_def map_content_items_def list_ex_iff split: function_call_output_body.splits)

lemma output_has_False: "(\<And>c. \<not> f c) \<Longrightarrow> \<not> output_has f p"
  by (simp add: output_has_def list_ex_iff split: function_call_output_body.splits)

lemma has_image_strip: "\<not> has_image (strip_image i)" "\<not> has_audio (strip_audio i)"
proof -
  have c: "\<not> (case strip_image_content c of InputImage _ _ \<Rightarrow> True | _ \<Rightarrow> False)"
    "\<not> (case strip_audio_content c of InputAudio _ \<Rightarrow> True | _ \<Rightarrow> False)" for c
    by (cases c; simp)+
  have o: "\<not> (case strip_image_output c of Out_InputImage _ _ \<Rightarrow> True | _ \<Rightarrow> False)"
    "\<not> (case strip_audio_output c of Out_InputAudio _ \<Rightarrow> True | _ \<Rightarrow> False)" for c
    by (cases c; simp)+
  show "\<not> has_image (strip_image i)" "\<not> has_audio (strip_audio i)"
    by (cases i; simp add: list_ex_iff c output_has_map output_has_False o)+
qed

lemma has_image_strip_audio: "has_image (strip_audio i) = has_image i"
proof -
  have "(case strip_audio_content c of InputImage _ _ \<Rightarrow> True | _ \<Rightarrow> False) = (case c of InputImage _ _ \<Rightarrow> True | _ \<Rightarrow> False)"
    for c by (cases c) simp_all
  moreover have "(\<lambda>c. case c of Out_InputImage _ _ \<Rightarrow> True | _ \<Rightarrow> False) \<circ> strip_audio_output =
      (\<lambda>c. case c of Out_InputImage _ _ \<Rightarrow> True | _ \<Rightarrow> False)"
    by (rule ext) (simp split: function_call_output_content_item.splits add: strip_audio_output.simps o_def)
  ultimately show ?thesis by (cases i) (simp_all add: list_ex_iff output_has_map)
qed

lemma readable_strip: "readable mods (strip mods i)"
  by (auto simp: readable_def strip_def Let_def has_image_strip has_image_strip_audio)

lemma keys_map_strip [simp]:
  "call_keys (map (strip mods) xs) = call_keys xs" "output_keys (map (strip mods) xs) = output_keys xs"
  by (simp_all add: call_keys_def output_keys_def)

lemma set_normal:
  "x \<in> set (concat (map (normal_item uuid items) items)) \<longleftrightarrow>
   (\<exists>i\<in>set items. x = i \<and> \<not> orphan (call_keys items) i \<or> completed uuid (output_keys items) i = Some x)"
proof -
  have "x \<in> set (normal_item uuid items i) \<longleftrightarrow>
      x = i \<and> \<not> orphan (call_keys items) i \<or> completed uuid (output_keys items) i = Some x" for i
    by (cases "completed uuid (output_keys items) i") (auto simp: normal_item_def opt_list_def)
  then show ?thesis by simp
qed

lemma call_keys_normal: "call_keys (concat (map (normal_item uuid items) items)) = call_keys items"
proof -
  have "call_key i = Some k \<Longrightarrow> \<not> orphan K i" for i :: "('a, 'b) response_item" and k K
    using call_key_no_output [of i k] by (simp add: orphan_def)
  then show ?thesis
    unfolding call_keys_def set_normal Bex_def by (force dest: completed_keys)
qed

lemma call_keys_subset_normal:
  "call_keys items \<subseteq> output_keys (concat (map (normal_item uuid items) items))"
proof
  fix k
  assume k: "k \<in> call_keys items"
  then obtain i where i: "i \<in> set items" "call_key i = Some k" by (auto simp: call_keys_def)
  show "k \<in> output_keys (concat (map (normal_item uuid items) items))"
  proof (cases "k \<in> output_keys items")
    case True
    then obtain j where j: "j \<in> set items" "output_key j = Some k" by (auto simp: output_keys_def)
    then have "\<not> orphan (call_keys items) j"
      using k requires_call_output_key [of j] by (auto simp: orphan_def)
    with j show ?thesis unfolding output_keys_def mem_Collect_eq Bex_def set_normal by blast
  next
    case False
    then obtain z where z: "completed uuid (output_keys items) i = Some z"
      using i aborted_output_Some [OF i(2), of uuid] by (auto simp: completed_def)
    with i completed_keys [OF z] show ?thesis
      unfolding output_keys_def mem_Collect_eq Bex_def set_normal by auto
  qed
qed

lemma paired_normal: "paired (map (strip mods) (concat (map (normal_item uuid items) items)))"
proof -
  have "k \<in> call_keys items"
    if x: "x \<in> set (concat (map (normal_item uuid items) items))" and k: "requires_call x = Some k" for x k
    using x unfolding set_normal
  proof (elim bexE disjE)
    show "i \<in> set items \<Longrightarrow> completed uuid (output_keys items) i = Some x \<Longrightarrow> k \<in> call_keys items" for i
      using completed_keys [of uuid "output_keys items" i x] k by (auto simp: call_keys_def)
  qed (use k in \<open>unfold orphan_def, blast\<close>)
  then have "\<forall>x\<in>set (map (strip mods) (concat (map (normal_item uuid items) items))). \<forall>k.
      requires_call x = Some k \<longrightarrow> k \<in> call_keys items"
    by auto
  then show ?thesis
    unfolding paired_def keys_map_strip call_keys_normal
    using call_keys_subset_normal [of items uuid] by blast
qed

lemma normal_item_paired:
  assumes "paired items" and "i \<in> set items"
  shows "normal_item uuid items i = [i]"
proof -
  have "\<not> orphan (call_keys items) i" using assms by (auto simp: paired_def orphan_def)
  moreover have "completed uuid (output_keys items) i = None"
    using assms by (auto simp: paired_def completed_def call_keys_def split: option.splits)
  ultimately show ?thesis by (simp add: normal_item_def opt_list_def)
qed

lemma normal_paired: "paired items \<Longrightarrow> concat (map (normal_item uuid items) items) = items"
proof -
  assume "paired items"
  then have "map (normal_item uuid items) items = map (\<lambda>i. [i]) items"
    using normal_item_paired by (intro map_cong) auto
  then have "concat (map (normal_item uuid items) items) = concat (map (\<lambda>i. [i]) items)" by (simp only:)
  then show ?thesis by (simp only: concat_map_singleton map_ident)
qed

text \<open>
  C4. In a release build the prompt made from any history has an output for every call and a call for every
  output that needs one. It is the history taken item by item, in its order: an output without call is dropped,
  a call without output is followed by a synthetic one, every other item stays, and each is stripped of the
  media the model does not read: what is left is readable by the model. Normalising a prompt again changes nothing.
\<close>

theorem normalize_history_pairs_calls:
  "\<exists>prompt. normalize_history False uuid mods items = Some prompt \<and> paired prompt \<and>
     list_all (readable mods) prompt \<and>
     prompt = map (strip mods) (concat (map (normal_item uuid items) items)) \<and>
     normalize_history False uuid mods prompt = Some prompt"
proof -
  define prompt where "prompt = map (strip mods) (concat (map (normal_item uuid items) items))"
  have p: "paired prompt" unfolding prompt_def by (rule paired_normal)
  have r: "list_all (readable mods) prompt" unfolding prompt_def list_all_iff by (auto simp: readable_strip)
  have "normalize_history False uuid mods prompt = Some (map (strip mods) prompt)"
    by (simp only: normalize_history_eq normal_paired [OF p] simp_thms if_False)
  also have "map (strip mods) prompt = prompt" by (simp add: prompt_def)
  finally show ?thesis
    using p r by (simp add: normalize_history_eq prompt_def [symmetric] del: map_concat map_map)
qed

text \<open>
  C34. A debug build panics on exactly the histories that a release build repairs with an error in the log: those
  with a custom tool call or local shell call without output, or with an output without call. On every other
  history both builds give the same prompt.
\<close>

theorem debug_build_panics_iff_broken:
  "normalize_history True uuid mods items =
   (if \<exists>i\<in>set items. unanswered (output_keys items) i \<or> orphan (call_keys items) i then None
    else normalize_history False uuid mods items)"
  by (simp add: normalize_history_eq)

end
