(* ===== verification/Output_Truncation.thy ===== *)
theory Output_Truncation
  imports Response_Items
begin

text \<open>
  \<^verbatim>\<open>codex-rs/utils/output-truncation/src/lib.rs\<close> and \<^verbatim>\<open>TruncationPolicy\<close> of
  \<^verbatim>\<open>codex-rs/protocol/src/protocol.rs\<close>: fitting the output of tools into a budget of bytes or tokens.

  The product of a policy with a floating-point number is modelled exactly: a non-negative \<^verbatim>\<open>f64\<close> is a
  pair \<open>(m, k)\<close> that stands for \<open>m / 2 ^ k\<close>, and \<open>f64_round\<close> rounds an integer significand to 53 bits, to
  the nearest value, ties to the even one.
\<close>

section \<open>Policies\<close>

datatype truncation_policy = Bytes nat | Tokens nat

fun token_budget :: "truncation_policy \<Rightarrow> nat" where
  "token_budget (Bytes bytes) = approx_tokens_from_byte_count bytes"
| "token_budget (Tokens tokens) = tokens"

fun byte_budget :: "truncation_policy \<Rightarrow> nat" where
  "byte_budget (Bytes bytes) = bytes"
| "byte_budget (Tokens tokens) = approx_bytes_for_tokens tokens"

fun bit_length :: "nat \<Rightarrow> nat" where
  "bit_length n = (if n = 0 then 0 else Suc (bit_length (n div 2)))"

declare bit_length.simps [simp del]

definition f64_round :: "nat \<Rightarrow> nat" where
  "f64_round m =
     (let e = bit_length m - 53; q = m div 2 ^ e; r = m mod 2 ^ e in
      if e = 0 then m
      else (if 2 ^ e < 2 * r \<or> (2 ^ e = 2 * r \<and> odd q) then q + 1 else q) * 2 ^ e)"

text \<open>\<^verbatim>\<open>(n as f64 * multiplier).ceil() as usize\<close>; the conversion back saturates.\<close>

definition mul_f64_ceil :: "nat \<Rightarrow> nat \<times> nat \<Rightarrow> nat" where
  "mul_f64_ceil n multiplier =
     (let product = f64_round (f64_round n * fst multiplier) in
      min usize_max ((product + 2 ^ snd multiplier - 1) div 2 ^ snd multiplier))"

fun policy_mul :: "truncation_policy \<Rightarrow> nat \<times> nat \<Rightarrow> truncation_policy" where
  "policy_mul (Bytes bytes) multiplier = Bytes (mul_f64_ceil bytes multiplier)"
| "policy_mul (Tokens tokens) multiplier = Tokens (mul_f64_ceil tokens multiplier)"

text \<open>The \<^verbatim>\<open>f64\<close> next to 1.2.\<close>

definition f64_1_2 :: "nat \<times> nat" where
  "f64_1_2 = (5404319552844595, 52)"


section \<open>Truncation of text and content items\<close>

definition truncate_text :: "rstring \<Rightarrow> truncation_policy \<Rightarrow> rstring option" where
  "truncate_text content policy =
     (case policy of
        Bytes bytes \<Rightarrow> truncate_middle_chars content bytes
      | Tokens tokens \<Rightarrow> map_option fst (truncate_middle_with_token_budget content tokens))"

definition formatted_truncate_text :: "rstring \<Rightarrow> truncation_policy \<Rightarrow> rstring option" where
  "formatted_truncate_text content policy =
     (if utf8_len content \<le> byte_budget policy then Some content
      else do {
        let original_token_count = approx_token_count content;
        let total_lines = length (str_lines content);
        result \<leftarrow> truncate_text content policy;
        Some (lit ''Warning: truncated output (original token count: '' @ show_nat original_token_count @
              lit '')'' @ [newline] @ lit ''Total output lines: '' @ show_nat total_lines @
              [newline, newline] @ result)
      })"

fun item_text :: "function_call_output_content_item \<Rightarrow> rstring option" where
  "item_text (Out_InputText txt) = Some txt"
| "item_text (Out_InputImage _ _) = None"
| "item_text (Out_InputAudio _) = None"
| "item_text (Out_EncryptedContent _) = None"

fun combine_segments :: "rstring \<Rightarrow> rstring list \<Rightarrow> rstring" where
  "combine_segments combined [] = combined"
| "combine_segments combined (txt # segments) =
     combine_segments ((if combined \<noteq> [] then combined @ [newline] else combined) @ txt) segments"

definition formatted_truncate_text_content_items_with_policy ::
  "function_call_output_content_item list \<Rightarrow> truncation_policy \<Rightarrow>
   (function_call_output_content_item list \<times> nat option) option" where
  "formatted_truncate_text_content_items_with_policy items policy =
     (let text_segments = List.map_filter item_text items in
      if text_segments = [] then Some (items, None)
      else
        (let combined = combine_segments [] text_segments in
         if utf8_len combined \<le> byte_budget policy then Some (items, None)
         else do {
           let original_token_count = approx_token_count combined;
           txt \<leftarrow> formatted_truncate_text combined policy;
           Some (Out_InputText txt # filter (\<lambda>item. item_text item = None) items, Some original_token_count)
         }))"

record truncate_items_state =
  out_items :: "function_call_output_content_item list"
  remaining_budget :: nat
  omitted_text_items :: nat
  omitted_audio_items :: nat

fun text_cost :: "truncation_policy \<Rightarrow> rstring \<Rightarrow> nat" where
  "text_cost (Bytes _) txt = utf8_len txt"
| "text_cost (Tokens _) txt = approx_token_count txt"

fun audio_cost :: "truncation_policy \<Rightarrow> nat \<Rightarrow> nat" where
  "audio_cost (Bytes _) token_cost = approx_bytes_for_tokens token_cost"
| "audio_cost (Tokens _) token_cost = token_cost"

fun snippet_policy :: "truncation_policy \<Rightarrow> nat \<Rightarrow> truncation_policy" where
  "snippet_policy (Bytes _) remaining = Bytes remaining"
| "snippet_policy (Tokens _) remaining = Tokens remaining"

fun truncate_item ::
  "truncation_policy \<Rightarrow> (rstring \<Rightarrow> nat) \<Rightarrow> function_call_output_content_item \<Rightarrow>
   truncate_items_state \<Rightarrow> truncate_items_state option" where
  "truncate_item policy estimate_audio (Out_InputText txt) st =
     (if remaining_budget st = 0 then Some (st\<lparr>omitted_text_items := omitted_text_items st + 1\<rparr>)
      else
        (let cost = text_cost policy txt in
         if cost \<le> remaining_budget st then
           Some (st\<lparr>out_items := out_items st @ [Out_InputText txt],
                    remaining_budget := remaining_budget st - cost\<rparr>)
         else do {
           snippet \<leftarrow> truncate_text txt (snippet_policy policy (remaining_budget st));
           let st' = (if snippet = [] then st\<lparr>omitted_text_items := omitted_text_items st + 1\<rparr>
                      else st\<lparr>out_items := out_items st @ [Out_InputText snippet]\<rparr>);
           Some (st'\<lparr>remaining_budget := 0\<rparr>)
         }))"
| "truncate_item policy estimate_audio (Out_InputImage image_url detail) st =
     Some (st\<lparr>out_items := out_items st @ [Out_InputImage image_url detail]\<rparr>)"
| "truncate_item policy estimate_audio (Out_InputAudio audio_url) st =
     (let cost = audio_cost policy (estimate_audio audio_url) in
      if cost \<le> remaining_budget st then
        Some (st\<lparr>out_items := out_items st @ [Out_InputAudio audio_url],
                 remaining_budget := remaining_budget st - cost\<rparr>)
      else Some (st\<lparr>omitted_audio_items := omitted_audio_items st + 1\<rparr>))"
| "truncate_item policy estimate_audio (Out_EncryptedContent encrypted_content) st =
     Some (st\<lparr>out_items := out_items st @ [Out_EncryptedContent encrypted_content]\<rparr>)"

fun truncate_items_loop ::
  "truncation_policy \<Rightarrow> (rstring \<Rightarrow> nat) \<Rightarrow> function_call_output_content_item list \<Rightarrow>
   truncate_items_state \<Rightarrow> truncate_items_state option" where
  "truncate_items_loop policy estimate_audio [] st = Some st"
| "truncate_items_loop policy estimate_audio (item # items) st =
     Option.bind (truncate_item policy estimate_audio item st) (truncate_items_loop policy estimate_audio items)"

definition initial_budget :: "truncation_policy \<Rightarrow> nat" where
  "initial_budget policy =
     (case policy of Bytes _ \<Rightarrow> byte_budget policy | Tokens _ \<Rightarrow> token_budget policy)"

definition truncate_function_output_items_with_policy ::
  "function_call_output_content_item list \<Rightarrow> truncation_policy \<Rightarrow> (rstring \<Rightarrow> nat) \<Rightarrow>
   function_call_output_content_item list option" where
  "truncate_function_output_items_with_policy items policy estimate_audio =
     do {
       st \<leftarrow> truncate_items_loop policy estimate_audio items
               \<lparr>out_items = [], remaining_budget = initial_budget policy,
                omitted_text_items = 0, omitted_audio_items = 0\<rparr>;
       Some (out_items st @
         (if 0 < omitted_text_items st
          then [Out_InputText (lit ''[omitted '' @ show_nat (omitted_text_items st) @ lit '' text items ...]'')]
          else []) @
         (if 0 < omitted_audio_items st
          then [Out_InputText (lit ''[omitted '' @ show_nat (omitted_audio_items st) @ lit '' audio items ...]'')]
          else []))
     }"

definition i64_max :: int where
  "i64_max = 2 ^ 63 - 1"

text \<open>\<^verbatim>\<open>i64::try_from(n).unwrap_or(i64::MAX)\<close>.\<close>

definition i64_of_nat :: "nat \<Rightarrow> int" where
  "i64_of_nat n = min i64_max (int n)"

definition approx_tokens_from_byte_count_i64 :: "int \<Rightarrow> int" where
  "approx_tokens_from_byte_count_i64 bytes =
     (if bytes \<le> 0 then 0 else i64_of_nat (approx_tokens_from_byte_count (nat bytes)))"


section \<open>Floating-point scaling\<close>

lemma bit_length_bounds: "0 < m \<Longrightarrow> 2 ^ (bit_length m - 1) \<le> m \<and> m < 2 ^ bit_length m \<and> 0 < bit_length m"
proof (induction m rule: bit_length.induct)
  case (1 m)
  show ?case
  proof (cases "m = 1")
    case True
    then show ?thesis by (simp add: bit_length.simps)
  next
    case False
    with 1 have "2 ^ (bit_length (m div 2) - 1) \<le> m div 2" "m div 2 < 2 ^ bit_length (m div 2)"
      "0 < bit_length (m div 2)"
      by auto
    moreover have "bit_length m = Suc (bit_length (m div 2))"
      using 1 by (subst bit_length.simps) simp
    moreover obtain b where "bit_length (m div 2) = Suc b"
      using calculation(3) by (cases "bit_length (m div 2)") auto
    ultimately show ?thesis by auto
  qed
qed

lemma f64_round_0 [simp]: "f64_round 0 = 0"
  by (simp add: f64_round_def bit_length.simps)

text \<open>Rounding loses less than one part in \<open>2 ^ 52\<close>.\<close>

lemma f64_round_ge: "m * 2 ^ 52 \<le> f64_round m * (2 ^ 52 + 1)"
proof (cases "m = 0 \<or> bit_length m \<le> 53")
  case True
  then show ?thesis by (auto simp: f64_round_def)
next
  case False
  define e where "e = bit_length m - 53"
  define q where "q = m div 2 ^ e"
  have e: "0 < e" "bit_length m = e + 53" using False by (simp_all add: e_def)
  have "2 ^ (bit_length m - 1) \<le> m" using bit_length_bounds [of m] False by simp
  moreover have "bit_length m - 1 = 52 + e" using e by simp
  ultimately have "2 ^ 52 * 2 ^ e \<le> m" by (simp only: power_add)
  then have q: "2 ^ 52 \<le> q" unfolding q_def by (simp add: less_eq_div_iff_mult_less_eq)
  have "m mod 2 ^ e \<le> 2 ^ e" by (simp add: less_imp_le)
  then have m: "m \<le> q * 2 ^ e + 2 ^ e"
    unfolding q_def using div_mult_mod_eq [of m "2 ^ e"] by linarith
  have "m * 2 ^ 52 \<le> (q * 2 ^ e + 2 ^ e) * 2 ^ 52" using m by (rule mult_le_mono1)
  also have "\<dots> = q * 2 ^ e * 2 ^ 52 + 2 ^ 52 * 2 ^ e" by (simp add: algebra_simps)
  also have "\<dots> \<le> q * 2 ^ e * 2 ^ 52 + q * 2 ^ e" using q by (intro add_left_mono mult_le_mono1)
  also have "\<dots> = q * 2 ^ e * (2 ^ 52 + 1)" by (simp add: algebra_simps)
  also have "q * 2 ^ e \<le> f64_round m" using e(1) unfolding f64_round_def Let_def e_def [symmetric] q_def by simp
  then have "q * 2 ^ e * (2 ^ 52 + 1) \<le> f64_round m * (2 ^ 52 + 1)" by (rule mult_le_mono1)
  finally show ?thesis .
qed

lemma mul_f64_1_2_ge: "n \<le> usize_max \<Longrightarrow> n \<le> mul_f64_ceil n f64_1_2"
proof -
  assume n: "n \<le> usize_max"
  define c :: nat where "c = 5404319552844595"
  define p where "p = f64_round (f64_round n * c)"
  have "n * 2 ^ 52 * 2 ^ 52 * c \<le> f64_round n * (2 ^ 52 + 1) * 2 ^ 52 * c"
    using f64_round_ge [of n] by (intro mult_le_mono1)
  also have "\<dots> = f64_round n * c * 2 ^ 52 * (2 ^ 52 + 1)" by (simp only: ac_simps)
  also have "\<dots> \<le> p * (2 ^ 52 + 1) * (2 ^ 52 + 1)"
    unfolding p_def by (intro mult_le_mono1 f64_round_ge)
  finally have "n * (2 ^ 52 * 2 ^ 52 * c) \<le> p * ((2 ^ 52 + 1) * (2 ^ 52 + 1))" by (simp only: ac_simps)
  moreover have "(2 ^ 52 + 1) * (2 ^ 52 + 1) * (2 ^ 52) \<le> 2 ^ 52 * 2 ^ 52 * c" by (simp add: c_def)
  ultimately have "n * ((2 ^ 52 + 1) * (2 ^ 52 + 1) * 2 ^ 52) \<le> p * ((2 ^ 52 + 1) * (2 ^ 52 + 1))"
    by (meson le_trans mult_le_mono2)
  then have "(n * 2 ^ 52) * ((2 ^ 52 + 1) * (2 ^ 52 + 1)) \<le> p * ((2 ^ 52 + 1) * (2 ^ 52 + 1))"
    by (simp only: ac_simps)
  then have "n * 2 ^ 52 \<le> p" by (rule mult_le_cancel2 [THEN iffD1, rule_format]) simp
  then have "n * 2 ^ 52 \<le> p + 2 ^ 52 - 1" by simp
  then have "n \<le> (p + 2 ^ 52 - 1) div 2 ^ 52" by (simp only: less_eq_div_iff_mult_less_eq zero_less_power zero_less_numeral)
  with n show ?thesis
    unfolding mul_f64_ceil_def f64_1_2_def fst_conv snd_conv Let_def p_def c_def by (rule min.boundedI)
qed

section \<open>What truncation keeps\<close>

lemma approx_bytes_for_tokens_0 [simp]: "approx_bytes_for_tokens 0 = 0"
  by (simp add: approx_bytes_for_tokens_def saturating_mul_def)

lemma truncate_text_total:
  obtains out where "truncate_text s policy = Some out" "utf8_len s \<le> byte_budget policy \<longrightarrow> out = s"
    "s \<noteq> [] \<longrightarrow> out \<noteq> []"
proof (cases policy)
  case (Bytes n)
  obtain out where "truncate_with_byte_estimate s n False = Some out"
    "utf8_len s \<le> n \<longrightarrow> out = s" "s \<noteq> [] \<longrightarrow> out \<noteq> []"
    by (rule truncate_with_byte_estimate_total)
  with Bytes that show thesis by (simp add: truncate_text_def truncate_middle_chars_def)
next
  case (Tokens n)
  obtain out where "truncate_with_byte_estimate s (approx_bytes_for_tokens n) True = Some out"
    "utf8_len s \<le> approx_bytes_for_tokens n \<longrightarrow> out = s" "s \<noteq> [] \<longrightarrow> out \<noteq> []"
    by (rule truncate_with_byte_estimate_total)
  then have "\<exists>out. truncate_text s policy = Some out \<and> (utf8_len s \<le> byte_budget policy \<longrightarrow> out = s) \<and>
      (s \<noteq> [] \<longrightarrow> out \<noteq> [])"
    using Tokens by (auto simp: truncate_text_def truncate_middle_with_token_budget_def Let_def)
  then show thesis using that by blast
qed

text \<open>What becomes of one content item.\<close>

datatype outcome = Kept | Snipped rstring | Omitted

fun item_cost :: "truncation_policy \<Rightarrow> (rstring \<Rightarrow> nat) \<Rightarrow> function_call_output_content_item \<Rightarrow> nat" where
  "item_cost policy est (Out_InputText txt) = text_cost policy txt"
| "item_cost policy est (Out_InputAudio url) = audio_cost policy (est url)"
| "item_cost policy est (Out_InputImage _ _) = 0"
| "item_cost policy est (Out_EncryptedContent _) = 0"

fun outcome_ok :: "truncation_policy \<Rightarrow> nat \<Rightarrow> outcome \<Rightarrow> function_call_output_content_item \<Rightarrow> bool" where
  "outcome_ok policy budget Kept item = True"
| "outcome_ok policy budget (Snipped s) item =
     (\<exists>txt rem. item = Out_InputText txt \<and> 0 < rem \<and> rem \<le> budget \<and> rem < text_cost policy txt \<and>
        truncate_text txt (snippet_policy policy rem) = Some s)"
| "outcome_ok policy budget Omitted item =
     ((\<exists>txt. item = Out_InputText txt) \<or> (\<exists>url. item = Out_InputAudio url))"

fun render_outcome :: "outcome \<Rightarrow> function_call_output_content_item \<Rightarrow> function_call_output_content_item list" where
  "render_outcome Kept item = [item]"
| "render_outcome (Snipped s) item = [Out_InputText s]"
| "render_outcome Omitted item = []"

definition kept_cost :: "truncation_policy \<Rightarrow> (rstring \<Rightarrow> nat) \<Rightarrow> outcome \<Rightarrow> function_call_output_content_item \<Rightarrow> nat" where
  "kept_cost policy est d item = (if d = Kept then item_cost policy est item else 0)"

definition omitted_texts :: "outcome list \<Rightarrow> function_call_output_content_item list \<Rightarrow> nat" where
  "omitted_texts ds items = length (filter (\<lambda>(d, i). d = Omitted \<and> item_text i \<noteq> None) (zip ds items))"

definition omitted_audios :: "outcome list \<Rightarrow> function_call_output_content_item list \<Rightarrow> nat" where
  "omitted_audios ds items = length (filter (\<lambda>(d, i). d = Omitted \<and> item_text i = None) (zip ds items))"

definition snips :: "outcome list \<Rightarrow> nat" where
  "snips ds = length (filter (\<lambda>d. d \<noteq> Kept \<and> d \<noteq> Omitted) ds)"

definition item_outcomes ::
  "truncation_policy \<Rightarrow> (rstring \<Rightarrow> nat) \<Rightarrow> nat \<Rightarrow> function_call_output_content_item list \<Rightarrow> outcome list \<Rightarrow> bool" where
  "item_outcomes policy est budget items ds \<longleftrightarrow>
     list_all2 (outcome_ok policy budget) ds items \<and>
     sum_list (map2 (kept_cost policy est) ds items) \<le> budget \<and>
     snips ds \<le> (if budget = 0 then 0 else 1)"

lemma item_outcomes_Cons:
  assumes "item_outcomes policy est rem items ds" and "outcome_ok policy budget d item"
    and "kept_cost policy est d item + rem \<le> budget" and "d = Kept \<or> d = Omitted \<or> rem = 0 \<and> 0 < budget"
  shows "item_outcomes policy est budget (item # items) (d # ds)"
proof -
  have "outcome_ok policy rem d' i \<Longrightarrow> outcome_ok policy budget d' i" for d' i
    using assms(3) by (cases d') (auto, meson add_leD2 le_trans)
  then have "list_all2 (outcome_ok policy budget) ds items"
    using assms(1) unfolding item_outcomes_def by (blast intro: list_all2_mono)
  with assms show ?thesis
    by (auto simp: item_outcomes_def snips_def split: if_splits)
qed

lemma truncate_item_outcome:
  obtains d st' where "truncate_item policy est item st = Some st'"
    "outcome_ok policy (remaining_budget st) d item"
    "out_items st' = out_items st @ render_outcome d item"
    "kept_cost policy est d item + remaining_budget st' \<le> remaining_budget st"
    "d = Kept \<or> d = Omitted \<or> remaining_budget st' = 0 \<and> 0 < remaining_budget st"
    "omitted_text_items st' = omitted_text_items st + omitted_texts [d] [item]"
    "omitted_audio_items st' = omitted_audio_items st + omitted_audios [d] [item]"
    "if d = Kept then remaining_budget st' + item_cost policy est item = remaining_budget st
     else remaining_budget st \<le> item_cost policy est item"
proof (cases item)
  case (Out_InputText t)
  obtain s where s: "truncate_text t (snippet_policy policy (remaining_budget st)) = Some s" "t \<noteq> [] \<longrightarrow> s \<noteq> []"
    by (rule truncate_text_total)
  have ne: "remaining_budget st < text_cost policy t \<Longrightarrow> t \<noteq> []"
    by (cases policy) (auto simp: approx_token_count_def saturating_add_def APPROX_BYTES_PER_TOKEN_def)
  consider "remaining_budget st = 0" | "0 < remaining_budget st" "text_cost policy t \<le> remaining_budget st"
    | "0 < remaining_budget st" "remaining_budget st < text_cost policy t" by linarith
  then show thesis
  proof cases
    case 1
    with Out_InputText that [of "st\<lparr>omitted_text_items := omitted_text_items st + 1\<rparr>" Omitted] show thesis
      by (simp add: kept_cost_def omitted_texts_def omitted_audios_def)
  next
    case 2
    with Out_InputText that [of "st\<lparr>out_items := out_items st @ [Out_InputText t],
        remaining_budget := remaining_budget st - text_cost policy t\<rparr>" Kept] show thesis
      by (simp add: kept_cost_def omitted_texts_def omitted_audios_def Let_def)
  next
    case 3
    then have "outcome_ok policy (remaining_budget st) (Snipped s) item"
      using Out_InputText s(1) by auto
    with 3 Out_InputText s ne
      that [of "st\<lparr>out_items := out_items st @ [Out_InputText s], remaining_budget := 0\<rparr>" "Snipped s"]
    show thesis
      by (simp add: kept_cost_def omitted_texts_def omitted_audios_def Let_def del: outcome_ok.simps)
  qed
next
  case (Out_InputImage u d)
  with that [of "st\<lparr>out_items := out_items st @ [Out_InputImage u d]\<rparr>" Kept] show thesis by (simp add: kept_cost_def omitted_texts_def omitted_audios_def)
next
  case (Out_InputAudio u)
  show thesis
  proof (cases "audio_cost policy (est u) \<le> remaining_budget st")
    case True
    with Out_InputAudio that [of "st\<lparr>out_items := out_items st @ [Out_InputAudio u],
        remaining_budget := remaining_budget st - audio_cost policy (est u)\<rparr>" Kept] show thesis
      by (simp add: kept_cost_def omitted_texts_def omitted_audios_def Let_def)
  next
    case False
    with Out_InputAudio that [of "st\<lparr>omitted_audio_items := omitted_audio_items st + 1\<rparr>" Omitted] show thesis
      by (simp add: kept_cost_def omitted_texts_def omitted_audios_def Let_def)
  qed
next
  case (Out_EncryptedContent u)
  with that [of "st\<lparr>out_items := out_items st @ [Out_EncryptedContent u]\<rparr>" Kept] show thesis by (simp add: kept_cost_def omitted_texts_def omitted_audios_def)
qed

lemma omitted_Cons:
  "omitted_texts (d # ds) (i # items) = omitted_texts [d] [i] + omitted_texts ds items"
  "omitted_audios (d # ds) (i # items) = omitted_audios [d] [i] + omitted_audios ds items"
  by (simp_all add: omitted_texts_def omitted_audios_def)

lemma truncate_items_loop_outcomes:
  "\<exists>ds st'. truncate_items_loop policy est items st = Some st' \<and>
     item_outcomes policy est (remaining_budget st) items ds \<and>
     out_items st' = out_items st @ concat (map2 render_outcome ds items) \<and>
     omitted_text_items st' = omitted_text_items st + omitted_texts ds items \<and>
     omitted_audio_items st' = omitted_audio_items st + omitted_audios ds items \<and>
     (sum_list (map (item_cost policy est) items) < remaining_budget st \<longrightarrow> ds = replicate (length items) Kept)"
proof (induction items arbitrary: st)
  case Nil
  have "item_outcomes policy est (remaining_budget st) [] []" by (simp add: item_outcomes_def snips_def)
  then show ?case
    by (intro exI [of _ "[]"] exI [of _ st]) (simp add: omitted_texts_def omitted_audios_def)
next
  case (Cons item items)
  obtain d st1 where st1: "truncate_item policy est item st = Some st1"
    and ok: "outcome_ok policy (remaining_budget st) d item"
    and out1: "out_items st1 = out_items st @ render_outcome d item"
    and cost: "kept_cost policy est d item + remaining_budget st1 \<le> remaining_budget st"
    and d: "d = Kept \<or> d = Omitted \<or> remaining_budget st1 = 0 \<and> 0 < remaining_budget st"
    and om1: "omitted_text_items st1 = omitted_text_items st + omitted_texts [d] [item]"
      "omitted_audio_items st1 = omitted_audio_items st + omitted_audios [d] [item]"
    and kept: "if d = Kept then remaining_budget st1 + item_cost policy est item = remaining_budget st
      else remaining_budget st \<le> item_cost policy est item"
    by (rule truncate_item_outcome)
  from Cons.IH [of st1] obtain ds st' where ds: "truncate_items_loop policy est items st1 = Some st'"
    "item_outcomes policy est (remaining_budget st1) items ds"
    "out_items st' = out_items st1 @ concat (map2 render_outcome ds items)"
    "omitted_text_items st' = omitted_text_items st1 + omitted_texts ds items"
    "omitted_audio_items st' = omitted_audio_items st1 + omitted_audios ds items"
    "sum_list (map (item_cost policy est) items) < remaining_budget st1 \<longrightarrow> ds = replicate (length items) Kept"
    by blast
  have "item_outcomes policy est (remaining_budget st) (item # items) (d # ds)"
    by (rule item_outcomes_Cons [OF ds(2) ok cost d])
  moreover have "truncate_items_loop policy est (item # items) st = Some st'" using st1 ds(1) by simp
  moreover have "sum_list (map (item_cost policy est) (item # items)) < remaining_budget st \<Longrightarrow>
      d # ds = replicate (length (item # items)) Kept"
    using kept ds(6) by (cases "d = Kept") auto
  ultimately show ?case
    using ds(3-5) out1 om1 omitted_Cons [of d ds item items]
    by (intro exI [of _ "d # ds"] exI [of _ st']) simp
qed

definition omission_note :: "nat \<Rightarrow> string \<Rightarrow> function_call_output_content_item list" where
  "omission_note n what =
     (if 0 < n then [Out_InputText (lit ''[omitted '' @ show_nat n @ lit '' '' @ lit what @ lit '' items ...]'')] else [])"

lemma truncate_function_output_items_outcomes:
  "\<exists>ds. truncate_function_output_items_with_policy items policy est =
       Some (concat (map2 render_outcome ds items) @ omission_note (omitted_texts ds items) ''text'' @
             omission_note (omitted_audios ds items) ''audio'') \<and>
     item_outcomes policy est (initial_budget policy) items ds \<and>
     (sum_list (map (item_cost policy est) items) < initial_budget policy \<longrightarrow> ds = replicate (length items) Kept)"
proof -
  obtain ds st' where
    loop: "truncate_items_loop policy est items
       \<lparr>out_items = [], remaining_budget = initial_budget policy, omitted_text_items = 0, omitted_audio_items = 0\<rparr> = Some st'"
    and io: "item_outcomes policy est (initial_budget policy) items ds"
    and st': "out_items st' = concat (map2 render_outcome ds items)"
      "omitted_text_items st' = omitted_texts ds items" "omitted_audio_items st' = omitted_audios ds items"
    and all: "sum_list (map (item_cost policy est) items) < initial_budget policy \<longrightarrow> ds = replicate (length items) Kept"
    using truncate_items_loop_outcomes [of policy est items
        "\<lparr>out_items = [], remaining_budget = initial_budget policy, omitted_text_items = 0, omitted_audio_items = 0\<rparr>"]
    by auto
  have note_text: "lit '' text items ...]'' = lit '' '' @ lit ''text'' @ lit '' items ...]''"
    and note_audio: "lit '' audio items ...]'' = lit '' '' @ lit ''audio'' @ lit '' items ...]''"
    by (simp_all add: lit_def)
  have "truncate_function_output_items_with_policy items policy est =
      Some (concat (map2 render_outcome ds items) @ omission_note (omitted_texts ds items) ''text'' @
             omission_note (omitted_audios ds items) ''audio'')"
    unfolding truncate_function_output_items_with_policy_def loop Option.bind.bind_lunit st' omission_note_def
      note_text note_audio by (rule refl)
  with io all show ?thesis by blast
qed

text \<open>
  C33. Truncation of the content items of a tool output to a budget always returns. Every item is kept,
  cut to a snippet or omitted: images and encrypted items are always kept, only a text can be cut, at most
  one item is cut, and it is cut with what is left of the budget; the items kept whole cost no more than
  the budget together. Items come out in their order, followed by notes that state exactly how many texts
  and audios are left out. When all items together cost less than the budget the result is the list itself.
\<close>

theorem truncated_items_within_budget:
  "\<exists>ds. truncate_function_output_items_with_policy items policy est =
       Some (concat (map2 render_outcome ds items) @ omission_note (omitted_texts ds items) ''text'' @
             omission_note (omitted_audios ds items) ''audio'') \<and>
     list_all2 (outcome_ok policy (initial_budget policy)) ds items \<and> snips ds \<le> 1 \<and>
     sum_list (map2 (kept_cost policy est) ds items) \<le> initial_budget policy \<and>
     (initial_budget policy \<le> sum_list (map (item_cost policy est) items) \<or>
      truncate_function_output_items_with_policy items policy est = Some items)"
proof -
  obtain ds where ds: "truncate_function_output_items_with_policy items policy est =
       Some (concat (map2 render_outcome ds items) @ omission_note (omitted_texts ds items) ''text'' @
             omission_note (omitted_audios ds items) ''audio'')"
    "item_outcomes policy est (initial_budget policy) items ds"
    "sum_list (map (item_cost policy est) items) < initial_budget policy \<longrightarrow> ds = replicate (length items) Kept"
    using truncate_function_output_items_outcomes by blast
  have kept: "concat (map2 render_outcome (replicate (length xs) Kept) xs) = xs"
    "omitted_texts (replicate (length xs) Kept) xs = 0" "omitted_audios (replicate (length xs) Kept) xs = 0" for xs
    by (induction xs) (simp_all add: omitted_texts_def omitted_audios_def)
  have "snips ds \<le> 1" using ds(2) by (simp add: item_outcomes_def split: if_splits)
  moreover have "sum_list (map (item_cost policy est) items) < initial_budget policy \<Longrightarrow>
      truncate_function_output_items_with_policy items policy est = Some items"
    using ds(1,3) kept [of items] by (simp add: omission_note_def)
  ultimately show ?thesis using ds(1,2) unfolding item_outcomes_def by (metis not_le)
qed

end
