(* ===== verification/World_State.thy ===== *)
theory World_State
  imports Response_Items "HOL-Library.List_Lexorder"
begin

text \<open>
  \<^verbatim>\<open>codex-rs/core/src/context/world_state/mod.rs\<close>: the state shown to the model, its snapshots, and the
  merge patches (RFC 7386) by which rollouts record how a snapshot changes.

  \<^verbatim>\<open>serde_json::Value\<close> is \<open>json\<close>. An object is the list of its fields in the order of their keys. This is a canonical
  form: with its feature \<^verbatim>\<open>preserve_order\<close>, which a crate of the workspace enables, \<^verbatim>\<open>serde_json\<close> keeps the order of
  insertion, but equality of values, which is what the code observes here, ignores that order. \<open>'n\<close> stands for the numbers. Sections are implementations of
  a trait: a section is the record of the values its methods give.
\<close>

section \<open>JSON values\<close>

datatype 'n json =
    JNull
  | JBool bool
  | JNumber 'n
  | JString rstring
  | JArray "'n json list"
  | JObject "(rstring \<times> 'n json) list"

fun map_insert :: "rstring \<Rightarrow> 'v \<Rightarrow> (rstring \<times> 'v) list \<Rightarrow> (rstring \<times> 'v) list" where
  "map_insert k v [] = [(k, v)]"
| "map_insert k v ((k', v') # xs) =
     (if k < k' then (k, v) # (k', v') # xs
      else if k = k' then (k, v) # xs
      else (k', v') # map_insert k v xs)"

definition map_remove :: "rstring \<Rightarrow> (rstring \<times> 'v) list \<Rightarrow> (rstring \<times> 'v) list" where
  "map_remove k xs = filter (\<lambda>(k', _). k' \<noteq> k) xs"

fun as_object :: "'n json \<Rightarrow> (rstring \<times> 'n json) list option" where
  "as_object (JObject xs) = Some xs"
| "as_object _ = None"

lemma size_field [termination_simp]: "(k, v) \<in> set xs \<Longrightarrow> size v < Suc (size_list (size_prod (\<lambda>_. 0) size) xs)"
  using size_list_estimation' [of "(k, v)" xs "size v" "size_prod (\<lambda>_. 0) size"] by simp

section \<open>Merge patches\<close>

fun remove_null_object_fields :: "'n json \<Rightarrow> 'n json" where
  "remove_null_object_fields (JObject xs) =
     JObject (map (\<lambda>(k, v). (k, remove_null_object_fields v)) (filter (\<lambda>(k, v). v \<noteq> JNull) xs))"
| "remove_null_object_fields v = v"

definition removed_keys :: "(rstring \<times> 'n json) list option \<Rightarrow> (rstring \<times> 'n json) list \<Rightarrow> (rstring \<times> 'n json) list" where
  "removed_keys previous current =
     (case previous of
        None \<Rightarrow> []
      | Some ps \<Rightarrow> fold (\<lambda>(k, _) patch. if map_of current k = None then map_insert k JNull patch else patch) ps [])"

fun create_merge_patch :: "'n json \<Rightarrow> 'n json \<Rightarrow> 'n json option"
  and create_fields ::
    "(rstring \<times> 'n json) list option \<Rightarrow> (rstring \<times> 'n json) list \<Rightarrow> (rstring \<times> 'n json) list \<Rightarrow> (rstring \<times> 'n json) list"
where
  "create_merge_patch previous (JObject current) =
     (if previous = JObject current then None
      else Some (JObject (create_fields (as_object previous) current (removed_keys (as_object previous) current))))"
| "create_merge_patch previous current = (if previous = current then None else Some current)"
| "create_fields previous [] patch = patch"
| "create_fields previous ((key, current_value) # current) patch =
     create_fields previous current
       (case Option.bind previous (\<lambda>ps. map_of ps key) of
          None \<Rightarrow> map_insert key current_value patch
        | Some previous_value \<Rightarrow>
            (case create_merge_patch previous_value current_value of
               Some value_patch \<Rightarrow> map_insert key value_patch patch
             | None \<Rightarrow> patch))"

fun apply_merge_patch_value :: "'n json \<Rightarrow> 'n json \<Rightarrow> 'n json"
  and apply_fields :: "(rstring \<times> 'n json) list \<Rightarrow> (rstring \<times> 'n json) list \<Rightarrow> (rstring \<times> 'n json) list"
where
  "apply_merge_patch_value target (JObject patch) =
     JObject (apply_fields patch (case target of JObject ts \<Rightarrow> ts | _ \<Rightarrow> []))"
| "apply_merge_patch_value target patch = patch"
| "apply_fields [] target = target"
| "apply_fields ((key, v) # patch) target =
     apply_fields patch
       (if v = JNull then map_remove key target
        else map_insert key
               (apply_merge_patch_value (case map_of target key of Some t \<Rightarrow> t | None \<Rightarrow> JNull) v) target)"

section \<open>Snapshots and sections\<close>

type_synonym 'n snapshot = "(rstring \<times> 'n json) list"

definition into_value :: "'n snapshot \<Rightarrow> 'n json" where
  "into_value sections = JObject sections"

definition merge_patch_from :: "'n snapshot \<Rightarrow> 'n snapshot \<Rightarrow> 'n json option" where
  "merge_patch_from current previous = create_merge_patch (JObject previous) (JObject current)"

text \<open>\<open>None\<close>: the patched value is not an object and cannot be read back as a snapshot.\<close>

definition apply_merge_patch :: "'n snapshot \<Rightarrow> 'n json \<Rightarrow> 'n snapshot option" where
  "apply_merge_patch current patch = as_object (apply_merge_patch_value (into_value current) patch)"

datatype 'a previous_section_state = Absent | Unknown | Known 'a

text \<open>
  \<open>section_value\<close> is what a section serializes to, \<open>None\<close> when it is not persisted or cannot be serialized;
  \<open>section_render\<close> is \<^verbatim>\<open>render_diff\<close> with the conversion of the previous value to its type.
\<close>

record ('n, 'f) world_state_section =
  section_id :: rstring
  section_value :: "'n json option"
  has_retained_fragment_matcher :: bool
  matches_retained_fragment :: "rstring \<Rightarrow> rstring \<Rightarrow> bool"
  matches_legacy_fragment :: "rstring \<Rightarrow> rstring \<Rightarrow> bool"
  section_render :: "'n json previous_section_state \<Rightarrow> 'f option"

type_synonym ('n, 'f) world_state = "('n, 'f) world_state_section list"

definition section_snapshot :: "('n, 'f) world_state_section \<Rightarrow> 'n json option" where
  "section_snapshot s =
     (case section_value s of
        None \<Rightarrow> None
      | Some v \<Rightarrow> (let v' = remove_null_object_fields v in if v' = JNull then None else Some v'))"

definition contains_section :: "rstring \<Rightarrow> ('n, 'f) world_state \<Rightarrow> bool" where
  "contains_section i ws = list_ex (\<lambda>s. section_id s = i) ws"

text \<open>Adding a section asserts that its id is new; \<open>None\<close> is the failed assertion.\<close>

definition add_section :: "('n, 'f) world_state_section \<Rightarrow> ('n, 'f) world_state \<Rightarrow> ('n, 'f) world_state option" where
  "add_section s ws = (if contains_section (section_id s) ws then None else Some (ws @ [s]))"

fun index_of :: "rstring \<Rightarrow> ('n, 'f) world_state \<Rightarrow> nat option" where
  "index_of i [] = None"
| "index_of i (s # ws) = (if section_id s = i then Some 0 else map_option Suc (index_of i ws))"

definition add_extension_section ::
  "rstring \<Rightarrow> ('n, 'f) world_state_section \<Rightarrow> ('n, 'f) world_state \<Rightarrow> ('n, 'f) world_state option" where
  "add_extension_section permissions_id s ws =
     (if contains_section (section_id s) ws then None
      else
        (case (if section_id s = lit ''host_skills'' then index_of permissions_id ws else None) of
           Some index \<Rightarrow> vec_insert index s ws
         | None \<Rightarrow> Some (ws @ [s])))"

definition world_snapshot :: "('n, 'f) world_state \<Rightarrow> 'n snapshot" where
  "world_snapshot ws =
     fold (\<lambda>s acc. case section_snapshot s of Some v \<Rightarrow> map_insert (section_id s) v acc | None \<Rightarrow> acc) ws []"

definition render_with ::
  "(('n, 'f) world_state_section \<Rightarrow> 'n json previous_section_state) \<Rightarrow> ('n, 'f) world_state \<Rightarrow> 'f list" where
  "render_with previous ws = List.map_filter (\<lambda>s. section_render s (previous s)) ws"

definition render_full :: "('n, 'f) world_state \<Rightarrow> 'f list" where
  "render_full ws = render_with (\<lambda>_. Absent) ws"

definition render_diff :: "'n snapshot \<Rightarrow> ('n, 'f) world_state \<Rightarrow> 'f list" where
  "render_diff previous ws =
     render_with (\<lambda>s. case map_of previous (section_id s) of Some p \<Rightarrow> Known p | None \<Rightarrow> Absent) ws"

definition message_matches :: "(rstring \<Rightarrow> rstring \<Rightarrow> bool) \<Rightarrow> ('j, 'm) response_item \<Rightarrow> bool" where
  "message_matches f item =
     (case item of
        Message _ role content _ _ \<Rightarrow> list_ex (\<lambda>c. case c of InputText txt \<Rightarrow> f role txt | _ \<Rightarrow> False) content
      | _ \<Rightarrow> False)"

definition has_retained_fragment :: "('j, 'm) response_item list \<Rightarrow> ('n, 'f) world_state_section \<Rightarrow> bool" where
  "has_retained_fragment items s = list_ex (message_matches (matches_retained_fragment s)) items"

definition has_legacy_fragment :: "('j, 'm) response_item list \<Rightarrow> ('n, 'f) world_state_section \<Rightarrow> bool" where
  "has_legacy_fragment items s = list_ex (message_matches (matches_legacy_fragment s)) items"

definition render_history_diff ::
  "'n snapshot option \<Rightarrow> ('j, 'm) response_item list \<Rightarrow> ('n, 'f) world_state \<Rightarrow> 'f list" where
  "render_history_diff previous items ws =
     render_with
       (\<lambda>s. case Option.bind previous (\<lambda>p. map_of p (section_id s)) of
              Some p \<Rightarrow>
                if has_retained_fragment_matcher s \<and> \<not> has_retained_fragment items s then Absent else Known p
            | None \<Rightarrow> if has_legacy_fragment items s then Unknown else Absent) ws"


section \<open>Ordered maps\<close>

fun keys_ok :: "(rstring \<times> 'v) list \<Rightarrow> bool" where
  "keys_ok xs = sorted_wrt (<) (map fst xs)"

declare keys_ok.simps [simp del]

lemma keys_ok_Nil [simp]: "keys_ok []"
  and keys_ok_Cons: "keys_ok ((k, v) # xs) \<longleftrightarrow> (\<forall>k'\<in>fst ` set xs. k < k') \<and> keys_ok xs"
  by (simp_all add: keys_ok.simps)

lemma fst_set_map_insert: "fst ` set (map_insert k v xs) = insert k (fst ` set xs)"
  by (induction k v xs rule: map_insert.induct) auto

lemma keys_ok_map_insert: "keys_ok xs \<Longrightarrow> keys_ok (map_insert k v xs)"
proof (induction k v xs rule: map_insert.induct)
  case (2 k v k' v' xs)
  consider "k < k'" | "k = k'" | "k' < k" by (rule linorder_cases)
  then show ?case
  proof cases
    case 3
    with 2 show ?thesis by (auto simp: keys_ok_Cons fst_set_map_insert)
  qed (use 2 in \<open>auto simp: keys_ok_Cons\<close>)
qed (simp add: keys_ok_Cons)

lemma keys_ok_map_remove: "keys_ok xs \<Longrightarrow> keys_ok (map_remove k xs)"
  by (induction xs) (auto simp: map_remove_def keys_ok_Cons)

lemma map_of_map_insert [simp]: "keys_ok xs \<Longrightarrow> map_of (map_insert k v xs) = (map_of xs)(k \<mapsto> v)"
proof (induction k v xs rule: map_insert.induct)
  case (2 k v k' v' xs)
  then show ?case by (auto simp: keys_ok_Cons fun_upd_twist)
qed simp

lemma map_of_map_remove [simp]: "map_of (map_remove k xs) = (map_of xs)(k := None)"
  unfolding map_remove_def by (induction xs) auto

lemma keys_ok_eqI: "keys_ok xs \<Longrightarrow> keys_ok ys \<Longrightarrow> map_of xs = map_of ys \<Longrightarrow> xs = ys"
proof -
  assume ok: "keys_ok xs" "keys_ok ys" and eq: "map_of xs = map_of ys"
  have d: "distinct (map fst xs)" "distinct (map fst ys)"
    using ok by (simp_all add: keys_ok.simps strict_sorted_iff)
  then have "set xs = set ys" using eq by (simp add: map_of_inject_set)
  moreover have "sorted (map fst xs)" "sorted (map fst ys)" using ok by (simp_all add: keys_ok.simps strict_sorted_iff)
  moreover have "inj_on fst (set xs \<union> set ys)" using d(1) \<open>set xs = set ys\<close> by (simp add: distinct_map)
  ultimately show "xs = ys"
    using d by (intro map_sorted_distinct_set_unique [of fst])
qed

lemma keys_ok_distinct: "keys_ok xs \<Longrightarrow> distinct (map fst xs)"
  by (simp add: keys_ok.simps strict_sorted_iff)

section \<open>Applying a patch that was created\<close>

text \<open>Objects have ordered keys, at every depth; no field of an object is null, at every depth outside arrays.\<close>

fun json_ok :: "'n json \<Rightarrow> bool" where
  "json_ok (JObject xs) = (keys_ok xs \<and> (\<forall>(k, v)\<in>set xs. json_ok v))"
| "json_ok (JArray xs) = (\<forall>x\<in>set xs. json_ok x)"
| "json_ok _ = True"

fun null_free :: "'n json \<Rightarrow> bool" where
  "null_free (JObject xs) = (\<forall>(k, v)\<in>set xs. v \<noteq> JNull \<and> null_free v)"
| "null_free _ = True"

lemma keys_ok_apply_fields: "keys_ok ts \<Longrightarrow> keys_ok (apply_fields ps ts)"
proof (induction ps arbitrary: ts)
  case (Cons p ps)
  then show ?case by (cases p) (simp add: keys_ok_map_insert keys_ok_map_remove)
qed simp

lemma map_of_apply_fields:
  "keys_ok ts \<Longrightarrow> distinct (map fst ps) \<Longrightarrow>
   map_of (apply_fields ps ts) k =
     (case map_of ps k of
        None \<Rightarrow> map_of ts k
      | Some v \<Rightarrow> if v = JNull then None
                  else Some (apply_merge_patch_value (case map_of ts k of Some t \<Rightarrow> t | None \<Rightarrow> JNull) v))"
proof (induction ps arbitrary: ts)
  case (Cons p ps)
  obtain key v where p: "p = (key, v)" by force
  define ts' where "ts' = (if v = JNull then map_remove key ts
      else map_insert key (apply_merge_patch_value (case map_of ts key of Some t \<Rightarrow> t | None \<Rightarrow> JNull) v) ts)"
  have ok: "keys_ok ts'" using Cons.prems by (simp add: ts'_def keys_ok_map_insert keys_ok_map_remove)
  have key: "map_of ps key = None" using Cons.prems p by (simp add: map_of_eq_None_iff)
  have "map_of (apply_fields (p # ps) ts) k = map_of (apply_fields ps ts') k"
    using p by (simp add: ts'_def)
  also have "\<dots> = (case map_of ps k of
        None \<Rightarrow> map_of ts' k
      | Some v \<Rightarrow> if v = JNull then None
                  else Some (apply_merge_patch_value (case map_of ts' k of Some t \<Rightarrow> t | None \<Rightarrow> JNull) v))"
    using Cons.IH [OF ok] Cons.prems by simp
  finally have step: "map_of (apply_fields (p # ps) ts) k = (case map_of ps k of
        None \<Rightarrow> map_of ts' k
      | Some v \<Rightarrow> if v = JNull then None
                  else Some (apply_merge_patch_value (case map_of ts' k of Some t \<Rightarrow> t | None \<Rightarrow> JNull) v))" .
  have other: "k \<noteq> key \<Longrightarrow> map_of ts' k = map_of ts k" using Cons.prems(1) by (simp add: ts'_def)
  show ?case
  proof (cases "k = key")
    case True
    with step key p Cons.prems(1) show ?thesis by (simp add: ts'_def)
  next
    case False
    then show ?thesis unfolding step other [OF False] using p by simp
  qed
qed simp

lemma keys_ok_create_fields: "keys_ok patch \<Longrightarrow> keys_ok (create_fields ps cs patch)"
proof (induction cs arbitrary: patch)
  case (Cons c cs)
  then show ?case by (cases c) (auto simp: keys_ok_map_insert split: option.splits)
qed simp

lemma map_of_create_fields:
  "keys_ok patch \<Longrightarrow> distinct (map fst cs) \<Longrightarrow>
   map_of (create_fields ps cs patch) k =
     (case map_of cs k of
        None \<Rightarrow> map_of patch k
      | Some v \<Rightarrow>
          (case Option.bind ps (\<lambda>ps. map_of ps k) of
             None \<Rightarrow> Some v
           | Some pv \<Rightarrow> (case create_merge_patch pv v of Some q \<Rightarrow> Some q | None \<Rightarrow> map_of patch k)))"
proof (induction cs arbitrary: patch)
  case (Cons c cs)
  obtain key v where c: "c = (key, v)" by force
  define patch' where "patch' = (case Option.bind ps (\<lambda>ps. map_of ps key) of
          None \<Rightarrow> map_insert key v patch
        | Some previous_value \<Rightarrow>
            (case create_merge_patch previous_value v of
               Some value_patch \<Rightarrow> map_insert key value_patch patch
             | None \<Rightarrow> patch))"
  have ok: "keys_ok patch'" using Cons.prems by (auto simp: patch'_def keys_ok_map_insert split: option.splits)
  have key: "map_of cs key = None" using Cons.prems c by (simp add: map_of_eq_None_iff)
  have "map_of (create_fields ps (c # cs) patch) k = map_of (create_fields ps cs patch') k"
    using c by (simp add: patch'_def)
  also have "\<dots> = (case map_of cs k of
        None \<Rightarrow> map_of patch' k
      | Some v \<Rightarrow>
          (case Option.bind ps (\<lambda>ps. map_of ps k) of
             None \<Rightarrow> Some v
           | Some pv \<Rightarrow> (case create_merge_patch pv v of Some q \<Rightarrow> Some q | None \<Rightarrow> map_of patch' k)))"
    using Cons.IH [OF ok] Cons.prems by simp
  finally have step: "map_of (create_fields ps (c # cs) patch) k = (case map_of cs k of
        None \<Rightarrow> map_of patch' k
      | Some v \<Rightarrow>
          (case Option.bind ps (\<lambda>ps. map_of ps k) of
             None \<Rightarrow> Some v
           | Some pv \<Rightarrow> (case create_merge_patch pv v of Some q \<Rightarrow> Some q | None \<Rightarrow> map_of patch' k)))" .
  have other: "k \<noteq> key \<Longrightarrow> map_of patch' k = map_of patch k"
    using Cons.prems(1) by (auto simp: patch'_def split: option.splits)
  show ?case
  proof (cases "k = key")
    case True
    with step key c Cons.prems(1) show ?thesis by (auto simp: patch'_def split: option.splits)
  next
    case False
    then show ?thesis unfolding step other [OF False] using c by simp
  qed
qed simp

lemma removed_keys_spec:
  fixes ps :: "(rstring \<times> 'n json) list option"
  shows "keys_ok (removed_keys ps cs)"
    and "map_of (removed_keys ps cs) k =
     (if map_of cs k = None \<and> Option.bind ps (\<lambda>ps. map_of ps k) \<noteq> None then Some JNull else None)"
proof -
  have fold: "keys_ok acc \<Longrightarrow>
      keys_ok (fold (\<lambda>(k, _) patch. if map_of cs k = None then map_insert k JNull patch else patch) qs acc) \<and>
      map_of (fold (\<lambda>(k, _) patch. if map_of cs k = None then map_insert k JNull patch else patch) qs acc) k =
        (if map_of cs k = None \<and> map_of qs k \<noteq> None then Some JNull else map_of acc k)"
    for qs acc :: "(rstring \<times> 'n json) list"
  proof (induction qs arbitrary: acc)
    case (Cons q qs)
    then show ?case by (cases q) (auto simp: keys_ok_map_insert)
  qed simp
  show "keys_ok (removed_keys ps cs)"
    using fold [of "[]"] by (cases ps) (simp_all add: removed_keys_def)
  show "map_of (removed_keys ps cs) k =
     (if map_of cs k = None \<and> Option.bind ps (\<lambda>ps. map_of ps k) \<noteq> None then Some JNull else None)"
    using fold [of "[]"] by (cases ps) (simp_all add: removed_keys_def)
qed

lemma apply_fresh:
  "json_ok v \<Longrightarrow> null_free v \<Longrightarrow> as_object t = None \<Longrightarrow> apply_merge_patch_value t v = v"
proof (induction v arbitrary: t)
  case (JObject xs)
  have t: "(case t of JObject ts \<Rightarrow> ts | _ \<Rightarrow> []) = []" using JObject.prems by (cases t) auto
  have ok: "keys_ok xs" using JObject.prems by simp
  have "map_of (apply_fields xs []) k = map_of xs k" for k
  proof (cases "map_of xs k")
    case None
    with map_of_apply_fields [of "[]" xs k] keys_ok_distinct [OF ok] show ?thesis by simp
  next
    case (Some v)
    then have v: "(k, v) \<in> set xs" by (rule map_of_SomeD)
    have "apply_merge_patch_value JNull v = v"
      using JObject.IH [OF v, of v JNull] JObject.prems v by fastforce
    with Some v map_of_apply_fields [of "[]" xs k] keys_ok_distinct [OF ok] JObject.prems show ?thesis by auto
  qed
  then have "apply_fields xs [] = xs"
    by (intro keys_ok_eqI keys_ok_apply_fields ok) auto
  then show ?case using t by simp
qed simp_all

lemma create_merge_patch_not_null:
  "create_merge_patch p v = Some q \<Longrightarrow> v \<noteq> JNull \<Longrightarrow> q \<noteq> JNull"
  by (cases v) (auto split: if_splits)

lemma apply_create:
  "json_ok p \<Longrightarrow> json_ok v \<Longrightarrow> null_free v \<Longrightarrow>
   (case create_merge_patch p v of None \<Rightarrow> p = v | Some q \<Rightarrow> apply_merge_patch_value p q = v)"
proof (induction v arbitrary: p)
  case (JObject cs)
  show ?case
  proof (cases "p = JObject cs")
    case False
    define ps where "ps = (case p of JObject ts \<Rightarrow> ts | _ \<Rightarrow> [])"
    define patch where "patch = create_fields (as_object p) cs (removed_keys (as_object p) cs)"
    have psk: "Option.bind (as_object p) (\<lambda>ps. map_of ps k) = map_of ps k" for k
      by (cases p) (simp_all add: ps_def)
    have okp: "keys_ok ps" using JObject.prems by (cases p) (simp_all add: ps_def)
    have ps_ok: "map_of ps k = Some pv \<Longrightarrow> json_ok pv" for k pv
      using JObject.prems(1) by (cases p) (auto simp: ps_def dest: map_of_SomeD)
    have okc: "keys_ok cs" using JObject.prems by simp
    have okpatch: "keys_ok patch" unfolding patch_def by (intro keys_ok_create_fields removed_keys_spec(1))
    have mpatch: "map_of patch k = (case map_of cs k of
        None \<Rightarrow> (if map_of ps k \<noteq> None then Some JNull else None)
      | Some v \<Rightarrow> (case map_of ps k of None \<Rightarrow> Some v | Some pv \<Rightarrow> create_merge_patch pv v))" for k
      using map_of_create_fields [of "removed_keys (as_object p) cs" cs "as_object p" k,
          OF removed_keys_spec(1) keys_ok_distinct [OF okc]]
      unfolding psk patch_def removed_keys_spec(2) by (auto split: option.splits)
    have "map_of (apply_fields patch ps) k = map_of cs k" for k
    proof (cases "map_of cs k")
      case None
      then show ?thesis
        using map_of_apply_fields [OF okp keys_ok_distinct [OF okpatch], of k] mpatch [of k] by (auto split: if_splits)
    next
      case (Some v)
      then have v: "(k, v) \<in> set cs" by (rule map_of_SomeD)
      with JObject.prems have vok: "json_ok v" "null_free v" "v \<noteq> JNull" by auto
      show ?thesis
      proof (cases "map_of ps k")
        case None
        then show ?thesis
          using map_of_apply_fields [OF okp keys_ok_distinct [OF okpatch], of k] mpatch [of k] Some vok
            apply_fresh [of v JNull] by simp
      next
        case (Some pv)
        with JObject.IH [OF v, of v pv] vok ps_ok
        have ih: "case create_merge_patch pv v of None \<Rightarrow> pv = v | Some q \<Rightarrow> apply_merge_patch_value pv q = v"
          by simp
        show ?thesis
          using map_of_apply_fields [OF okp keys_ok_distinct [OF okpatch], of k] mpatch [of k] Some \<open>map_of cs k = Some v\<close> ih
            create_merge_patch_not_null [of pv v] vok by (auto split: option.splits)
      qed
    qed
    then have "apply_fields patch ps = cs"
      by (intro keys_ok_eqI keys_ok_apply_fields okp okc) auto
    then show ?thesis using False by (simp add: patch_def ps_def)
  qed simp
qed simp_all

lemma remove_null_not_null: "remove_null_object_fields v = JNull \<longleftrightarrow> v = JNull"
  by (cases v) auto

lemma null_free_remove_null: "null_free (remove_null_object_fields v)"
proof (induction v)
  case (JObject xs)
  then show ?case by (fastforce simp: remove_null_not_null)
qed simp_all

lemma keys_ok_filter_map:
  "keys_ok xs \<Longrightarrow> keys_ok (map (\<lambda>(k, v). (k, f v)) (filter P xs))"
proof (induction xs)
  case (Cons x xs)
  then show ?case by (cases x) (force simp: keys_ok_Cons)
qed simp

lemma json_ok_remove_null: "json_ok v \<Longrightarrow> json_ok (remove_null_object_fields v)"
proof (induction v)
  case (JObject xs)
  have "json_ok (remove_null_object_fields v)" if "(k, v) \<in> set xs" for k v
    using JObject.IH [OF that, of v] JObject.prems that by fastforce
  with JObject.prems show ?case by (auto simp: keys_ok_filter_map)
qed simp_all

lemma world_snapshot_ok:
  assumes "\<forall>s\<in>set ws. \<forall>v. section_value s = Some v \<longrightarrow> json_ok v"
  shows "json_ok (JObject (world_snapshot ws))" and "null_free (JObject (world_snapshot ws))"
proof -
  define step :: "('a, 'b) world_state_section \<Rightarrow> 'a snapshot \<Rightarrow> 'a snapshot" where
    "step = (\<lambda>s acc. case section_snapshot s of Some v \<Rightarrow> map_insert (section_id s) v acc | None \<Rightarrow> acc)"
  have set_insert: "set (map_insert k v xs) \<subseteq> insert (k, v) (set xs)" for k and v :: "'a json" and xs
    by (induction k v xs rule: map_insert.induct) auto
  have sec: "json_ok v \<and> null_free v \<and> v \<noteq> JNull" if "s \<in> set ws" "section_snapshot s = Some v" for s v
    using that assms
    by (auto simp: section_snapshot_def Let_def null_free_remove_null json_ok_remove_null split: option.splits if_splits)
  have run: "json_ok (JObject acc) \<and> null_free (JObject acc) \<Longrightarrow> set xs \<subseteq> set ws \<Longrightarrow>
      json_ok (JObject (fold step xs acc)) \<and> null_free (JObject (fold step xs acc))" for xs acc
  proof (induction xs arbitrary: acc)
    case (Cons x xs)
    have "json_ok (JObject (step x acc)) \<and> null_free (JObject (step x acc))"
    proof (cases "section_snapshot x")
      case (Some v)
      have "x \<in> set ws" using Cons.prems(2) by simp
      then have v: "json_ok v \<and> null_free v \<and> v \<noteq> JNull" using Some by (rule sec)
      have acc: "\<forall>y\<in>set acc. json_ok (snd y) \<and> snd y \<noteq> JNull \<and> null_free (snd y)" and ok: "keys_ok acc"
        using Cons.prems by (auto simp: case_prod_beta)
      have "\<forall>y\<in>set (map_insert (section_id x) v acc). json_ok (snd y) \<and> snd y \<noteq> JNull \<and> null_free (snd y)"
        using set_insert [of "section_id x" v acc] acc v
        by (intro ballI) (drule (1) subsetD, elim insertE, simp, blast)
      then show ?thesis
        using ok Some by (simp add: step_def keys_ok_map_insert case_prod_beta)
    next
      case None
      then show ?thesis using Cons.prems(1) unfolding step_def by (simp only: option.case)
    qed
    moreover have "set xs \<subseteq> set ws" using Cons.prems(2) by simp
    ultimately have "json_ok (JObject (fold step xs (step x acc))) \<and> null_free (JObject (fold step xs (step x acc)))"
      by (rule Cons.IH)
    then show ?case by (simp only: fold_Cons o_def)
  qed (simp only: fold_Nil id_def)
  have "json_ok (JObject (fold step ws [])) \<and> null_free (JObject (fold step ws []))"
    by (rule run) simp_all
  then show "json_ok (JObject (world_snapshot ws))" "null_free (JObject (world_snapshot ws))"
    unfolding world_snapshot_def step_def by blast+
qed

text \<open>
  C6. A rollout that records how the state shown to the model changes can be replayed: the merge patch from the
  snapshot of one world state to the snapshot of another, applied to the first, gives the second; no patch is
  recorded exactly when the snapshots are equal. This rests on the removal of null fields from snapshots.
\<close>

theorem snapshot_patch_roundtrip:
  assumes "\<forall>s\<in>set old \<union> set new. \<forall>v. section_value s = Some v \<longrightarrow> json_ok v"
  shows "case merge_patch_from (world_snapshot new) (world_snapshot old) of
      None \<Rightarrow> world_snapshot old = world_snapshot new
    | Some patch \<Rightarrow> world_snapshot old \<noteq> world_snapshot new \<and>
        apply_merge_patch (world_snapshot old) patch = Some (world_snapshot new)"
proof -
  from assms have "\<forall>s\<in>set old. \<forall>v. section_value s = Some v \<longrightarrow> json_ok v"
    "\<forall>s\<in>set new. \<forall>v. section_value s = Some v \<longrightarrow> json_ok v"
    by blast+
  note this [THEN world_snapshot_ok(1)] this(2) [THEN world_snapshot_ok(2)]
  then have "case merge_patch_from (world_snapshot new) (world_snapshot old) of
      None \<Rightarrow> JObject (world_snapshot old) = JObject (world_snapshot new)
    | Some q \<Rightarrow> apply_merge_patch_value (JObject (world_snapshot old)) q = JObject (world_snapshot new)"
    unfolding merge_patch_from_def by (rule apply_create)
  then show ?thesis
    by (auto simp: apply_merge_patch_def into_value_def merge_patch_from_def split: option.splits if_splits)
qed

definition sample_section :: "nat json \<Rightarrow> (nat, unit) world_state_section" where
  "sample_section v =
     \<lparr>section_id = lit ''env'', section_value = Some v, has_retained_fragment_matcher = False,
      matches_retained_fragment = (\<lambda>_ _. False), matches_legacy_fragment = (\<lambda>_ _. False), section_render = (\<lambda>_. None)\<rparr>"

theorem snapshot_patch_roundtrip_witness:
  "let a = JObject [(lit ''cwd'', JString (lit ''x'')), (lit ''shell'', JNull), (lit ''t'', JNumber 1)];
       b = JObject [(lit ''cwd'', JString (lit ''x'')), (lit ''t'', JNumber 2)];
       old = [sample_section a]; new = [sample_section b] in
   (\<forall>s\<in>set old \<union> set new. \<forall>v. section_value s = Some v \<longrightarrow> json_ok v) \<and>
   merge_patch_from (world_snapshot new) (world_snapshot old) =
     Some (JObject [(lit ''env'', JObject [(lit ''t'', JNumber 2)])]) \<and>
   apply_merge_patch (world_snapshot old) (JObject [(lit ''env'', JObject [(lit ''t'', JNumber 2)])]) =
     Some (world_snapshot new)"
proof -
  define a :: "nat json" where
    "a = JObject [(lit ''cwd'', JString (lit ''x'')), (lit ''shell'', JNull), (lit ''t'', JNumber 1)]"
  define b :: "nat json" where "b = JObject [(lit ''cwd'', JString (lit ''x'')), (lit ''t'', JNumber 2)]"
  have ok: "\<forall>s\<in>set [sample_section a] \<union> set [sample_section b]. \<forall>v. section_value s = Some v \<longrightarrow> json_ok v"
    by (auto simp: sample_section_def a_def b_def keys_ok_Cons lit_def)
  have m: "merge_patch_from (world_snapshot [sample_section b]) (world_snapshot [sample_section a]) =
     Some (JObject [(lit ''env'', JObject [(lit ''t'', JNumber 2)])])"
    unfolding a_def b_def by code_simp
  show ?thesis
    using snapshot_patch_roundtrip [OF ok] ok m unfolding Let_def a_def [symmetric] b_def [symmetric] by simp
qed

end
