(* ===== verification/History.thy ===== *)
theory History
  imports Normalize Output_Truncation World_State
begin

text \<open>
  \<^verbatim>\<open>codex-rs/core/src/context_manager/history.rs\<close>: the history of a thread, with the token usage of
  \<^verbatim>\<open>codex-rs/protocol/src/protocol.rs\<close>.

  Token counts are \<^verbatim>\<open>i64\<close>: integers whose plain additions wrap, as they do in a release build, and whose
  saturating additions stop at the bounds. The number of tokens of an audio clip, the length of the JSON text of
  an item, the size of an image and the recognition of context fragments and of inter-agent messages are code of
  other crates: parameters, collected in \<open>history_env\<close>. Caches of estimates are left out, they only save time.
\<close>

section \<open>Token usage\<close>

definition wrap_i64 :: "int \<Rightarrow> int" where
  "wrap_i64 x = (x + 2 ^ 63) mod 2 ^ 64 - 2 ^ 63"

definition i64_saturate :: "int \<Rightarrow> int" where
  "i64_saturate x = max (- (2 ^ 63)) (min i64_max x)"

record token_usage =
  input_tokens :: int
  cached_input_tokens :: int
  cache_write_input_tokens :: int
  output_tokens :: int
  reasoning_output_tokens :: int
  total_tokens :: int

definition default_usage :: token_usage where
  "default_usage =
     \<lparr>input_tokens = 0, cached_input_tokens = 0, cache_write_input_tokens = 0, output_tokens = 0,
      reasoning_output_tokens = 0, total_tokens = 0\<rparr>"

record token_usage_info =
  total_token_usage :: token_usage
  last_token_usage :: token_usage
  model_context_window :: "int option"

definition usage_is_zero :: "token_usage \<Rightarrow> bool" where
  "usage_is_zero u \<longleftrightarrow> total_tokens u = 0"

definition cached_input :: "token_usage \<Rightarrow> int" where
  "cached_input u = max (cached_input_tokens u) 0"

definition non_cached_input :: "token_usage \<Rightarrow> int" where
  "non_cached_input u = max (wrap_i64 (input_tokens u - cached_input u)) 0"

definition blended_total :: "token_usage \<Rightarrow> int" where
  "blended_total u = max (wrap_i64 (non_cached_input u + max (output_tokens u) 0)) 0"

definition usage_add_assign :: "token_usage \<Rightarrow> token_usage \<Rightarrow> token_usage" where
  "usage_add_assign u other =
     \<lparr>input_tokens = wrap_i64 (input_tokens u + input_tokens other),
      cached_input_tokens = wrap_i64 (cached_input_tokens u + cached_input_tokens other),
      cache_write_input_tokens = wrap_i64 (cache_write_input_tokens u + cache_write_input_tokens other),
      output_tokens = wrap_i64 (output_tokens u + output_tokens other),
      reasoning_output_tokens = wrap_i64 (reasoning_output_tokens u + reasoning_output_tokens other),
      total_tokens = wrap_i64 (total_tokens u + total_tokens other)\<rparr>"

definition append_last_usage :: "token_usage \<Rightarrow> token_usage_info \<Rightarrow> token_usage_info" where
  "append_last_usage last_usage info =
     info\<lparr>total_token_usage := usage_add_assign (total_token_usage info) last_usage,
          last_token_usage := last_usage\<rparr>"

definition new_or_append ::
  "token_usage_info option \<Rightarrow> token_usage option \<Rightarrow> int option \<Rightarrow> token_usage_info option" where
  "new_or_append info last_usage window =
     (if info = None \<and> last_usage = None then None
      else
        (let info = (case info of
               Some i \<Rightarrow> i
             | None \<Rightarrow> \<lparr>total_token_usage = default_usage, last_token_usage = default_usage, model_context_window = window\<rparr>);
             info = (case last_usage of Some l \<Rightarrow> append_last_usage l info | None \<Rightarrow> info);
             info = (case window of Some w \<Rightarrow> info\<lparr>model_context_window := Some w\<rparr> | None \<Rightarrow> info)
         in Some info))"

definition fill_to_context_window :: "int \<Rightarrow> token_usage_info \<Rightarrow> token_usage_info" where
  "fill_to_context_window window info =
     (let previous_total = total_tokens (total_token_usage info);
          delta = max (wrap_i64 (window - previous_total)) 0
      in info\<lparr>model_context_window := Some window,
              total_token_usage := default_usage\<lparr>total_tokens := window\<rparr>,
              last_token_usage := default_usage\<lparr>total_tokens := delta\<rparr>\<rparr>)"

definition full_context_window :: "int \<Rightarrow> token_usage_info" where
  "full_context_window window =
     fill_to_context_window window
       \<lparr>total_token_usage = default_usage, last_token_usage = default_usage, model_context_window = Some window\<rparr>"


section \<open>Classification of items\<close>

fun is_api_message :: "('j, 'm) response_item \<Rightarrow> bool" where
  "is_api_message (Message _ role _ _ _) = (role \<noteq> lit ''system'')"
| "is_api_message CompactionTrigger = False"
| "is_api_message Other = False"
| "is_api_message _ = True"

fun is_model_generated_item :: "('j, 'm) response_item \<Rightarrow> bool" where
  "is_model_generated_item (Message _ role _ _ _) = (role = lit ''assistant'')"
| "is_model_generated_item (Reasoning _ _ _ _ _) = True"
| "is_model_generated_item (FunctionCall _ _ _ _ _ _ _) = True"
| "is_model_generated_item (ToolSearchCall _ _ _ _ _ _) = True"
| "is_model_generated_item (WebSearchCall _ _ _ _) = True"
| "is_model_generated_item (ImageGenerationCall _ _ _ _ _) = True"
| "is_model_generated_item (CustomToolCall _ _ _ _ _ _ _) = True"
| "is_model_generated_item (LocalShellCall _ _ _ _ _) = True"
| "is_model_generated_item (Compaction _ _ _) = True"
| "is_model_generated_item (ContextCompaction _ _ _) = True"
| "is_model_generated_item _ = False"

record ('j, 'm) history_env =
  hook_prompt :: "rstring \<Rightarrow> bool"
  standard_fragment :: "rstring \<Rightarrow> bool"
  inter_agent_json :: "rstring \<Rightarrow> bool"
  estimate_audio_token_count :: "rstring \<Rightarrow> nat"
  serialized_len :: "('j, 'm) response_item \<Rightarrow> nat option"
  image_dimensions :: "rstring \<Rightarrow> (nat \<times> nat) option"

definition is_inter_agent_instruction_content :: "('j, 'm) history_env \<Rightarrow> content_item list \<Rightarrow> bool" where
  "is_inter_agent_instruction_content E content =
     (case content of
        [InputText txt] \<Rightarrow> inter_agent_json E txt
      | [OutputText txt] \<Rightarrow> inter_agent_json E txt
      | _ \<Rightarrow> False)"

definition contextual_user :: "('j, 'm) history_env \<Rightarrow> content_item list \<Rightarrow> bool" where
  "contextual_user E content = is_contextual_user_message_content (hook_prompt E) (standard_fragment E) content"

fun is_user_turn_boundary :: "('j, 'm) history_env \<Rightarrow> ('j, 'm) response_item \<Rightarrow> bool" where
  "is_user_turn_boundary E (AgentMessage _ _ _ _ _) = True"
| "is_user_turn_boundary E (Message _ role content _ _) =
     ((role = lit ''user'' \<and> \<not> contextual_user E content) \<or>
      (role = lit ''assistant'' \<and> is_inter_agent_instruction_content E content))"
| "is_user_turn_boundary E _ = False"

fun positions_from :: "('a \<Rightarrow> bool) \<Rightarrow> nat \<Rightarrow> 'a list \<Rightarrow> nat list" where
  "positions_from f idx [] = []"
| "positions_from f idx (x # xs) = (if f x then idx # positions_from f (Suc idx) xs else positions_from f (Suc idx) xs)"

definition user_message_positions :: "('j, 'm) history_env \<Rightarrow> ('j, 'm) response_item list \<Rightarrow> nat list" where
  "user_message_positions E items = positions_from (is_user_turn_boundary E) 0 items"


section \<open>The context manager\<close>

record ('j, 'm, 'c, 'n) context_manager =
  history_items :: "('j, 'm) response_item list"
  history_version :: nat
  token_info :: "token_usage_info option"
  reference_context_item :: "'c option"
  world_state_baseline :: "'n snapshot option"

definition manager_new :: "('j, 'm, 'c, 'n) context_manager" where
  "manager_new =
     \<lparr>history_items = [], history_version = 0, token_info = new_or_append None None None,
      reference_context_item = None, world_state_baseline = None\<rparr>"

definition set_token_info :: "token_usage_info option \<Rightarrow> ('j, 'm, 'c, 'n) context_manager \<Rightarrow> ('j, 'm, 'c, 'n) context_manager" where
  "set_token_info info cm = cm\<lparr>token_info := info\<rparr>"

definition set_reference_context_item :: "'c option \<Rightarrow> ('j, 'm, 'c, 'n) context_manager \<Rightarrow> ('j, 'm, 'c, 'n) context_manager" where
  "set_reference_context_item item cm = cm\<lparr>reference_context_item := item\<rparr>"

definition set_world_state_baseline :: "'n snapshot \<Rightarrow> ('j, 'm, 'c, 'n) context_manager \<Rightarrow> ('j, 'm, 'c, 'n) context_manager" where
  "set_world_state_baseline snap cm = cm\<lparr>world_state_baseline := Some snap\<rparr>"

record 'n world_state_item =
  full :: bool
  state :: "'n json"

definition update_world_state ::
  "('n, 'f) world_state \<Rightarrow> ('j, 'm, 'c, 'n) context_manager \<Rightarrow>
   ('f list \<times> 'n world_state_item option) \<times> ('j, 'm, 'c, 'n) context_manager" where
  "update_world_state ws cm =
     (let snap = world_snapshot ws;
          fragments = render_history_diff (world_state_baseline cm) (history_items cm) ws;
          rollout_item =
            (case world_state_baseline cm of
               None \<Rightarrow> Some \<lparr>full = True, state = into_value snap\<rparr>
             | Some previous \<Rightarrow> map_option (\<lambda>p. \<lparr>full = False, state = p\<rparr>) (merge_patch_from snap previous))
      in ((fragments, rollout_item), cm\<lparr>world_state_baseline := Some snap\<rparr>))"

definition set_token_usage_full :: "int \<Rightarrow> ('j, 'm, 'c, 'n) context_manager \<Rightarrow> ('j, 'm, 'c, 'n) context_manager" where
  "set_token_usage_full window cm =
     (case token_info cm of
        Some info \<Rightarrow> cm\<lparr>token_info := Some (fill_to_context_window window info)\<rparr>
      | None \<Rightarrow> cm\<lparr>token_info := Some (full_context_window window)\<rparr>)"

definition update_token_info ::
  "token_usage \<Rightarrow> int option \<Rightarrow> ('j, 'm, 'c, 'n) context_manager \<Rightarrow> ('j, 'm, 'c, 'n) context_manager" where
  "update_token_info usage window cm =
     cm\<lparr>token_info := new_or_append (token_info cm) (Some usage) window\<rparr>"

definition truncate_function_output_payload ::
  "('j, 'm) history_env \<Rightarrow> function_call_output_payload \<Rightarrow> truncation_policy \<Rightarrow> function_call_output_payload option" where
  "truncate_function_output_payload E output policy =
     do {
       b \<leftarrow> (case body output of
               Text_Body content \<Rightarrow> map_option Text_Body (truncate_text content policy)
             | ContentItems items \<Rightarrow>
                 map_option ContentItems
                   (truncate_function_output_items_with_policy items policy (estimate_audio_token_count E)));
       Some \<lparr>body = b, success = success output\<rparr>
     }"

definition process_item ::
  "('j, 'm) history_env \<Rightarrow> truncation_policy \<Rightarrow> ('j, 'm) response_item \<Rightarrow> ('j, 'm) response_item option" where
  "process_item E policy item =
     (let policy_with_serialization_budget = policy_mul policy f64_1_2 in
      case item of
        FunctionCallOutput i call_id output metadata \<Rightarrow>
          map_option (\<lambda>p. FunctionCallOutput i call_id p metadata)
            (truncate_function_output_payload E output policy_with_serialization_budget)
      | CustomToolCallOutput i call_id name output metadata \<Rightarrow>
          map_option (\<lambda>p. CustomToolCallOutput i call_id name p metadata)
            (truncate_function_output_payload E output policy_with_serialization_budget)
      | _ \<Rightarrow> Some item)"

fun record_loop ::
  "('j, 'm) history_env \<Rightarrow> truncation_policy \<Rightarrow> ('j, 'm) response_item list \<Rightarrow> ('j, 'm) response_item list \<Rightarrow>
   ('j, 'm) response_item list option" where
  "record_loop E policy [] acc = Some acc"
| "record_loop E policy (item # new_items) acc =
     (if \<not> is_api_message item then record_loop E policy new_items acc
      else do {
        processed \<leftarrow> process_item E policy item;
        record_loop E policy new_items (acc @ [processed])
      })"

definition record_items ::
  "('j, 'm) history_env \<Rightarrow> ('j, 'm) response_item list \<Rightarrow> truncation_policy \<Rightarrow> ('j, 'm, 'c, 'n) context_manager \<Rightarrow>
   ('j, 'm, 'c, 'n) context_manager option" where
  "record_items E new_items policy cm =
     map_option (\<lambda>xs. cm\<lparr>history_items := xs\<rparr>) (record_loop E policy new_items (history_items cm))"

definition for_prompt ::
  "bool \<Rightarrow> (rstring \<Rightarrow> rstring) \<Rightarrow> input_modality list \<Rightarrow> ('j, 'm, 'c, 'n) context_manager \<Rightarrow>
   ('j, 'm) response_item list option" where
  "for_prompt debug uuid mods cm = normalize_history debug uuid mods (history_items cm)"

definition remove_first_item :: "('j, 'm, 'c, 'n) context_manager \<Rightarrow> ('j, 'm, 'c, 'n) context_manager" where
  "remove_first_item cm =
     (case history_items cm of
        [] \<Rightarrow> cm
      | removed # rest \<Rightarrow>
          cm\<lparr>history_items := remove_corresponding_for removed rest, world_state_baseline := None\<rparr>)"

definition manager_replace ::
  "('j, 'm) response_item list \<Rightarrow> ('j, 'm, 'c, 'n) context_manager \<Rightarrow> ('j, 'm, 'c, 'n) context_manager" where
  "manager_replace new_items cm =
     cm\<lparr>history_items := new_items, history_version := saturating_add (history_version cm) 1,
        world_state_baseline := None\<rparr>"

section \<open>Rollback\<close>

text \<open>\<open>None\<close> is an index past the end of the snapshot, a panic.\<close>

fun trim_pre_turn_context_updates ::
  "('j, 'm) history_env \<Rightarrow> ('j, 'm) response_item list \<Rightarrow> nat \<Rightarrow> nat \<Rightarrow> 'c option \<Rightarrow> (nat \<times> 'c option) option" where
  "trim_pre_turn_context_updates E snap first_turn 0 reference = Some (0, reference)"
| "trim_pre_turn_context_updates E snap first_turn (Suc c) reference =
     (if Suc c \<le> first_turn then Some (Suc c, reference)
      else if length snap \<le> c then None
      else
        (case snap ! c of
           Message _ role content _ _ \<Rightarrow>
             if role = lit ''developer'' \<and> is_contextual_dev_message_content content then
               trim_pre_turn_context_updates E snap first_turn c
                 (if has_non_contextual_dev_message_content content then None else reference)
             else if role = lit ''user'' \<and> contextual_user E content then
               trim_pre_turn_context_updates E snap first_turn c reference
             else Some (Suc c, reference)
         | _ \<Rightarrow> Some (Suc c, reference)))"

definition drop_last_n_user_turns ::
  "('j, 'm) history_env \<Rightarrow> nat \<Rightarrow> ('j, 'm, 'c, 'n) context_manager \<Rightarrow> ('j, 'm, 'c, 'n) context_manager option" where
  "drop_last_n_user_turns E num_turns cm =
     (if num_turns = 0 then Some cm
      else
        (let snap = history_items cm;
             user_positions = user_message_positions E snap
         in case user_positions of
              [] \<Rightarrow> Some (manager_replace snap cm)
            | first_turn # _ \<Rightarrow>
                (let cut_idx = (if length user_positions \<le> num_turns then first_turn
                                else user_positions ! (length user_positions - num_turns))
                 in do {
                   (cut_idx, reference) \<leftarrow>
                     trim_pre_turn_context_updates E snap first_turn cut_idx (reference_context_item cm);
                   if cut_idx \<le> length snap
                   then Some (manager_replace (take cut_idx snap) (cm\<lparr>reference_context_item := reference\<rparr>))
                   else None
                 })))"


section \<open>Estimates\<close>

definition estimate_reasoning_length :: "nat \<Rightarrow> nat" where
  "estimate_reasoning_length encoded_len = saturating_mul encoded_len 3 div 4 - 650"

definition estimate_encrypted_function_output_length :: "nat \<Rightarrow> nat" where
  "estimate_encrypted_function_output_length encoded_len = (saturating_mul encoded_len 9 + 15) div 16"

definition RESIZED_IMAGE_BYTES_ESTIMATE :: int where
  "RESIZED_IMAGE_BYTES_ESTIMATE = 7373"

definition ORIGINAL_IMAGE_PATCH_SIZE :: nat where
  "ORIGINAL_IMAGE_PATCH_SIZE = 32"

definition ORIGINAL_IMAGE_MAX_PATCHES :: nat where
  "ORIGINAL_IMAGE_MAX_PATCHES = 10000"

definition has_prefix_ignore_case :: "rstring \<Rightarrow> rstring \<Rightarrow> bool" where
  "has_prefix_ignore_case pre s =
     (case byte_split (utf8_len pre) s of Some (p, _) \<Rightarrow> eq_ignore_ascii_case p pre | None \<Rightarrow> False)"

definition parse_base64_data_url :: "rstring \<Rightarrow> rstring \<Rightarrow> rstring option" where
  "parse_base64_data_url url media_type_prefix =
     (if \<not> has_prefix_ignore_case (lit ''data:'') url then None
      else do {
        (metadata, payload) \<leftarrow> split_once 44 url;
        (_, metadata_without_scheme) \<leftarrow> byte_split 5 metadata;
        let metadata_parts = split_on 59 metadata_without_scheme;
        let mime_type = hd metadata_parts;
        let has_base64_marker = list_ex (\<lambda>part. eq_ignore_ascii_case part (lit ''base64'')) (tl metadata_parts);
        if \<not> has_prefix_ignore_case media_type_prefix mime_type then None
        else if \<not> has_base64_marker then None
        else Some payload
      })"

definition parse_base64_image_data_url :: "rstring \<Rightarrow> rstring option" where
  "parse_base64_image_data_url url = parse_base64_data_url url (lit ''image/'')"

definition parse_base64_audio_data_url :: "rstring \<Rightarrow> rstring option" where
  "parse_base64_audio_data_url url = parse_base64_data_url url (lit ''audio/'')"

text \<open>\<open>image_dimensions\<close> is base64 decoding followed by image decoding; both fail with \<open>None\<close>. Dimensions are \<^verbatim>\<open>u32\<close>.\<close>

definition estimate_original_image_bytes :: "('j, 'm) history_env \<Rightarrow> rstring \<Rightarrow> int option" where
  "estimate_original_image_bytes E image_url =
     do {
       payload \<leftarrow> parse_base64_image_data_url image_url;
       (width, height) \<leftarrow> image_dimensions E payload;
       let patches_wide = (width + (ORIGINAL_IMAGE_PATCH_SIZE - 1)) div ORIGINAL_IMAGE_PATCH_SIZE;
       let patches_high = (height + (ORIGINAL_IMAGE_PATCH_SIZE - 1)) div ORIGINAL_IMAGE_PATCH_SIZE;
       let patch_count = min (patches_wide * patches_high) ORIGINAL_IMAGE_MAX_PATCHES;
       Some (i64_of_nat (approx_bytes_for_tokens patch_count))
     }"

type_synonym adjustment = "int \<times> int"

definition adjustment_add :: "int \<Rightarrow> int \<Rightarrow> adjustment \<Rightarrow> adjustment" where
  "adjustment_add payload replacement acc =
     (i64_saturate (fst acc + payload), i64_saturate (snd acc + replacement))"

definition accumulate_image ::
  "('j, 'm) history_env \<Rightarrow> rstring \<Rightarrow> image_detail option \<Rightarrow> adjustment \<Rightarrow> adjustment" where
  "accumulate_image E image_url detail acc =
     (case parse_base64_image_data_url image_url of
        None \<Rightarrow> acc
      | Some payload \<Rightarrow>
          adjustment_add (i64_of_nat (utf8_len payload))
            (case detail of
               Some Original \<Rightarrow>
                 (case estimate_original_image_bytes E image_url of Some b \<Rightarrow> b | None \<Rightarrow> RESIZED_IMAGE_BYTES_ESTIMATE)
             | _ \<Rightarrow> RESIZED_IMAGE_BYTES_ESTIMATE) acc)"

definition content_images :: "('j, 'm) history_env \<Rightarrow> content_item list \<Rightarrow> adjustment \<Rightarrow> adjustment" where
  "content_images E content acc =
     fold (\<lambda>c acc. case c of InputImage url detail \<Rightarrow> accumulate_image E url detail acc | _ \<Rightarrow> acc) content acc"

definition output_fold ::
  "(function_call_output_content_item \<Rightarrow> adjustment \<Rightarrow> adjustment) \<Rightarrow> function_call_output_payload \<Rightarrow> adjustment" where
  "output_fold f output = (case body output of Text_Body _ \<Rightarrow> (0, 0) | ContentItems items \<Rightarrow> fold f items (0, 0))"

definition image_data_url_estimate_adjustment ::
  "('j, 'm) history_env \<Rightarrow> ('j, 'm) response_item \<Rightarrow> adjustment" where
  "image_data_url_estimate_adjustment E item =
     (let step = (\<lambda>c acc. case c of Out_InputImage url detail \<Rightarrow> accumulate_image E url detail acc | _ \<Rightarrow> acc) in
      case item of
        Message _ _ content _ _ \<Rightarrow> content_images E content (0, 0)
      | FunctionCallOutput _ _ output _ \<Rightarrow> output_fold step output
      | CustomToolCallOutput _ _ _ output _ \<Rightarrow> output_fold step output
      | _ \<Rightarrow> (0, 0))"

definition accumulate_audio :: "('j, 'm) history_env \<Rightarrow> rstring \<Rightarrow> adjustment \<Rightarrow> adjustment" where
  "accumulate_audio E audio_url acc =
     (case parse_base64_audio_data_url audio_url of
        None \<Rightarrow> acc
      | Some payload \<Rightarrow>
          adjustment_add (i64_of_nat (utf8_len payload))
            (i64_of_nat (approx_bytes_for_tokens (estimate_audio_token_count E audio_url))) acc)"

definition audio_data_url_estimate_adjustment ::
  "('j, 'm) history_env \<Rightarrow> ('j, 'm) response_item \<Rightarrow> adjustment" where
  "audio_data_url_estimate_adjustment E item =
     (let step = (\<lambda>c acc. case c of Out_InputAudio url \<Rightarrow> accumulate_audio E url acc | _ \<Rightarrow> acc) in
      case item of
        Message _ _ content _ _ \<Rightarrow>
          fold (\<lambda>c acc. case c of InputAudio url \<Rightarrow> accumulate_audio E url acc | _ \<Rightarrow> acc) content (0, 0)
      | FunctionCallOutput _ _ output _ \<Rightarrow> output_fold step output
      | CustomToolCallOutput _ _ _ output _ \<Rightarrow> output_fold step output
      | _ \<Rightarrow> (0, 0))"

definition accumulate_encrypted :: "rstring \<Rightarrow> adjustment \<Rightarrow> adjustment" where
  "accumulate_encrypted content acc =
     adjustment_add (i64_of_nat (utf8_len content))
       (i64_of_nat (estimate_encrypted_function_output_length (utf8_len content))) acc"

definition encrypted_function_output_estimate_adjustment :: "('j, 'm) response_item \<Rightarrow> adjustment" where
  "encrypted_function_output_estimate_adjustment item =
     (case item of
        FunctionCallOutput _ _ output _ \<Rightarrow>
          output_fold (\<lambda>c acc. case c of Out_EncryptedContent e \<Rightarrow> accumulate_encrypted e acc | _ \<Rightarrow> acc) output
      | AgentMessage _ _ _ content _ \<Rightarrow>
          fold (\<lambda>c acc. case c of Agent_EncryptedContent e \<Rightarrow> accumulate_encrypted e acc | _ \<Rightarrow> acc) content (0, 0)
      | _ \<Rightarrow> (0, 0))"

definition serialized_estimate :: "('j, 'm) history_env \<Rightarrow> ('j, 'm) response_item \<Rightarrow> int" where
  "serialized_estimate E item =
     (let raw = (case serialized_len E item of Some n \<Rightarrow> i64_of_nat n | None \<Rightarrow> 0);
          (image_payload, image_replacement) = image_data_url_estimate_adjustment E item;
          (audio_payload, audio_replacement) = audio_data_url_estimate_adjustment E item;
          (encrypted_payload, encrypted_replacement) = encrypted_function_output_estimate_adjustment item;
          raw = i64_saturate (raw - image_payload);
          raw = i64_saturate (raw + image_replacement);
          raw = i64_saturate (raw - audio_payload);
          raw = i64_saturate (raw + audio_replacement);
          raw = i64_saturate (raw - encrypted_payload)
      in i64_saturate (raw + encrypted_replacement))"

definition estimate_response_item_model_visible_bytes ::
  "('j, 'm) history_env \<Rightarrow> ('j, 'm) response_item \<Rightarrow> int" where
  "estimate_response_item_model_visible_bytes E item =
     (case item of
        Reasoning _ _ _ (Some content) _ \<Rightarrow> i64_of_nat (estimate_reasoning_length (utf8_len content))
      | Compaction _ content _ \<Rightarrow> i64_of_nat (estimate_reasoning_length (utf8_len content))
      | ContextCompaction _ (Some content) _ \<Rightarrow> i64_of_nat (estimate_reasoning_length (utf8_len content))
      | _ \<Rightarrow> serialized_estimate E item)"

definition estimate_item_token_count :: "('j, 'm) history_env \<Rightarrow> ('j, 'm) response_item \<Rightarrow> int" where
  "estimate_item_token_count E item =
     approx_tokens_from_byte_count_i64 (estimate_response_item_model_visible_bytes E item)"

definition sum_estimates :: "('j, 'm) history_env \<Rightarrow> ('j, 'm) response_item list \<Rightarrow> int" where
  "sum_estimates E items = fold (\<lambda>i acc. i64_saturate (acc + estimate_item_token_count E i)) items 0"

definition estimate_token_count_with_base_instructions ::
  "('j, 'm) history_env \<Rightarrow> rstring \<Rightarrow> ('j, 'm, 'c, 'n) context_manager \<Rightarrow> int option" where
  "estimate_token_count_with_base_instructions E base_instructions cm =
     (let base_tokens = i64_of_nat (approx_token_count base_instructions)
      in Some (i64_saturate (base_tokens + sum_estimates E (history_items cm))))"

definition rposition :: "('a \<Rightarrow> bool) \<Rightarrow> 'a list \<Rightarrow> nat option" where
  "rposition f xs = last_opt (positions_from f 0 xs)"

definition get_non_last_reasoning_items_tokens ::
  "('j, 'm) history_env \<Rightarrow> ('j, 'm, 'c, 'n) context_manager \<Rightarrow> int" where
  "get_non_last_reasoning_items_tokens E cm =
     (case rposition (is_user_turn_boundary E) (history_items cm) of
        None \<Rightarrow> 0
      | Some last_user_index \<Rightarrow>
          sum_estimates E
            (filter (\<lambda>item. case item of Reasoning _ _ _ (Some _) _ \<Rightarrow> True | _ \<Rightarrow> False)
               (take last_user_index (history_items cm))))"

definition items_after_last_model_generated_item ::
  "('j, 'm, 'c, 'n) context_manager \<Rightarrow> ('j, 'm) response_item list" where
  "items_after_last_model_generated_item cm =
     (let start = (case rposition is_model_generated_item (history_items cm) of
                     None \<Rightarrow> length (history_items cm)
                   | Some index \<Rightarrow> index + 1)
      in drop start (history_items cm))"

definition estimated_tokens_after_last_model_generated_item ::
  "('j, 'm) history_env \<Rightarrow> ('j, 'm, 'c, 'n) context_manager \<Rightarrow> int" where
  "estimated_tokens_after_last_model_generated_item E cm =
     sum_estimates E (items_after_last_model_generated_item cm)"

definition get_total_token_usage ::
  "('j, 'm) history_env \<Rightarrow> bool \<Rightarrow> ('j, 'm, 'c, 'n) context_manager \<Rightarrow> int" where
  "get_total_token_usage E server_reasoning_included cm =
     (let last_tokens = (case token_info cm of Some info \<Rightarrow> total_tokens (last_token_usage info) | None \<Rightarrow> 0);
          after = sum_estimates E (items_after_last_model_generated_item cm)
      in if server_reasoning_included then i64_saturate (last_tokens + after)
         else i64_saturate (i64_saturate (last_tokens + get_non_last_reasoning_items_tokens E cm) + after))"

section \<open>Recording\<close>

fun policy_ok :: "truncation_policy \<Rightarrow> bool" where
  "policy_ok (Bytes n) = (n \<le> usize_max)"
| "policy_ok (Tokens n) = (n \<le> usize_max)"

lemma policy_mul_ge:
  "policy_ok p \<Longrightarrow> byte_budget p \<le> byte_budget (policy_mul p f64_1_2)"
  "policy_ok p \<Longrightarrow> initial_budget p \<le> initial_budget (policy_mul p f64_1_2)"
proof -
  show "policy_ok p \<Longrightarrow> byte_budget p \<le> byte_budget (policy_mul p f64_1_2)"
    unfolding approx_bytes_for_tokens_def saturating_mul_def
    by (cases p) (simp_all add: mul_f64_1_2_ge approx_bytes_for_tokens_def saturating_mul_def min.coboundedI2)
  show "policy_ok p \<Longrightarrow> initial_budget p \<le> initial_budget (policy_mul p f64_1_2)"
    by (cases p) (simp_all add: mul_f64_1_2_ge initial_budget_def)
qed

lemma item_cost_policy_mul: "item_cost (policy_mul p m) est = item_cost p est"
proof (rule ext)
  show "item_cost (policy_mul p m) est i = item_cost p est i" for i by (cases p; cases i) simp_all
qed

text \<open>An output within the budget of the policy, before the policy is scaled.\<close>

definition output_fits :: "('j, 'm) history_env \<Rightarrow> truncation_policy \<Rightarrow> function_call_output_payload \<Rightarrow> bool" where
  "output_fits E policy output =
     (case body output of
        Text_Body content \<Rightarrow> utf8_len content \<le> byte_budget policy
      | ContentItems items \<Rightarrow>
          sum_list (map (item_cost policy (estimate_audio_token_count E)) items) < initial_budget policy)"

fun item_fits :: "('j, 'm) history_env \<Rightarrow> truncation_policy \<Rightarrow> ('j, 'm) response_item \<Rightarrow> bool" where
  "item_fits E policy (FunctionCallOutput _ _ output _) = output_fits E policy output"
| "item_fits E policy (CustomToolCallOutput _ _ _ output _) = output_fits E policy output"
| "item_fits E policy _ = True"

lemma truncated_items_unchanged:
  assumes "sum_list (map (item_cost policy est) items) < initial_budget policy"
  shows "truncate_function_output_items_with_policy items policy est = Some items"
proof -
  have kept: "concat (map2 render_outcome (replicate (length xs) Kept) xs) = xs"
    "omitted_texts (replicate (length xs) Kept) xs = 0" "omitted_audios (replicate (length xs) Kept) xs = 0" for xs
    by (induction xs) (simp_all add: omitted_texts_def omitted_audios_def)
  from truncate_function_output_items_outcomes [of items policy est] assms kept [of items] show ?thesis
    by (auto simp: omission_note_def)
qed

lemma truncate_payload_total:
  obtains p where "truncate_function_output_payload E output (policy_mul policy f64_1_2) = Some p"
    "policy_ok policy \<and> output_fits E policy output \<longrightarrow> p = output"
proof (cases "body output")
  case (Text_Body content)
  obtain out where out: "truncate_text content (policy_mul policy f64_1_2) = Some out"
    "utf8_len content \<le> byte_budget (policy_mul policy f64_1_2) \<longrightarrow> out = content"
    by (rule truncate_text_total)
  have "policy_ok policy \<and> output_fits E policy output \<longrightarrow> out = content"
    using out(2) policy_mul_ge(1) [of policy] Text_Body by (auto simp: output_fits_def)
  then have "policy_ok policy \<and> output_fits E policy output \<longrightarrow> \<lparr>body = Text_Body out, success = success output\<rparr> = output"
    using Text_Body by (auto intro!: function_call_output_payload.equality)
  with that [of "\<lparr>body = Text_Body out, success = success output\<rparr>"] out(1) Text_Body show thesis
    by (simp add: truncate_function_output_payload_def)
next
  case (ContentItems items)
  let ?est = "estimate_audio_token_count E"
  obtain out where out: "truncate_function_output_items_with_policy items (policy_mul policy f64_1_2) ?est = Some out"
    using truncate_function_output_items_outcomes [of items "policy_mul policy f64_1_2" ?est] by blast
  have "policy_ok policy \<and> output_fits E policy output \<longrightarrow> out = items"
  proof (rule impI)
    assume "policy_ok policy \<and> output_fits E policy output"
    then have "sum_list (map (item_cost (policy_mul policy f64_1_2) ?est) items) < initial_budget (policy_mul policy f64_1_2)"
      using policy_mul_ge(2) [of policy] ContentItems
      by (auto simp: output_fits_def item_cost_policy_mul)
    then show "out = items" using truncated_items_unchanged out by fastforce
  qed
  then have "policy_ok policy \<and> output_fits E policy output \<longrightarrow> \<lparr>body = ContentItems out, success = success output\<rparr> = output"
    using ContentItems by (auto intro!: function_call_output_payload.equality)
  with that [of "\<lparr>body = ContentItems out, success = success output\<rparr>"] out ContentItems show thesis
    by (simp add: truncate_function_output_payload_def)
qed

lemma process_item_total:
  obtains p where "process_item E policy i = Some p" "call_key p = call_key i" "output_key p = output_key i"
    "policy_ok policy \<and> item_fits E policy i \<longrightarrow> p = i"
proof (cases "(\<exists>a b c d. i = FunctionCallOutput a b c d) \<or> (\<exists>a b c d e. i = CustomToolCallOutput a b c d e)")
  case False
  then have "process_item E policy i = Some i" by (cases i) (auto simp: process_item_def Let_def)
  with that show thesis by blast
next
  case True
  then show thesis
  proof (elim disjE exE)
    fix a b c d
    assume i: "i = FunctionCallOutput a b c d"
    obtain p where p: "truncate_function_output_payload E c (policy_mul policy f64_1_2) = Some p"
      "policy_ok policy \<and> output_fits E policy c \<longrightarrow> p = c" by (rule truncate_payload_total)
    with i that [of "FunctionCallOutput a b p d"] show thesis by (simp add: process_item_def Let_def)
  next
    fix a b c d e
    assume i: "i = CustomToolCallOutput a b c d e"
    obtain p where p: "truncate_function_output_payload E d (policy_mul policy f64_1_2) = Some p"
      "policy_ok policy \<and> output_fits E policy d \<longrightarrow> p = d" by (rule truncate_payload_total)
    with i that [of "CustomToolCallOutput a b c p e"] show thesis by (simp add: process_item_def Let_def)
  qed
qed

definition recorded_as :: "('j, 'm) history_env \<Rightarrow> truncation_policy \<Rightarrow> ('j, 'm) response_item \<Rightarrow> ('j, 'm) response_item \<Rightarrow> bool" where
  "recorded_as E policy i p \<longleftrightarrow>
     call_key p = call_key i \<and> output_key p = output_key i \<and> (item_fits E policy i \<longrightarrow> p = i)"

lemma record_loop_total:
  assumes "policy_ok policy"
  shows "\<exists>ps. record_loop E policy new_items acc = Some (acc @ ps) \<and>
    list_all2 (recorded_as E policy) (filter is_api_message new_items) ps"
proof (induction new_items arbitrary: acc)
  case (Cons i new_items)
  show ?case
  proof (cases "is_api_message i")
    case True
    obtain p where p: "process_item E policy i = Some p" "call_key p = call_key i" "output_key p = output_key i"
      "policy_ok policy \<and> item_fits E policy i \<longrightarrow> p = i" by (rule process_item_total)
    then have r: "recorded_as E policy i p" using assms by (simp add: recorded_as_def)
    obtain ps where "record_loop E policy new_items (acc @ [p]) = Some ((acc @ [p]) @ ps)"
      "list_all2 (recorded_as E policy) (filter is_api_message new_items) ps"
      using Cons.IH by blast
    with True p(1) r show ?thesis by (intro exI [of _ "p # ps"]) simp
  qed (use Cons.IH in simp)
qed simp

text \<open>
  C35. Recording items never panics and only appends to the history: system messages, compaction triggers and unknown
  items are left out, every other item is appended in order with its call id, and an item is stored unchanged
  when its output fits the budget of the policy.
\<close>

theorem record_items_appends:
  assumes "policy_ok policy"
  shows "\<exists>ps. record_items E new_items policy cm = Some (cm\<lparr>history_items := history_items cm @ ps\<rparr>) \<and>
    list_all2 (recorded_as E policy) (filter is_api_message new_items) ps"
  using record_loop_total [OF assms, of E new_items "history_items cm"] by (auto simp: record_items_def)

definition sample_env :: "(unit, unit) history_env" where
  "sample_env =
     \<lparr>hook_prompt = (\<lambda>_. False), standard_fragment = (\<lambda>t. t = lit ''<env>''), inter_agent_json = (\<lambda>_. False),
      estimate_audio_token_count = approx_token_count, serialized_len = (\<lambda>_. None), image_dimensions = (\<lambda>_. None)\<rparr>"

definition sample_message :: "string \<Rightarrow> string \<Rightarrow> (unit, unit) response_item" where
  "sample_message role t = Message None (lit role) [InputText (lit t)] None None"

theorem record_items_appends_witness:
  "policy_ok (Bytes 8) \<and>
   (\<exists>ps. record_items sample_env [sample_message ''system'' ''s'', sample_message ''user'' ''hello'']
       (Bytes 8) (manager_new :: (unit, unit, unit, nat) context_manager) =
     Some (manager_new\<lparr>history_items := history_items (manager_new :: (unit, unit, unit, nat) context_manager) @ ps\<rparr>) \<and>
     list_all2 (recorded_as sample_env (Bytes 8))
       (filter is_api_message [sample_message ''system'' ''s'', sample_message ''user'' ''hello'']) ps \<and> length ps = 1)"
proof -
  have ok: "policy_ok (Bytes 8)" by (simp add: usize_max_def)
  have f: "filter is_api_message [sample_message ''system'' ''s'', sample_message ''user'' ''hello''] =
      [sample_message ''user'' ''hello'']"
    by (simp add: sample_message_def lit_def)
  obtain ps where ps: "record_items sample_env [sample_message ''system'' ''s'', sample_message ''user'' ''hello'']
       (Bytes 8) (manager_new :: (unit, unit, unit, nat) context_manager) =
     Some (manager_new\<lparr>history_items := history_items (manager_new :: (unit, unit, unit, nat) context_manager) @ ps\<rparr>)"
    and all: "list_all2 (recorded_as sample_env (Bytes 8))
       (filter is_api_message [sample_message ''system'' ''s'', sample_message ''user'' ''hello'']) ps"
    using record_items_appends [OF ok] by blast
  moreover have "length ps = 1" using list_all2_lengthD [OF all] unfolding f by simp
  ultimately show ?thesis using ok by blast
qed


section \<open>Rolling back\<close>

lemma length_positions_from: "length (positions_from f n xs) = length (filter f xs)"
  by (induction xs arbitrary: n) simp_all

lemma positions_from_nth:
  "k < length (positions_from f n xs) \<Longrightarrow>
   \<exists>p. positions_from f n xs ! k = n + p \<and> p < length xs \<and> f (xs ! p) \<and> length (filter f (take p xs)) = k"
proof (induction xs arbitrary: n k)
  case (Cons x xs)
  show ?case
  proof (cases "f x \<and> k = 0")
    case False
    define j where "j = (if f x then k - 1 else k)"
    have "j < length (positions_from f (Suc n) xs)" using Cons.prems False by (auto simp: j_def split: if_splits)
    from Cons.IH [OF this] obtain p where p: "positions_from f (Suc n) xs ! j = Suc n + p" "p < length xs" "f (xs ! p)"
      "length (filter f (take p xs)) = j"
      by blast
    with False show ?thesis by (intro exI [of _ "Suc p"]) (auto simp: j_def nth_Cons' split: if_splits)
  qed (intro exI [of _ 0], simp)
qed simp

text \<open>A context update that rollback removes together with the turn it precedes.\<close>

fun context_update :: "('j, 'm) history_env \<Rightarrow> ('j, 'm) response_item \<Rightarrow> bool" where
  "context_update E (Message _ role content _ _) =
     (role = lit ''developer'' \<and> is_contextual_dev_message_content content \<or>
      role = lit ''user'' \<and> contextual_user E content)"
| "context_update E _ = False"

fun mixed_bundle :: "('j, 'm) response_item \<Rightarrow> bool" where
  "mixed_bundle (Message _ role content _ _) =
     (role = lit ''developer'' \<and> is_contextual_dev_message_content content \<and> has_non_contextual_dev_message_content content)"
| "mixed_bundle _ = False"

lemma role_neq: "lit ''developer'' \<noteq> lit ''user''" "lit ''user'' \<noteq> lit ''developer''"
  "lit ''developer'' \<noteq> lit ''assistant''" "lit ''user'' \<noteq> lit ''assistant''"
  by (simp_all add: lit_def)

lemma context_update_no_boundary: "context_update E i \<Longrightarrow> \<not> is_user_turn_boundary E i"
  using role_neq by (cases i) auto

lemma trim_step:
  "first_turn < Suc c \<Longrightarrow> c < length snap \<Longrightarrow>
   trim_pre_turn_context_updates E snap first_turn (Suc c) r =
     (if context_update E (snap ! c)
      then trim_pre_turn_context_updates E snap first_turn c (if mixed_bundle (snap ! c) then None else r)
      else Some (Suc c, r))"
  using role_neq by (cases "snap ! c") auto

lemma trim_at_first: "trim_pre_turn_context_updates E snap first_turn first_turn r = Some (first_turn, r)"
  by (cases first_turn) simp_all

lemma trim_spec:
  assumes "first_turn \<le> n" and "n \<le> length snap"
  shows "\<exists>c. trim_pre_turn_context_updates E snap first_turn n r =
       Some (c, if \<exists>i\<in>{c..<n}. mixed_bundle (snap ! i) then None else r) \<and>
     first_turn \<le> c \<and> c \<le> n \<and> (\<forall>i\<in>{c..<n}. context_update E (snap ! i)) \<and>
     (c = first_turn \<or> \<not> context_update E (snap ! (c - 1)))"
  using assms
proof (induction n arbitrary: r)
  case (Suc n)
  show ?case
  proof (cases "Suc n = first_turn")
    case True
    then show ?thesis by (intro exI [of _ first_turn]) (simp add: trim_at_first)
  next
    case False
    with Suc.prems have le: "first_turn \<le> n" "n < length snap" by simp_all
    show ?thesis
    proof (cases "context_update E (snap ! n)")
      case True
      let ?r = "if mixed_bundle (snap ! n) then None else r"
      from Suc.IH [of ?r] le obtain c where c: "trim_pre_turn_context_updates E snap first_turn n ?r =
           Some (c, if \<exists>i\<in>{c..<n}. mixed_bundle (snap ! i) then None else ?r)"
        "first_turn \<le> c" "c \<le> n" "\<forall>i\<in>{c..<n}. context_update E (snap ! i)"
        "c = first_turn \<or> \<not> context_update E (snap ! (c - 1))"
        by auto
      have iv: "{c..<Suc n} = insert n {c..<n}" using c(3) by auto
      have "trim_pre_turn_context_updates E snap first_turn (Suc n) r =
          Some (c, if \<exists>i\<in>{c..<Suc n}. mixed_bundle (snap ! i) then None else r)"
        using trim_step [of first_turn n snap E r] le True c(1) by (simp add: iv)
      with c True show ?thesis by (intro exI [of _ c]) (simp add: iv)
    next
      case False
      then show ?thesis using trim_step [of first_turn n snap E r] le by (intro exI [of _ "Suc n"]) simp
    qed
  qed
qed simp

lemma trimmed_boundaries:
  assumes "c \<le> n" and "\<forall>i\<in>{c..<n}. context_update E (xs ! i)" and "n \<le> length xs"
  shows "list_all (context_update E) (drop c (take n xs))"
    and "filter (is_user_turn_boundary E) (take c xs) = filter (is_user_turn_boundary E) (take n xs)"
proof -
  show all: "list_all (context_update E) (drop c (take n xs))"
    using assms by (auto simp: list_all_length)
  have "take n xs = take c xs @ drop c (take n xs)"
    using assms(1) by (metis append_take_drop_id min.absorb1 take_take)
  moreover have "filter (is_user_turn_boundary E) (drop c (take n xs)) = []"
    using all by (auto simp: list_all_iff filter_empty_conv context_update_no_boundary)
  ultimately show "filter (is_user_turn_boundary E) (take c xs) = filter (is_user_turn_boundary E) (take n xs)"
    by (metis append_Nil2 filter_append)
qed

lemma list_ex_segment:
  assumes "c \<le> n" "n \<le> length xs"
  shows "list_ex P (drop c (take n xs)) \<longleftrightarrow> (\<exists>i\<in>{c..<n}. P (xs ! i))"
proof
  assume "list_ex P (drop c (take n xs))"
  then obtain j where "j < n - c" "P (xs ! (c + j))" using assms by (auto simp: list_ex_length)
  then show "\<exists>i\<in>{c..<n}. P (xs ! i)" by (intro bexI [of _ "c + j"]) auto
next
  assume "\<exists>i\<in>{c..<n}. P (xs ! i)"
  then obtain i where "c \<le> i" "i < n" "P (xs ! i)" by auto
  then show "list_ex P (drop c (take n xs))"
    using assms by (auto simp: list_ex_length intro!: exI [of _ "i - c"])
qed

lemma first_boundary_least:
  assumes "filter f (take first_turn xs) = []" and "f (xs ! turn)" and "turn < length xs"
  shows "first_turn \<le> turn"
proof (rule ccontr)
  assume "\<not> first_turn \<le> turn"
  then have "xs ! turn \<in> set (filter f (take first_turn xs))"
    using assms(2,3) by (auto simp: in_set_conv_nth intro!: exI [of _ turn])
  with assms(1) show False by simp
qed

lemma no_boundary_takeWhile:
  "p < length xs \<Longrightarrow> f (xs ! p) \<Longrightarrow> filter f (take p xs) = [] \<Longrightarrow> length (takeWhile (\<lambda>x. \<not> f x) xs) = p"
proof (induction xs arbitrary: p)
  case (Cons x xs)
  then show ?case by (cases p) (auto split: if_splits)
qed simp

text \<open>
  Without a turn the history is replaced by itself, which the manager records as a rewrite.
\<close>

lemma rollback_without_turns:
  assumes "0 < n" and "\<not> list_ex (is_user_turn_boundary E) (history_items cm)"
  shows "drop_last_n_user_turns E n cm = Some (manager_replace (history_items cm) cm)"
proof -
  have "filter (is_user_turn_boundary E) (history_items cm) = []"
    using assms(2) by (simp add: list_ex_iff filter_empty_conv)
  then have "user_message_positions E (history_items cm) = []"
    using length_positions_from [of "is_user_turn_boundary E" 0 "history_items cm"]
    by (simp add: user_message_positions_def)
  with assms(1) show ?thesis by (simp add: drop_last_n_user_turns_def Let_def)
qed

text \<open>
  C12. Rolling back \<open>n > 0\<close> turns of a history that has a turn never panics. The first dropped turn, at index
  \<open>turn\<close>, is a turn that has exactly \<open>n\<close> turns fewer before it than the history has, or none when there are not that many.
  The history is cut at \<open>c\<close>, which moves back from \<open>turn\<close> over all context updates just before it and stops at the first
  item that is none, or at the first turn of the history: what precedes the first turn survives. The reference context is
  forgotten exactly when one of the updates between \<open>c\<close> and \<open>turn\<close> is a developer message that also has text of its own.
  A history without a turn is outside this statement: the items stay, and the manager still counts a rewrite.
\<close>

theorem rollback_drops_turns:
  assumes "0 < n" and "list_ex (is_user_turn_boundary E) (history_items cm)"
  shows "\<exists>c turn. drop_last_n_user_turns E n cm =
       Some (manager_replace (take c (history_items cm))
         (cm\<lparr>reference_context_item :=
            if list_ex mixed_bundle (drop c (take turn (history_items cm))) then None else reference_context_item cm\<rparr>)) \<and>
     turn < length (history_items cm) \<and> is_user_turn_boundary E (history_items cm ! turn) \<and>
     length (filter (is_user_turn_boundary E) (take turn (history_items cm))) =
       length (filter (is_user_turn_boundary E) (history_items cm)) - n \<and>
     length (filter (is_user_turn_boundary E) (take c (history_items cm))) =
       length (filter (is_user_turn_boundary E) (history_items cm)) - n \<and>
     c \<le> turn \<and> list_all (context_update E) (drop c (take turn (history_items cm))) \<and>
     length (takeWhile (\<lambda>i. \<not> is_user_turn_boundary E i) (history_items cm)) \<le> c \<and>
     (c = length (takeWhile (\<lambda>i. \<not> is_user_turn_boundary E i) (history_items cm)) \<or>
      \<not> context_update E (history_items cm ! (c - 1)))"
proof -
  define xs where "xs = history_items cm"
  define ps where "ps = user_message_positions E xs"
  have len: "length ps = length (filter (is_user_turn_boundary E) xs)"
    by (simp add: ps_def user_message_positions_def length_positions_from)
  have nth: "\<exists>p. ps ! k = p \<and> p < length xs \<and> is_user_turn_boundary E (xs ! p) \<and>
      length (filter (is_user_turn_boundary E) (take p xs)) = k" if "k < length ps" for k
    using that positions_from_nth [of k "is_user_turn_boundary E" 0 xs] by (simp add: ps_def user_message_positions_def)
  have "filter (is_user_turn_boundary E) xs \<noteq> []"
    using assms(2) by (auto simp: xs_def list_ex_iff filter_empty_conv)
  then obtain first_turn rest where Cons: "ps = first_turn # rest" using len by (cases ps) auto
  define k where "k = length ps - n"
  have k: "k < length ps" using Cons assms(1) by (simp add: k_def)
  define turn where "turn = ps ! k"
  have drop: "drop_last_n_user_turns E n cm =
      Option.bind (trim_pre_turn_context_updates E xs first_turn
          (if length ps \<le> n then first_turn else ps ! (length ps - n)) (reference_context_item cm))
        (\<lambda>(cut_idx, reference). if cut_idx \<le> length xs
           then Some (manager_replace (take cut_idx xs) (cm\<lparr>reference_context_item := reference\<rparr>)) else None)"
    unfolding drop_last_n_user_turns_def Let_def xs_def [symmetric] ps_def [symmetric] using assms(1)
    by (simp add: Cons)
  have cut: "(if length ps \<le> n then first_turn else ps ! (length ps - n)) = turn"
    using Cons by (simp add: turn_def k_def)
  from nth [OF k] have turn: "turn < length xs" "length (filter (is_user_turn_boundary E) (take turn xs)) = k"
    "is_user_turn_boundary E (xs ! turn)"
    by (auto simp: turn_def)
  from nth [of 0] Cons have first: "first_turn < length xs" "is_user_turn_boundary E (xs ! first_turn)"
    "filter (is_user_turn_boundary E) (take first_turn xs) = []" by auto
  have tw: "length (takeWhile (\<lambda>i. \<not> is_user_turn_boundary E i) xs) = first_turn"
    by (rule no_boundary_takeWhile [OF first])
  have le: "first_turn \<le> turn"
    using first_boundary_least [OF first(3), of turn] nth [OF k] by (auto simp: turn_def)
  from trim_spec [of first_turn turn xs E "reference_context_item cm"] le turn(1) obtain c where
    c: "trim_pre_turn_context_updates E xs first_turn turn (reference_context_item cm) =
       Some (c, if \<exists>i\<in>{c..<turn}. mixed_bundle (xs ! i) then None else reference_context_item cm)"
    "first_turn \<le> c" "c \<le> turn" "\<forall>i\<in>{c..<turn}. context_update E (xs ! i)"
    "c = first_turn \<or> \<not> context_update E (xs ! (c - 1))" by auto
  have ex: "list_ex mixed_bundle (drop c (take turn xs)) \<longleftrightarrow> (\<exists>i\<in>{c..<turn}. mixed_bundle (xs ! i))"
    using c(3) turn(1) by (intro list_ex_segment) simp_all
  have "drop_last_n_user_turns E n cm = Some (manager_replace (take c xs)
       (cm\<lparr>reference_context_item :=
          if list_ex mixed_bundle (drop c (take turn xs)) then None else reference_context_item cm\<rparr>))"
    unfolding drop cut c(1) ex using c(3) turn(1) by simp
  moreover have "length (filter (is_user_turn_boundary E) (take c xs)) = k"
    "list_all (context_update E) (drop c (take turn xs))"
    using trimmed_boundaries [OF c(3,4)] turn by simp_all
  ultimately show ?thesis
    unfolding xs_def [symmetric] using tw c(2,3,5) turn len k_def
    by (intro exI [of _ c] exI [of _ turn] conjI) simp_all
qed

theorem rollback_drops_turns_witness:
  "let items = [sample_message ''developer'' ''base'', sample_message ''user'' ''one'', sample_message ''assistant'' ''a'',
         sample_message ''user'' ''<env>'', sample_message ''user'' ''two'', sample_message ''assistant'' ''b''];
       cm = (manager_new :: (unit, unit, unit, nat) context_manager)\<lparr>history_items := items\<rparr> in
   (0 :: nat) < 1 \<and> list_ex (is_user_turn_boundary sample_env) items \<and>
   (\<exists>c turn. map_option history_items (drop_last_n_user_turns sample_env 1 cm) = Some (take c items) \<and>
      length (filter (is_user_turn_boundary sample_env) (take turn items)) = 1 \<and>
      is_user_turn_boundary sample_env (items ! turn) \<and>
      list_all (context_update sample_env) (drop c (take turn items)) \<and> 1 \<le> c)"
proof -
  define items where "items = [sample_message ''developer'' ''base'', sample_message ''user'' ''one'',
    sample_message ''assistant'' ''a'', sample_message ''user'' ''<env>'', sample_message ''user'' ''two'',
    sample_message ''assistant'' ''b'']"
  define cm where "cm = (manager_new :: (unit, unit, unit, nat) context_manager)\<lparr>history_items := items\<rparr>"
  have it: "history_items cm = items" by (simp add: cm_def)
  have b: "map (is_user_turn_boundary sample_env) items = [False, True, False, False, True, False]"
    by (simp add: items_def sample_message_def sample_env_def lit_def contextual_user_def
        is_contextual_user_message_content_def is_contextual_user_fragment_def is_inter_agent_instruction_content_def)
  have len: "length (filter (is_user_turn_boundary sample_env) items) = 2"
    "length (takeWhile (\<lambda>i. \<not> is_user_turn_boundary sample_env i) items) = 1"
    "list_ex (is_user_turn_boundary sample_env) items"
    using b by (simp_all add: items_def)
  have pos: "(0 :: nat) < 1" by simp
  have some: "list_ex (is_user_turn_boundary sample_env) (history_items cm)" using len(3) it by simp
  obtain c turn where "drop_last_n_user_turns sample_env 1 cm = Some (manager_replace (take c items)
         (cm\<lparr>reference_context_item := if list_ex mixed_bundle (drop c (take turn items)) then None else reference_context_item cm\<rparr>))"
    "length (filter (is_user_turn_boundary sample_env) (take turn items)) = 2 - 1"
    "is_user_turn_boundary sample_env (items ! turn)"
    "list_all (context_update sample_env) (drop c (take turn items))" "1 \<le> c"
    using rollback_drops_turns [OF pos some] unfolding it len by blast
  with len(3) show ?thesis
    unfolding Let_def items_def [symmetric] cm_def [symmetric]
    by (intro conjI exI [of _ c] exI [of _ turn]) (simp_all add: manager_replace_def)
qed


section \<open>Dropping the oldest item\<close>

lemma remove_first_matching_eq: "remove_first_matching f xs = takeWhile (\<lambda>x. \<not> f x) xs @ tl (dropWhile (\<lambda>x. \<not> f x) xs)"
proof -
  have pos: "position f xs = (if \<exists>x\<in>set xs. f x then Some (length (takeWhile (\<lambda>x. \<not> f x) xs)) else None)"
    by (induction xs) auto
  have "take (length (takeWhile P xs)) xs = takeWhile P xs" "drop (Suc (length (takeWhile P xs))) xs = tl (dropWhile P xs)"
    for P by (metis takeWhile_eq_take) (metis drop_Suc dropWhile_eq_drop drop_tl)
  then show ?thesis
    by (auto simp: remove_first_matching_def pos vec_remove_def takeWhile_eq_all_conv [THEN iffD2] dropWhile_eq_Nil_conv [THEN iffD2])
qed

text \<open>With at most one match, exactly the matching items go.\<close>

lemma remove_first_matching_filter:
  "distinct (map key (filter f xs)) \<Longrightarrow> (\<And>x. x \<in> set xs \<Longrightarrow> f x \<Longrightarrow> key x = k) \<Longrightarrow>
   remove_first_matching f xs = filter (\<lambda>x. \<not> f x) xs"
proof (induction xs)
  case (Cons x xs)
  show ?case
  proof (cases "f x")
    case True
    have "filter f xs = []"
    proof (rule ccontr)
      assume "filter f xs \<noteq> []"
      then obtain y where "y \<in> set xs" "f y" by (auto simp: filter_empty_conv)
      with Cons.prems True show False by (auto simp: image_iff)
    qed
    then have "filter (\<lambda>x. \<not> f x) xs = xs" by (simp add: filter_empty_conv)
    with True show ?thesis by (simp add: remove_first_matching_eq)
  next
    case False
    with Cons show ?thesis by (simp add: remove_first_matching_eq)
  qed
qed (simp add: remove_first_matching_eq)

definition unique_keys :: "('j, 'm) response_item list \<Rightarrow> bool" where
  "unique_keys items \<longleftrightarrow> distinct (List.map_filter call_key items) \<and> distinct (List.map_filter output_key items)"

lemma map_filter_Cons: "List.map_filter g (x # xs) = (case g x of Some y \<Rightarrow> y # List.map_filter g xs | None \<Rightarrow> List.map_filter g xs)"
  by (simp add: List.map_filter_simps split: option.splits)

lemma set_map_filter: "y \<in> set (List.map_filter g xs) \<longleftrightarrow> (\<exists>x\<in>set xs. g x = Some y)"
  by (induction xs) (auto simp: map_filter_Cons List.map_filter_simps split: option.splits)

lemma distinct_map_filter_filter:
  "distinct (List.map_filter g xs) \<Longrightarrow> distinct (List.map_filter g (filter P xs))"
  by (induction xs) (auto simp: map_filter_Cons List.map_filter_simps set_map_filter split: option.splits)

lemma distinct_filter_key:
  "distinct (List.map_filter g xs) \<Longrightarrow> distinct (map g (filter (\<lambda>x. g x = Some k) xs))"
  by (induction xs) (auto simp: map_filter_Cons List.map_filter_simps set_map_filter split: option.splits)

lemma remove_first_key:
  assumes "distinct (List.map_filter g xs)" and "\<And>x. f x \<longleftrightarrow> g x = Some k"
  shows "remove_first_matching f xs = filter (\<lambda>x. g x \<noteq> Some k) xs"
proof -
  have f: "f = (\<lambda>x. g x = Some k)" using assms(2) by blast
  show ?thesis
    unfolding f using distinct_filter_key [OF assms(1)] by (rule remove_first_matching_filter) auto
qed

lemma remove_function_call:
  assumes "distinct (List.map_filter call_key xs)"
  shows "remove_corresponding_for (FunctionCallOutput a c d e) xs =
    filter (\<lambda>x. call_key x \<noteq> Some (Function_Pair, c)) xs"
proof -
  let ?fc = "\<lambda>i. function_call_id i = Some c" and ?ls = "\<lambda>i. local_shell_call_id i = Some c"
  have key: "?fc x \<or> ?ls x \<longleftrightarrow> call_key x = Some (Function_Pair, c)" for x by (rule call_id_key)
  have pos: "position f ys = None \<longleftrightarrow> (\<forall>y\<in>set ys. \<not> f y)" for f :: "'x \<Rightarrow> bool" and ys
    by (induction ys) auto
  have code: "remove_corresponding_for (FunctionCallOutput a c d e) xs =
      (if \<exists>x\<in>set xs. ?fc x then remove_first_matching ?fc xs else remove_first_matching ?ls xs)"
    using pos [of ?fc xs] by (auto simp: remove_first_matching_def split: option.splits)
  have rm: "remove_first_matching f xs = filter (\<lambda>x. \<not> f x) xs" if "\<And>x. f x \<Longrightarrow> call_key x = Some (Function_Pair, c)" for f
  proof (rule remove_first_matching_filter [where key = call_key])
    have "filter f xs = filter f (filter (\<lambda>x. call_key x = Some (Function_Pair, c)) xs)" using that by (auto intro: filter_cong)
    then show "distinct (map call_key (filter f xs))"
      using distinct_filter_key [OF assms, of "(Function_Pair, c)"] by (metis distinct_map_filter)
  qed (use that in auto)
  have fc: "filter (\<lambda>x. \<not> ?fc x) xs = filter (\<lambda>x. call_key x \<noteq> Some (Function_Pair, c)) xs" if "\<exists>x\<in>set xs. ?fc x"
  proof (rule filter_cong [OF refl])
    fix y
    assume y: "y \<in> set xs"
    from that obtain x where x: "x \<in> set xs" "?fc x" by blast
    have "call_key y = Some (Function_Pair, c) \<Longrightarrow> y = x"
      using assms x y key [of x] by (induction xs) (auto simp: map_filter_Cons set_map_filter split: option.splits)
    then show "(\<not> ?fc y) = (call_key y \<noteq> Some (Function_Pair, c))" using x key [of y] by auto
  qed
  have ls: "filter (\<lambda>x. \<not> ?ls x) xs = filter (\<lambda>x. call_key x \<noteq> Some (Function_Pair, c)) xs" if "\<not> (\<exists>x\<in>set xs. ?fc x)"
    using that key by (intro filter_cong) auto
  have "remove_first_matching ?fc xs = filter (\<lambda>x. \<not> ?fc x) xs" "remove_first_matching ?ls xs = filter (\<lambda>x. \<not> ?ls x) xs"
    by (rule rm; use key in blast)+
  then show ?thesis unfolding code using fc ls by simp
qed

lemma remove_corresponding_eq:
  assumes "unique_keys xs"
  shows "remove_corresponding_for x xs =
    (case call_key x of
       Some k \<Rightarrow> filter (\<lambda>i. output_key i \<noteq> Some k) xs
     | None \<Rightarrow> (case output_key x of Some k \<Rightarrow> filter (\<lambda>i. call_key i \<noteq> Some k) xs | None \<Rightarrow> xs))"
proof -
  have u: "distinct (List.map_filter call_key xs)" "distinct (List.map_filter output_key xs)"
    using assms by (simp_all add: unique_keys_def)
  note rm = remove_first_key [OF u(1), OF call_id_key(2)] remove_first_key [OF u(1), OF call_id_key(3)]
    remove_first_key [OF u(2), OF output_id_key(1)] remove_first_key [OF u(2), OF output_id_key(2)]
    remove_first_key [OF u(2), OF output_id_key(3)]
  show ?thesis
    by (cases "(x, xs)" rule: remove_corresponding_for.cases)
      (simp_all add: rm remove_function_call [OF u(1)] del: remove_corresponding_for.simps(2))
qed

lemma call_key_not_output: "call_key i = Some k \<Longrightarrow> output_key i \<noteq> Some k'"
  using call_key_no_output [of i k] by simp

lemma keys_filter_output:
  "call_keys (filter (\<lambda>i. output_key i \<noteq> Some k) xs) = call_keys xs"
  "output_keys (filter (\<lambda>i. output_key i \<noteq> Some k) xs) = output_keys xs - {k}"
  unfolding call_keys_def output_keys_def set_filter by (blast dest: call_key_not_output, auto)

lemma keys_filter_call:
  "call_keys (filter (\<lambda>i. call_key i \<noteq> Some k) xs) = call_keys xs - {k}"
  "output_keys (filter (\<lambda>i. call_key i \<noteq> Some k) xs) = output_keys xs"
  unfolding call_keys_def output_keys_def set_filter by (auto, blast dest: call_key_not_output)

lemma keys_Cons:
  "call_keys (x # xs) = set_option (call_key x) \<union> call_keys xs"
  "output_keys (x # xs) = set_option (output_key x) \<union> output_keys xs"
  by (auto simp: call_keys_def output_keys_def)

lemma unique_keys_Cons:
  "unique_keys (x # xs) \<Longrightarrow> unique_keys xs \<and> (\<forall>k. call_key x = Some k \<longrightarrow> k \<notin> call_keys xs) \<and>
   (\<forall>k. output_key x = Some k \<longrightarrow> k \<notin> output_keys xs)"
  by (auto simp: unique_keys_def map_filter_Cons set_map_filter call_keys_def output_keys_def split: option.splits)

lemma remove_corresponding_paired:
  assumes "paired (x # xs)" and "unique_keys (x # xs)"
  shows "paired (remove_corresponding_for x xs)" and "unique_keys (remove_corresponding_for x xs)"
proof -
  have u: "unique_keys xs" and uc: "\<forall>k. call_key x = Some k \<longrightarrow> k \<notin> call_keys xs"
    and uo: "\<forall>k. output_key x = Some k \<longrightarrow> k \<notin> output_keys xs"
    using unique_keys_Cons [OF assms(2)] by blast+
  have sub: "call_keys (x # xs) \<subseteq> output_keys (x # xs)"
    and req: "\<And>i k. i \<in> set xs \<Longrightarrow> requires_call i = Some k \<Longrightarrow> k \<in> call_keys (x # xs)"
    using assms(1) unfolding paired_def by auto
  have out: "i \<in> set xs \<Longrightarrow> requires_call i = Some k \<Longrightarrow> k \<in> output_keys xs \<and> output_key i = Some k" for i k
    using requires_call_output_key by (fastforce simp: output_keys_def)
  consider (Call) k where "call_key x = Some k" "output_key x = None"
    | (Output) k where "call_key x = None" "output_key x = Some k"
    | (Other) "call_key x = None" "output_key x = None"
    using call_key_no_output [of x] by (cases "call_key x"; cases "output_key x") auto
  then show "paired (remove_corresponding_for x xs)"
  proof cases
    case Call
    then have "call_keys xs \<subseteq> output_keys xs - {k}" using sub uc by (auto simp: keys_Cons)
    moreover have "\<forall>i\<in>set (filter (\<lambda>i. output_key i \<noteq> Some k) xs). \<forall>k'. requires_call i = Some k' \<longrightarrow> k' \<in> call_keys xs"
      using req out Call by (fastforce simp: keys_Cons)
    ultimately show ?thesis
      using Call unfolding remove_corresponding_eq [OF u] paired_def by (simp add: keys_filter_output del: Set.filter_eq)
  next
    case Output
    then have "call_keys xs - {k} \<subseteq> output_keys xs" using sub uo by (auto simp: keys_Cons)
    moreover have "\<forall>i\<in>set (filter (\<lambda>i. call_key i \<noteq> Some k) xs). \<forall>k'. requires_call i = Some k' \<longrightarrow> k' \<in> call_keys xs - {k}"
      using req out Output uo by (fastforce simp: keys_Cons)
    ultimately show ?thesis
      using Output unfolding remove_corresponding_eq [OF u] paired_def by (simp add: keys_filter_call)
  next
    case Other
    then show ?thesis using sub req unfolding remove_corresponding_eq [OF u] paired_def by (simp add: keys_Cons)
  qed
  show "unique_keys (remove_corresponding_for x xs)"
    using u unfolding remove_corresponding_eq [OF u]
    by (auto simp: unique_keys_def distinct_map_filter_filter split: option.splits)
qed

text \<open>
  C36. Dropping the oldest item of a history keeps calls and outputs paired when call ids are not reused: the item
  goes together with its counterpart, and only with it. So the history can be shortened item by item.
\<close>

theorem remove_first_item_keeps_pairs:
  assumes "paired (history_items cm)" and "unique_keys (history_items cm)" and "history_items cm = x # rest"
  shows "paired (history_items (remove_first_item cm)) \<and> unique_keys (history_items (remove_first_item cm)) \<and>
    history_items (remove_first_item cm) =
      filter (\<lambda>i. (call_key x = None \<or> output_key i \<noteq> call_key x) \<and> (output_key x = None \<or> call_key i \<noteq> output_key x)) rest"
proof -
  have hi: "history_items (remove_first_item cm) = remove_corresponding_for x rest"
    using assms(3) by (simp add: remove_first_item_def)
  have p: "paired (x # rest)" and u: "unique_keys (x # rest)" using assms by simp_all
  have ur: "unique_keys rest" using unique_keys_Cons [OF u] by blast
  have "remove_corresponding_for x rest =
      filter (\<lambda>i. (call_key x = None \<or> output_key i \<noteq> call_key x) \<and> (output_key x = None \<or> call_key i \<noteq> output_key x)) rest"
  proof (cases "call_key x")
    case (Some k)
    with call_key_no_output [OF Some] show ?thesis by (simp add: remove_corresponding_eq [OF ur])
  next
    case None
    then show ?thesis by (cases "output_key x") (simp_all add: remove_corresponding_eq [OF ur])
  qed
  with remove_corresponding_paired [OF p u] show ?thesis unfolding hi by blast
qed

theorem remove_first_item_keeps_pairs_witness:
  "let items = [FunctionCall None (lit ''shell'') None [] None (lit ''1'') None, sample_message ''user'' ''hi'',
         FunctionCallOutput None (lit ''1'') (from_text (lit ''ok'')) None];
       cm = (manager_new :: (unit, unit, unit, nat) context_manager)\<lparr>history_items := items\<rparr> in
   paired (history_items cm) \<and> unique_keys (history_items cm) \<and> history_items cm = hd items # tl items \<and>
   paired (history_items (remove_first_item cm)) \<and>
   history_items (remove_first_item cm) = [sample_message ''user'' ''hi'']"
proof -
  define items :: "(unit, unit) response_item list" where
    "items = [FunctionCall None (lit ''shell'') None [] None (lit ''1'') None, sample_message ''user'' ''hi'',
       FunctionCallOutput None (lit ''1'') (from_text (lit ''ok'')) None]"
  define cm where "cm = (manager_new :: (unit, unit, unit, nat) context_manager)\<lparr>history_items := items\<rparr>"
  have 1: "paired (history_items cm)"
    by (simp add: cm_def items_def paired_def call_keys_def output_keys_def sample_message_def)
  have 2: "unique_keys (history_items cm)"
    by (simp add: cm_def items_def unique_keys_def map_filter_Cons sample_message_def List.map_filter_simps)
  have 3: "history_items cm = hd items # tl items" by (simp add: cm_def items_def)
  note kept = remove_first_item_keeps_pairs [OF 1 2 3]
  have "history_items (remove_first_item cm) = [sample_message ''user'' ''hi'']"
    using kept by (simp add: items_def sample_message_def)
  then show ?thesis
    using kept 1 2 3 unfolding Let_def items_def [symmetric] cm_def [symmetric] by blast
qed


section \<open>Token counts\<close>

lemma wrap_i64_add: "wrap_i64 (wrap_i64 a + b) = wrap_i64 (a + b)"
proof -
  have "(wrap_i64 a + b + 2 ^ 63) mod 2 ^ 64 = ((a + 2 ^ 63) mod 2 ^ 64 + b) mod 2 ^ 64"
    unfolding wrap_i64_def by (simp add: algebra_simps)
  also have "\<dots> = (a + b + 2 ^ 63) mod 2 ^ 64" unfolding mod_add_left_eq by (simp add: algebra_simps)
  finally show ?thesis unfolding wrap_i64_def [of "wrap_i64 a + b"] wrap_i64_def [of "a + b"] by simp
qed

lemma wrap_i64_id: "- (2 ^ 63) \<le> x \<Longrightarrow> x < 2 ^ 63 \<Longrightarrow> wrap_i64 x = x"
  by (simp add: wrap_i64_def)

text \<open>The counters of a usage, and the usage whose counters are the sums of those of a list, each modulo \<open>2 ^ 64\<close>.\<close>

definition usage_fields :: "(token_usage \<Rightarrow> int) list" where
  "usage_fields =
     [input_tokens, cached_input_tokens, cache_write_input_tokens, output_tokens, reasoning_output_tokens, total_tokens]"

definition usage_sum :: "token_usage list \<Rightarrow> token_usage" where
  "usage_sum us =
     \<lparr>input_tokens = wrap_i64 (sum_list (map input_tokens us)),
      cached_input_tokens = wrap_i64 (sum_list (map cached_input_tokens us)),
      cache_write_input_tokens = wrap_i64 (sum_list (map cache_write_input_tokens us)),
      output_tokens = wrap_i64 (sum_list (map output_tokens us)),
      reasoning_output_tokens = wrap_i64 (sum_list (map reasoning_output_tokens us)),
      total_tokens = wrap_i64 (sum_list (map total_tokens us))\<rparr>"

lemma usage_sum_field:
  "f \<in> set usage_fields \<Longrightarrow> f (usage_sum us) = wrap_i64 (sum_list (map f us))"
  by (auto simp: usage_fields_def usage_sum_def)

lemma usage_sum_snoc: "usage_add_assign (usage_sum us) u = usage_sum (us @ [u])"
  by (simp add: usage_add_assign_def usage_sum_def wrap_i64_add)

lemma usage_sum_Nil: "usage_sum [] = default_usage"
  by (simp add: usage_sum_def default_usage_def wrap_i64_def)

lemma update_token_info_Some:
  "token_info cm = Some \<lparr>total_token_usage = t, last_token_usage = l, model_context_window = w\<rparr> \<Longrightarrow>
   token_info (update_token_info u w cm) =
     Some \<lparr>total_token_usage = usage_add_assign t u, last_token_usage = u, model_context_window = w\<rparr>"
  by (simp add: update_token_info_def new_or_append_def Let_def append_last_usage_def split: option.splits)

lemma update_token_info_None:
  "token_info cm = None \<Longrightarrow>
   token_info (update_token_info u w cm) =
     Some \<lparr>total_token_usage = usage_add_assign default_usage u, last_token_usage = u, model_context_window = w\<rparr>"
  by (simp add: update_token_info_def new_or_append_def Let_def append_last_usage_def split: option.splits)

lemma token_info_updates:
  "us \<noteq> [] \<Longrightarrow> token_info (fold (\<lambda>u. update_token_info u w) us (manager_new :: ('j, 'm, 'c, 'n) context_manager)) =
     Some \<lparr>total_token_usage = usage_sum us, last_token_usage = last us, model_context_window = w\<rparr>"
proof (induction us rule: rev_induct)
  case (snoc u us)
  show ?case
  proof (cases "us = []")
    case True
    have "token_info (manager_new :: ('j, 'm, 'c, 'n) context_manager) = None"
      by (simp add: manager_new_def new_or_append_def)
    then show ?thesis using True usage_sum_snoc [of "[]" u] by (simp add: update_token_info_None usage_sum_Nil)
  qed (use snoc in \<open>simp add: update_token_info_Some usage_sum_snoc\<close>)
qed simp

text \<open>
  C37. The usage that a thread reports after any non-empty sequence of responses, starting from a new manager: the last
  usage is that of the last response, each of the six counters of the total is the sum of that counter over all responses
  modulo \<open>2 ^ 64\<close>, and the context window is the one given. A counter is the exact sum as long as that sum fits 64
  signed bits; beyond, the sum wraps as it does in a build without overflow checks.
\<close>

theorem token_usage_accumulates:
  assumes "us \<noteq> []"
  shows "\<exists>info. token_info (fold (\<lambda>u. update_token_info u w) us (manager_new :: ('j, 'm, 'c, 'n) context_manager)) = Some info \<and>
    last_token_usage info = last us \<and> model_context_window info = w \<and>
    total_token_usage info = usage_sum us \<and>
    (\<forall>f\<in>set usage_fields. - (2 ^ 63) \<le> sum_list (map f us) \<and> sum_list (map f us) < 2 ^ 63 \<longrightarrow>
       f (total_token_usage info) = sum_list (map f us))"
  using token_info_updates [OF assms, of w, where ?'j = 'j and ?'m = 'm and ?'c = 'c and ?'n = 'n]
  by (simp add: usage_sum_field wrap_i64_id)

theorem token_usage_accumulates_witness:
  "let u = default_usage\<lparr>input_tokens := 30, output_tokens := 10, total_tokens := 40\<rparr>;
       v = default_usage\<lparr>input_tokens := 2, total_tokens := 2\<rparr> in
   [u, v] \<noteq> [] \<and>
   (\<exists>info. token_info (fold (\<lambda>u. update_token_info u None) [u, v] (manager_new :: (unit, unit, unit, nat) context_manager)) = Some info \<and>
      last_token_usage info = v \<and> total_tokens (total_token_usage info) = 42 \<and>
      input_tokens (total_token_usage info) = 32 \<and> output_tokens (total_token_usage info) = 10)"
proof -
  define u where "u = default_usage\<lparr>input_tokens := 30, output_tokens := 10, total_tokens := 40\<rparr>"
  define v where "v = default_usage\<lparr>input_tokens := 2, total_tokens := 2\<rparr>"
  have ne: "[u, v] \<noteq> []" by simp
  have sums: "sum_list (map total_tokens [u, v]) = 42" "sum_list (map input_tokens [u, v]) = 32"
    "sum_list (map output_tokens [u, v]) = 10"
    by (simp_all add: u_def v_def default_usage_def)
  have fields: "total_tokens \<in> set usage_fields" "input_tokens \<in> set usage_fields" "output_tokens \<in> set usage_fields"
    by (simp_all add: usage_fields_def)
  obtain info where "token_info (fold (\<lambda>u. update_token_info u None) [u, v]
      (manager_new :: (unit, unit, unit, nat) context_manager)) = Some info" "last_token_usage info = v"
    and f: "\<forall>f\<in>set usage_fields. - (2 ^ 63) \<le> sum_list (map f [u, v]) \<and> sum_list (map f [u, v]) < 2 ^ 63 \<longrightarrow>
       f (total_token_usage info) = sum_list (map f [u, v])"
    using token_usage_accumulates [OF ne, of None, where ?'j = unit and ?'m = unit and ?'c = unit and ?'n = nat]
    by auto
  with bspec [OF f fields(1)] bspec [OF f fields(2)] bspec [OF f fields(3)] show ?thesis
    unfolding Let_def u_def [symmetric] v_def [symmetric] sums by (intro conjI exI [of _ info]) simp_all
qed

end
