(* ===== verification/Permissions.thy ===== *)
theory Permissions
  imports Absolute_Path "HOL-Library.List_Lexorder" "HOL-Library.Product_Lexorder" "HOL-Library.Monad_Syntax"
begin

text \<open>
  \<^verbatim>\<open>codex-rs/protocol/src/permissions.rs\<close> in the Unix configuration: file-system entries with an
  access mode, the access a policy gives to a path, the metadata directories that stay protected
  below a writable root, and the matcher of denied reads.

  A \<^verbatim>\<open>&Path\<close> argument is its text; an \<^verbatim>\<open>AbsolutePathBuf\<close> is the list of its components, and
  \<open>path_string\<close> is its text. The environment, the file system and the crate \<^verbatim>\<open>globset\<close> are
  parameters.
\<close>

section \<open>Standard library\<close>

text \<open>\<^verbatim>\<open>Path::starts_with\<close> and \<^verbatim>\<open>Path::strip_prefix\<close> compare components.\<close>

definition path_starts_with :: "path \<Rightarrow> path \<Rightarrow> bool" where
  "path_starts_with p base \<longleftrightarrow> take (length base) p = base"

definition path_strip_prefix :: "path \<Rightarrow> path \<Rightarrow> path option" where
  "path_strip_prefix p base = (if path_starts_with p base then Some (drop (length base) p) else None)"

definition result_ok :: "'e + 'a \<Rightarrow> 'a option" where
  "result_ok r = (case r of Inr x \<Rightarrow> Some x | Inl _ \<Rightarrow> None)"

text \<open>\<^verbatim>\<open>Iterator::max_by_key\<close>: the last of the greatest elements.\<close>

fun max_by_key :: "('a \<Rightarrow> 'k::linorder) \<Rightarrow> 'a list \<Rightarrow> 'a option" where
  "max_by_key f [] = None"
| "max_by_key f (x # xs) = Some (fold (\<lambda>y best. if f best \<le> f y then y else best) xs x)"

text \<open>The derived order of \<^verbatim>\<open>Component\<close>.\<close>

fun component_rank :: "component \<Rightarrow> nat \<times> rstring" where
  "component_rank RootDir = (0, [])"
| "component_rank CurDir = (1, [])"
| "component_rank ParentDir = (2, [])"
| "component_rank (Normal s) = (3, s)"

lemma component_rank_inject [simp]: "component_rank a = component_rank b \<longleftrightarrow> a = b"
  by (cases a; cases b) simp_all

instantiation component :: linorder
begin

definition less_eq_component :: "component \<Rightarrow> component \<Rightarrow> bool" where
  "a \<le> b \<longleftrightarrow> component_rank a \<le> component_rank b"

definition less_component :: "component \<Rightarrow> component \<Rightarrow> bool" where
  "a < b \<longleftrightarrow> component_rank a < component_rank b"

instance
  by standard (auto simp: less_eq_component_def less_component_def order.strict_iff_order)

end

text \<open>
  The parameters: the directories of the process, the variable \<^verbatim>\<open>TMPDIR\<close>, the kind and text of
  files, \<^verbatim>\<open>symlink_metadata\<close> reduced to whether a path is a link (\<open>None\<close> on error) and
  \<^verbatim>\<open>canonicalize\<close>.
\<close>

record 'e sandbox_env =
  env_paths :: "'e path_env"
  env_tmpdir :: "rstring option"
  env_is_dir :: "path \<Rightarrow> bool"
  env_is_file :: "path \<Rightarrow> bool"
  env_exists :: "path \<Rightarrow> bool"
  env_read_text :: "path \<Rightarrow> rstring option"
  env_symlink :: "path \<Rightarrow> bool option"
  env_canonicalize :: "rstring \<Rightarrow> 'e + path"

abbreviation env_home :: "'e sandbox_env \<Rightarrow> path option" where
  "env_home env \<equiv> home_dir (env_paths env)"

abbreviation env_absolute :: "'e sandbox_env \<Rightarrow> rstring \<Rightarrow> path option" where
  "env_absolute env p \<equiv> result_ok (from_absolute_path (env_paths env) p)"


section \<open>Entries\<close>

definition PROTECTED_METADATA_PATH_NAMES :: "rstring list" where
  "PROTECTED_METADATA_PATH_NAMES = [lit ''.git'', lit ''.agents'', lit ''.codex'']"

definition is_protected_metadata_name :: "rstring \<Rightarrow> bool" where
  "is_protected_metadata_name name = list_ex (\<lambda>metadata_name. name = metadata_name) PROTECTED_METADATA_PATH_NAMES"

definition metadata_path_name :: "rstring \<Rightarrow> rstring option" where
  "metadata_path_name name = find (\<lambda>metadata_name. name = metadata_name) PROTECTED_METADATA_PATH_NAMES"

datatype network_sandbox_policy = NetRestricted | NetEnabled

fun network_is_enabled :: "network_sandbox_policy \<Rightarrow> bool" where
  "network_is_enabled NetEnabled = True"
| "network_is_enabled NetRestricted = False"

datatype access_mode = ReadAccess | WriteAccess | DenyAccess

fun access_rank :: "access_mode \<Rightarrow> nat" where
  "access_rank ReadAccess = 0"
| "access_rank WriteAccess = 1"
| "access_rank DenyAccess = 2"

lemma access_rank_inject [simp]: "access_rank a = access_rank b \<longleftrightarrow> a = b"
  by (cases a; cases b) simp_all

text \<open>The derived order: among entries of the same path a denial wins, then writing.\<close>

instantiation access_mode :: linorder
begin

definition less_eq_access_mode :: "access_mode \<Rightarrow> access_mode \<Rightarrow> bool" where
  "a \<le> b \<longleftrightarrow> access_rank a \<le> access_rank b"

definition less_access_mode :: "access_mode \<Rightarrow> access_mode \<Rightarrow> bool" where
  "a < b \<longleftrightarrow> access_rank a < access_rank b"

instance
  by standard (auto simp: less_eq_access_mode_def less_access_mode_def)

end

definition can_read :: "access_mode \<Rightarrow> bool" where
  "can_read a \<longleftrightarrow> a \<noteq> DenyAccess"

definition can_write :: "access_mode \<Rightarrow> bool" where
  "can_write a \<longleftrightarrow> a = WriteAccess"

datatype special_path =
    SpecialRoot
  | SpecialMinimal
  | ProjectRoots "rstring option"
  | Tmpdir
  | SlashTmp
  | SpecialUnknown rstring "rstring option"

datatype file_system_path = PathEntry path | GlobEntry rstring | SpecialEntry special_path

datatype missing_path_behavior = SkipMissing

record sandbox_entry =
  entry_path :: file_system_path
  entry_access :: access_mode
  entry_missing :: "missing_path_behavior option"

definition entry_new :: "file_system_path \<Rightarrow> access_mode \<Rightarrow> sandbox_entry" where
  "entry_new p a = \<lparr>entry_path = p, entry_access = a, entry_missing = None\<rparr>"

definition skip_missing_path :: "file_system_path \<Rightarrow> access_mode \<Rightarrow> sandbox_entry" where
  "skip_missing_path p a = \<lparr>entry_path = p, entry_access = a, entry_missing = Some SkipMissing\<rparr>"

definition skips_missing_path :: "sandbox_entry \<Rightarrow> bool" where
  "skips_missing_path e \<longleftrightarrow> entry_missing e = Some SkipMissing"

datatype sandbox_kind = Restricted | Unrestricted | ExternalSandbox

record sandbox_policy =
  sandbox_kind :: sandbox_kind
  glob_scan_max_depth :: "nat option"
  sandbox_entries :: "sandbox_entry list"

record resolved_entry =
  resolved_path :: path
  resolved_access :: access_mode

definition fs_unrestricted :: sandbox_policy where
  "fs_unrestricted = \<lparr>sandbox_kind = Unrestricted, glob_scan_max_depth = None, sandbox_entries = []\<rparr>"

definition fs_external_sandbox :: sandbox_policy where
  "fs_external_sandbox = \<lparr>sandbox_kind = ExternalSandbox, glob_scan_max_depth = None, sandbox_entries = []\<rparr>"

definition fs_restricted :: "sandbox_entry list \<Rightarrow> sandbox_policy" where
  "fs_restricted entries = \<lparr>sandbox_kind = Restricted, glob_scan_max_depth = None, sandbox_entries = entries\<rparr>"

definition read_only_file_system_entries :: "sandbox_entry list" where
  "read_only_file_system_entries = [entry_new (SpecialEntry SpecialRoot) ReadAccess]"

definition fs_read_only :: sandbox_policy where
  "fs_read_only = fs_restricted read_only_file_system_entries"

definition remove_skip_missing_path_entries :: "sandbox_policy \<Rightarrow> sandbox_policy" where
  "remove_skip_missing_path_entries p =
     p\<lparr>sandbox_entries := filter (\<lambda>e. \<not> skips_missing_path e) (sandbox_entries p)\<rparr>"


section \<open>Resolving entries\<close>

text \<open>The panics of \<^verbatim>\<open>absolute_root_path_for_cwd\<close> give the empty path; they do not happen, see below.\<close>

definition absolute_root_path_for_cwd :: "'e sandbox_env \<Rightarrow> path \<Rightarrow> path" where
  "absolute_root_path_for_cwd env cwd =
     (case env_absolute env (path_string (last (path_ancestors cwd))) of
        Some root \<Rightarrow> root
      | None \<Rightarrow> [])"

definition resolve_file_system_special_path ::
  "'e sandbox_env \<Rightarrow> special_path \<Rightarrow> path option \<Rightarrow> path option" where
  "resolve_file_system_special_path env v cwd =
     (case v of
        SpecialRoot \<Rightarrow> None
      | SpecialMinimal \<Rightarrow> None
      | SpecialUnknown _ _ \<Rightarrow> None
      | ProjectRoots subpath \<Rightarrow>
          (case cwd of
             None \<Rightarrow> None
           | Some c \<Rightarrow>
               (case subpath of
                  Some s \<Rightarrow> Some (resolve_path_against_base (env_home env) s c)
                | None \<Rightarrow> Some c))
      | Tmpdir \<Rightarrow>
          (case env_tmpdir env of
             None \<Rightarrow> None
           | Some t \<Rightarrow> if t = [] then None else env_absolute env t)
      | SlashTmp \<Rightarrow>
          (case env_absolute env (lit ''/tmp'') of
             None \<Rightarrow> None
           | Some slash_tmp \<Rightarrow> if env_is_dir env slash_tmp then Some slash_tmp else None))"

definition resolve_file_system_path ::
  "'e sandbox_env \<Rightarrow> file_system_path \<Rightarrow> path option \<Rightarrow> path option" where
  "resolve_file_system_path env p cwd =
     (case p of
        PathEntry q \<Rightarrow> Some q
      | GlobEntry _ \<Rightarrow> None
      | SpecialEntry v \<Rightarrow> resolve_file_system_special_path env v cwd)"

definition resolve_entry_path ::
  "'e sandbox_env \<Rightarrow> file_system_path \<Rightarrow> path option \<Rightarrow> path option" where
  "resolve_entry_path env p cwd =
     (if p = SpecialEntry SpecialRoot then map_option (absolute_root_path_for_cwd env) cwd
      else resolve_file_system_path env p cwd)"

definition resolve_candidate_path :: "'e sandbox_env \<Rightarrow> rstring \<Rightarrow> rstring \<Rightarrow> path option" where
  "resolve_candidate_path env p cwd =
     (if path_is_absolute (path_components p) then env_absolute env p
      else map_option (\<lambda>c. abs_join (env_home env) c p) (env_absolute env cwd))"

definition resolved_entries_with_cwd ::
  "'e sandbox_env \<Rightarrow> sandbox_policy \<Rightarrow> rstring \<Rightarrow> resolved_entry list" where
  "resolved_entries_with_cwd env policy cwd =
     (let cwd_absolute = env_absolute env cwd in
      List.map_filter (\<lambda>entry.
          map_option (\<lambda>p. \<lparr>resolved_path = p, resolved_access = entry_access entry\<rparr>)
            (resolve_entry_path env (entry_path entry) cwd_absolute))
        (sandbox_entries policy))"

definition resolved_entry_precedence :: "resolved_entry \<Rightarrow> nat \<times> access_mode" where
  "resolved_entry_precedence e = (length (resolved_path e), resolved_access e)"

definition resolve_access_with_cwd ::
  "'e sandbox_env \<Rightarrow> sandbox_policy \<Rightarrow> rstring \<Rightarrow> rstring \<Rightarrow> access_mode" where
  "resolve_access_with_cwd env policy p cwd =
     (if sandbox_kind policy \<noteq> Restricted then WriteAccess
      else
        (case resolve_candidate_path env p cwd of
           None \<Rightarrow> DenyAccess
         | Some target \<Rightarrow>
             (case max_by_key resolved_entry_precedence
                 (filter (\<lambda>e. path_starts_with target (resolved_path e)) (resolved_entries_with_cwd env policy cwd)) of
                Some e \<Rightarrow> resolved_access e
              | None \<Rightarrow> DenyAccess)))"

definition can_read_path_with_cwd :: "'e sandbox_env \<Rightarrow> sandbox_policy \<Rightarrow> rstring \<Rightarrow> rstring \<Rightarrow> bool" where
  "can_read_path_with_cwd env policy p cwd = can_read (resolve_access_with_cwd env policy p cwd)"


section \<open>Whole-disk access\<close>

fun special_paths_share_target :: "special_path \<Rightarrow> special_path \<Rightarrow> bool" where
  "special_paths_share_target SpecialRoot SpecialRoot = True"
| "special_paths_share_target SpecialMinimal SpecialMinimal = True"
| "special_paths_share_target Tmpdir Tmpdir = True"
| "special_paths_share_target SlashTmp SlashTmp = True"
| "special_paths_share_target (ProjectRoots left) (ProjectRoots right) = (left = right)"
| "special_paths_share_target (SpecialUnknown left left_subpath) (SpecialUnknown right right_subpath) =
     (left = right \<and> left_subpath = right_subpath)"
| "special_paths_share_target _ _ = False"

definition special_path_matches_absolute_path :: "special_path \<Rightarrow> path \<Rightarrow> bool" where
  "special_path_matches_absolute_path v p =
     (case v of
        SpecialRoot \<Rightarrow> path_parent_dir p = None
      | SlashTmp \<Rightarrow> p = path_components (lit ''/tmp'')
      | _ \<Rightarrow> False)"

fun file_system_paths_share_target :: "file_system_path \<Rightarrow> file_system_path \<Rightarrow> bool" where
  "file_system_paths_share_target (PathEntry left) (PathEntry right) = (left = right)"
| "file_system_paths_share_target (SpecialEntry left) (SpecialEntry right) = special_paths_share_target left right"
| "file_system_paths_share_target (PathEntry p) (SpecialEntry v) = special_path_matches_absolute_path v p"
| "file_system_paths_share_target (SpecialEntry v) (PathEntry p) = special_path_matches_absolute_path v p"
| "file_system_paths_share_target (GlobEntry left) (GlobEntry right) = (left = right)"
| "file_system_paths_share_target _ _ = False"

definition has_root_access :: "sandbox_policy \<Rightarrow> (access_mode \<Rightarrow> bool) \<Rightarrow> bool" where
  "has_root_access policy predicate \<longleftrightarrow>
     sandbox_kind policy = Restricted \<and>
     list_ex (\<lambda>e. entry_path e = SpecialEntry SpecialRoot \<and> predicate (entry_access e)) (sandbox_entries policy)"

definition has_denied_read_restrictions :: "sandbox_policy \<Rightarrow> bool" where
  "has_denied_read_restrictions policy \<longleftrightarrow>
     sandbox_kind policy = Restricted \<and> list_ex (\<lambda>e. entry_access e = DenyAccess) (sandbox_entries policy)"

definition has_same_target_write_override :: "sandbox_policy \<Rightarrow> sandbox_entry \<Rightarrow> bool" where
  "has_same_target_write_override policy entry =
     list_ex (\<lambda>candidate. can_write (entry_access candidate) \<and> entry_access entry < entry_access candidate \<and>
        file_system_paths_share_target (entry_path candidate) (entry_path entry)) (sandbox_entries policy)"

definition narrows_write :: "sandbox_policy \<Rightarrow> sandbox_entry \<Rightarrow> bool" where
  "narrows_write policy entry =
     (if can_write (entry_access entry) then False
      else
        (case entry_path entry of
           PathEntry _ \<Rightarrow> \<not> has_same_target_write_override policy entry
         | GlobEntry _ \<Rightarrow> True
         | SpecialEntry v \<Rightarrow>
             (case v of
                SpecialRoot \<Rightarrow> entry_access entry = DenyAccess
              | SpecialMinimal \<Rightarrow> False
              | SpecialUnknown _ _ \<Rightarrow> False
              | _ \<Rightarrow> \<not> has_same_target_write_override policy entry)))"

definition has_write_narrowing_entries :: "sandbox_policy \<Rightarrow> bool" where
  "has_write_narrowing_entries policy \<longleftrightarrow>
     sandbox_kind policy = Restricted \<and> list_ex (narrows_write policy) (sandbox_entries policy)"

definition has_full_disk_read_access :: "sandbox_policy \<Rightarrow> bool" where
  "has_full_disk_read_access policy =
     (if sandbox_kind policy \<noteq> Restricted then True
      else has_root_access policy can_read \<and> \<not> has_denied_read_restrictions policy)"

definition has_full_disk_write_access :: "sandbox_policy \<Rightarrow> bool" where
  "has_full_disk_write_access policy =
     (if sandbox_kind policy \<noteq> Restricted then True
      else has_root_access policy can_write \<and> \<not> has_write_narrowing_entries policy)"

definition include_platform_defaults :: "sandbox_policy \<Rightarrow> bool" where
  "include_platform_defaults policy \<longleftrightarrow>
     \<not> has_full_disk_read_access policy \<and> sandbox_kind policy = Restricted \<and>
     list_ex (\<lambda>e. entry_path e = SpecialEntry SpecialMinimal \<and> can_read (entry_access e)) (sandbox_entries policy)"


section \<open>Protected metadata\<close>

definition metadata_child_of_writable_root ::
  "'e sandbox_env \<Rightarrow> sandbox_policy \<Rightarrow> path \<Rightarrow> rstring \<Rightarrow> (path \<times> rstring) option" where
  "metadata_child_of_writable_root env policy target cwd =
     first_opt (List.map_filter (\<lambda>e.
        do {
          relative_path \<leftarrow> path_strip_prefix target (resolved_path e);
          first_component \<leftarrow> first_opt relative_path;
          metadata_name \<leftarrow> metadata_path_name (component_name first_component);
          Some (abs_join (env_home env) (resolved_path e) metadata_name, metadata_name)
        })
       (filter (\<lambda>e. can_write (resolved_access e)) (resolved_entries_with_cwd env policy cwd)))"

definition has_explicit_write_entry_for_metadata_path ::
  "'e sandbox_env \<Rightarrow> sandbox_policy \<Rightarrow> path \<Rightarrow> path \<Rightarrow> rstring \<Rightarrow> bool" where
  "has_explicit_write_entry_for_metadata_path env policy protected_metadata_path target cwd =
     list_ex (\<lambda>e. can_write (resolved_access e) \<and> path_starts_with target (resolved_path e) \<and>
        path_starts_with (resolved_path e) protected_metadata_path)
       (resolved_entries_with_cwd env policy cwd)"

definition is_metadata_write_denied :: "'e sandbox_env \<Rightarrow> sandbox_policy \<Rightarrow> rstring \<Rightarrow> rstring \<Rightarrow> bool" where
  "is_metadata_write_denied env policy p cwd =
     (if sandbox_kind policy \<noteq> Restricted then False
      else
        (case resolve_candidate_path env p cwd of
           None \<Rightarrow> True
         | Some target \<Rightarrow>
             (case metadata_child_of_writable_root env policy target cwd of
                None \<Rightarrow> False
              | Some (protected_metadata_path, _) \<Rightarrow>
                  \<not> has_explicit_write_entry_for_metadata_path env policy protected_metadata_path target cwd)))"

definition can_write_path_with_cwd :: "'e sandbox_env \<Rightarrow> sandbox_policy \<Rightarrow> rstring \<Rightarrow> rstring \<Rightarrow> bool" where
  "can_write_path_with_cwd env policy p cwd =
     (if \<not> can_write (resolve_access_with_cwd env policy p cwd) then False
      else if has_full_disk_write_access policy then True
      else \<not> is_metadata_write_denied env policy p cwd)"

definition forbidden_agent_metadata_write ::
  "'e sandbox_env \<Rightarrow> rstring \<Rightarrow> rstring \<Rightarrow> sandbox_policy \<Rightarrow> rstring option" where
  "forbidden_agent_metadata_write env p cwd policy =
     (if sandbox_kind policy \<noteq> Restricted then None
      else do {
        target \<leftarrow> resolve_candidate_path env p cwd;
        (protected_metadata_path, metadata_name) \<leftarrow> metadata_child_of_writable_root env policy target cwd;
        if has_explicit_write_entry_for_metadata_path env policy protected_metadata_path target cwd then None
        else if \<not> can_write_path_with_cwd env policy (path_string target) cwd then Some metadata_name
        else None
      })"

definition has_explicit_non_write_entry_for_path_with_cwd ::
  "'e sandbox_env \<Rightarrow> sandbox_policy \<Rightarrow> rstring \<Rightarrow> rstring \<Rightarrow> bool" where
  "has_explicit_non_write_entry_for_path_with_cwd env policy p cwd =
     (case resolve_candidate_path env p cwd of
        None \<Rightarrow> False
      | Some target \<Rightarrow>
          list_ex (\<lambda>e. \<not> skips_missing_path e \<and> \<not> can_write (entry_access e) \<and>
              resolve_entry_path env (entry_path e) (env_absolute env cwd) = Some target)
            (sandbox_entries policy))"

section \<open>Additional roots\<close>

definition with_additional_readable_roots ::
  "'e sandbox_env \<Rightarrow> sandbox_policy \<Rightarrow> rstring \<Rightarrow> path list \<Rightarrow> sandbox_policy" where
  "with_additional_readable_roots env policy cwd roots =
     (if has_full_disk_read_access policy then policy
      else
        fold (\<lambda>r policy.
            if can_read_path_with_cwd env policy (path_string r) cwd then policy
            else policy\<lparr>sandbox_entries := sandbox_entries policy @ [entry_new (PathEntry r) ReadAccess]\<rparr>)
          roots policy)"

definition with_additional_writable_roots ::
  "'e sandbox_env \<Rightarrow> sandbox_policy \<Rightarrow> rstring \<Rightarrow> path list \<Rightarrow> sandbox_policy" where
  "with_additional_writable_roots env policy cwd roots =
     fold (\<lambda>r policy.
         if can_write_path_with_cwd env policy (path_string r) cwd then policy
         else policy\<lparr>sandbox_entries := sandbox_entries policy @ [entry_new (PathEntry r) WriteAccess]\<rparr>)
       roots policy"

definition preserve_deny_read_restrictions_from :: "sandbox_policy \<Rightarrow> sandbox_policy \<Rightarrow> sandbox_policy" where
  "preserve_deny_read_restrictions_from self existing =
     (let denials = filter (\<lambda>e. entry_access e = DenyAccess) (sandbox_entries existing);
          self' = (if sandbox_kind self = Unrestricted \<and> denials \<noteq> []
                   then fs_restricted [entry_new (SpecialEntry SpecialRoot) WriteAccess] else self)
      in if sandbox_kind self' \<noteq> Restricted then self'
         else
           (let self'' = (if glob_scan_max_depth self' = None
                          then self'\<lparr>glob_scan_max_depth := glob_scan_max_depth existing\<rparr> else self')
            in self''\<lparr>sandbox_entries :=
                 fold (\<lambda>e entries. if e \<in> set entries then entries else entries @ [e]) denials
                   (sandbox_entries self'')\<rparr>))"


section \<open>The matcher of denied reads\<close>

text \<open>The crate \<^verbatim>\<open>globset\<close>, with the options the code sets.\<close>

record 'g glob_ops =
  glob_build :: "rstring \<Rightarrow> rstring + 'g"
  glob_is_match :: "'g \<Rightarrow> path \<Rightarrow> bool"

record 'g read_deny_matcher =
  denied_candidates :: "path list list"
  deny_read_matchers :: "'g list"
  invalid_pattern :: bool

datatype invalid_glob_behavior = FailClosed | ReturnError

definition push_unique :: "path list \<Rightarrow> path \<Rightarrow> path list" where
  "push_unique candidates candidate =
     (if list_ex (\<lambda>existing. existing = candidate) candidates then candidates else candidates @ [candidate])"

definition normalized_and_canonical_candidates :: "'e sandbox_env \<Rightarrow> rstring \<Rightarrow> path list" where
  "normalized_and_canonical_candidates env p =
     (let candidates = push_unique [] (case env_absolute env p of Some n \<Rightarrow> n | None \<Rightarrow> path_components p) in
      case result_ok (env_canonicalize env p) of
        None \<Rightarrow> candidates
      | Some canonical \<Rightarrow>
          (case env_absolute env (path_string canonical) of
             None \<Rightarrow> candidates
           | Some canonical_absolute \<Rightarrow> push_unique candidates canonical_absolute))"

definition normalize_effective_absolute_path :: "'e sandbox_env \<Rightarrow> path \<Rightarrow> path" where
  "normalize_effective_absolute_path env p =
     (let attempt = (\<lambda>ancestor.
            if env_symlink env ancestor = None then None
            else do {
              normalized_ancestor \<leftarrow>
                result_ok (canonicalize_preserving_symlinks (env_paths env) (env_symlink env)
                  (env_canonicalize env) (path_string ancestor));
              rest \<leftarrow> path_strip_prefix p ancestor;
              env_absolute env (path_string (path_join_std normalized_ancestor rest))
            })
      in case first_opt (List.map_filter attempt (path_ancestors p)) of
           Some normalized_path \<Rightarrow> normalized_path
         | None \<Rightarrow> p)"

definition dedup_absolute_paths :: "'e sandbox_env \<Rightarrow> path list \<Rightarrow> bool \<Rightarrow> path list" where
  "dedup_absolute_paths env ps normalize_effective_paths =
     foldl push_unique []
       (map (\<lambda>p. if normalize_effective_paths then normalize_effective_absolute_path env p else p) ps)"

definition get_unreadable_roots_with_cwd :: "'e sandbox_env \<Rightarrow> sandbox_policy \<Rightarrow> rstring \<Rightarrow> path list" where
  "get_unreadable_roots_with_cwd env policy cwd =
     (if sandbox_kind policy \<noteq> Restricted then []
      else
        (let root = map_option (absolute_root_path_for_cwd env) (env_absolute env cwd) in
         dedup_absolute_paths env
           (map resolved_path
             (filter (\<lambda>e. root \<noteq> Some (resolved_path e))
               (filter (\<lambda>e. \<not> can_read_path_with_cwd env policy (path_string (resolved_path e)) cwd)
                 (filter (\<lambda>e. resolved_access e = DenyAccess) (resolved_entries_with_cwd env policy cwd)))))
           True))"

definition get_unreadable_globs_with_cwd :: "'e sandbox_env \<Rightarrow> sandbox_policy \<Rightarrow> rstring \<Rightarrow> rstring list" where
  "get_unreadable_globs_with_cwd env policy cwd =
     (if sandbox_kind policy \<noteq> Restricted then []
      else
        remdups_adj (sort (map path_string (List.map_filter (\<lambda>e.
            case entry_path e of
              GlobEntry pattern \<Rightarrow>
                Some (resolve_path_against_base (env_home env) pattern (path_components cwd))
            | _ \<Rightarrow> None)
          (filter (\<lambda>e. entry_access e = DenyAccess) (sandbox_entries policy))))))"

fun build_matchers ::
  "'g glob_ops \<Rightarrow> invalid_glob_behavior \<Rightarrow> rstring list \<Rightarrow> 'g list \<Rightarrow> bool \<Rightarrow> rstring + 'g list \<times> bool" where
  "build_matchers globs behavior [] matchers invalid = Inr (matchers, invalid)"
| "build_matchers globs behavior (pattern # patterns) matchers invalid =
     (case glob_build globs pattern of
        Inr matcher \<Rightarrow> build_matchers globs behavior patterns (matchers @ [matcher]) invalid
      | Inl err \<Rightarrow>
          (case behavior of
             FailClosed \<Rightarrow> build_matchers globs behavior patterns matchers True
           | ReturnError \<Rightarrow>
               Inl (lit ''invalid deny-read glob pattern `'' @ pattern @ lit ''`: '' @ err)))"

definition matcher_build ::
  "'e sandbox_env \<Rightarrow> 'g glob_ops \<Rightarrow> sandbox_policy \<Rightarrow> rstring \<Rightarrow> invalid_glob_behavior \<Rightarrow>
   rstring + 'g read_deny_matcher option" where
  "matcher_build env globs policy cwd behavior =
     (if \<not> has_denied_read_restrictions policy then Inr None
      else
        (let denied = map (\<lambda>p. normalized_and_canonical_candidates env (path_string p))
               (get_unreadable_roots_with_cwd env policy cwd)
         in case build_matchers globs behavior (get_unreadable_globs_with_cwd env policy cwd) [] False of
              Inl e \<Rightarrow> Inl e
            | Inr (matchers, invalid) \<Rightarrow>
                Inr (Some \<lparr>denied_candidates = denied, deny_read_matchers = matchers, invalid_pattern = invalid\<rparr>)))"

text \<open>\<^verbatim>\<open>new\<close> would panic on an error; \<open>matcher_new\<close> is then \<open>None\<close>.\<close>

definition matcher_new ::
  "'e sandbox_env \<Rightarrow> 'g glob_ops \<Rightarrow> sandbox_policy \<Rightarrow> rstring \<Rightarrow> 'g read_deny_matcher option option" where
  "matcher_new env globs policy cwd = result_ok (matcher_build env globs policy cwd FailClosed)"

definition matcher_try_new ::
  "'e sandbox_env \<Rightarrow> 'g glob_ops \<Rightarrow> sandbox_policy \<Rightarrow> rstring \<Rightarrow> rstring + 'g read_deny_matcher option" where
  "matcher_try_new env globs policy cwd = matcher_build env globs policy cwd ReturnError"

definition is_read_denied :: "'e sandbox_env \<Rightarrow> 'g glob_ops \<Rightarrow> 'g read_deny_matcher \<Rightarrow> rstring \<Rightarrow> bool" where
  "is_read_denied env globs matcher p =
     (if invalid_pattern matcher then True
      else
        (let path_candidates = normalized_and_canonical_candidates env p in
         if list_ex (\<lambda>denied. list_ex (\<lambda>candidate. list_ex (\<lambda>denied_candidate.
              candidate = denied_candidate \<or> path_starts_with candidate denied_candidate) denied) path_candidates)
            (denied_candidates matcher)
         then True
         else list_ex (\<lambda>m. list_ex (glob_is_match globs m) path_candidates) (deny_read_matchers matcher)))"

section \<open>Text of absolute paths\<close>

definition name_ok :: "rstring \<Rightarrow> bool" where
  "name_ok s \<longleftrightarrow> s \<noteq> [] \<and> s \<noteq> [46] \<and> s \<noteq> [46, 46] \<and> 47 \<notin> set s"

text \<open>The paths that are the components of some text and absolute and normal.\<close>

definition abs_path :: "path \<Rightarrow> bool" where
  "abs_path p \<longleftrightarrow> (\<exists>names. p = RootDir # map Normal names \<and> list_all name_ok names)"

lemma abs_path_normal [intro]: "abs_path p \<Longrightarrow> absolute_normal p"
  by (auto simp: abs_path_def absolute_normal_iff list_all_iff)

lemma segment_names: "list_all name_ok names \<Longrightarrow> concat (map segment_component names) = map Normal names"
  by (induction names) (auto simp: name_ok_def)

lemma component_names [simp]: "map component_name (map Normal names) = names"
  by (induction names) simp_all

lemma path_components_string:
  assumes "abs_path p"
  shows "path_components (path_string p) = p"
proof -
  obtain names where p: "p = RootDir # map Normal names" and ok: "list_all name_ok names"
    using assms by (auto simp: abs_path_def)
  have "split_on 47 (47 # join [47] names) = [] # split_on 47 (join [47] names)" by simp
  also have "\<dots> = [] # (if names = [] then [[]] else names)"
    using ok by (auto simp: name_ok_def list_all_iff intro!: split_on_join)
  finally show ?thesis
    using segment_names [OF ok]
    by (auto simp: path_components_def path_string_def p comp_def starts_with_def Let_def)
qed

lemma from_absolute_path_string:
  assumes "abs_path p"
  shows "from_absolute_path env (path_string p) = Inr p"
proof -
  obtain s where s: "path_string p = 47 # s" using assms by (auto simp: abs_path_def path_string_def)
  have "maybe_expand_home_directory (home_dir env) (path_string p) = p"
    using path_components_string [OF assms] s
    by (simp add: maybe_expand_home_directory_def split: option.splits)
  then show ?thesis
    using normalize_path_id [of p] assms by (auto simp: from_absolute_path_def absolutize_def)
qed

lemma env_absolute_string [simp]: "abs_path p \<Longrightarrow> env_absolute env (path_string p) = Some p"
  by (simp add: from_absolute_path_string result_ok_def)

lemma resolve_candidate_string [simp]:
  "abs_path p \<Longrightarrow> resolve_candidate_path env (path_string p) cwd = Some p"
  by (auto simp: resolve_candidate_path_def path_components_string)

lemma ancestors_from_root:
  "list_all is_normal cs \<Longrightarrow> length cs \<le> n \<Longrightarrow> last (ancestors_from n (RootDir # cs)) = [RootDir]"
proof (induction n arbitrary: cs)
  case (Suc n)
  show ?case
  proof (cases cs rule: rev_cases)
    case (snoc bs b)
    then have "path_parent_dir (RootDir # cs) = Some (RootDir # bs)"
      using Suc.prems by (cases b) (auto simp: path_parent_dir_def last_opt_def butlast_append)
    moreover have "last (ancestors_from n (RootDir # bs)) = [RootDir]"
      using Suc.IH [of bs] Suc.prems snoc by simp
    moreover have "ancestors_from n (RootDir # bs) \<noteq> []" by (cases n) simp_all
    ultimately show ?thesis by simp
  qed (simp add: path_parent_dir_def last_opt_def)
qed simp

lemma root_abs_path [simp]: "abs_path [RootDir]" "abs_path [RootDir, Normal (lit ''tmp'')]"
  by (simp_all add: abs_path_def name_ok_def lit_def) (intro exI [of _ "[lit ''tmp'']"], simp add: lit_def name_ok_def)

lemma absolute_root_path_for_cwd_root:
  "absolute_normal c \<Longrightarrow> absolute_root_path_for_cwd env c = [RootDir]"
  by (auto simp: absolute_root_path_for_cwd_def path_ancestors_def absolute_normal_iff ancestors_from_root
      simp del: ancestors_from.simps)

section \<open>The entry that decides\<close>

text \<open>What the resolved entries \<open>es\<close> give to \<open>target\<close>.\<close>

definition access_of :: "resolved_entry list \<Rightarrow> path \<Rightarrow> access_mode" where
  "access_of es target =
     (case max_by_key resolved_entry_precedence (filter (\<lambda>e. path_starts_with target (resolved_path e)) es) of
        Some e \<Rightarrow> resolved_access e
      | None \<Rightarrow> DenyAccess)"

lemma resolve_access_eq:
  "sandbox_kind policy = Restricted \<Longrightarrow> resolve_candidate_path env p cwd = Some target \<Longrightarrow>
     resolve_access_with_cwd env policy p cwd = access_of (resolved_entries_with_cwd env policy cwd) target"
  by (simp add: resolve_access_with_cwd_def access_of_def)

lemma max_by_key_snoc:
  "max_by_key f (xs @ [y]) =
     (case max_by_key f xs of None \<Rightarrow> Some y | Some m \<Rightarrow> Some (if f m \<le> f y then y else m))"
  by (cases xs) simp_all

lemma max_by_key_None [simp]: "max_by_key f xs = None \<longleftrightarrow> xs = []"
  by (cases xs) simp_all

lemma max_by_key_greatest:
  "max_by_key f xs = Some m \<Longrightarrow> m \<in> set xs \<and> (\<forall>x \<in> set xs. f x \<le> f m)"
proof (induction xs arbitrary: m rule: rev_induct)
  case (snoc y xs)
  then show ?case by (fastforce simp: max_by_key_snoc split: option.splits if_splits)
qed simp

lemma max_by_key_ex: "xs \<noteq> [] \<Longrightarrow> \<exists>m. max_by_key f xs = Some m"
  by (cases xs) simp_all

lemma precedence_le:
  "resolved_entry_precedence a \<le> resolved_entry_precedence b \<longleftrightarrow>
     length (resolved_path a) < length (resolved_path b) \<or>
     length (resolved_path a) = length (resolved_path b) \<and> resolved_access a \<le> resolved_access b"
  by (auto simp: resolved_entry_precedence_def)

lemma access_le_rank: "a \<le> b \<longleftrightarrow> access_rank a \<le> access_rank b"
  by (simp add: less_eq_access_mode_def)

lemma read_least [simp]: "ReadAccess \<le> a" and deny_greatest [simp]: "a \<le> DenyAccess"
  by (cases a; simp add: access_le_rank)+

lemma starts_with_refl [simp]: "path_starts_with p p"
  by (simp add: path_starts_with_def)

lemma starts_with_prefix: "path_starts_with p q \<longleftrightarrow> prefix q p"
  by (auto simp: path_starts_with_def prefix_def) (metis append_take_drop_id)

text \<open>The deciding entry covers the path; no covering entry is longer, and none as long is stronger.\<close>

lemma access_of_decides:
  assumes "e \<in> set es" and "path_starts_with target (resolved_path e)"
  obtains m where "m \<in> set es" and "path_starts_with target (resolved_path m)"
    and "access_of es target = resolved_access m"
    and "\<forall>x \<in> set es. path_starts_with target (resolved_path x) \<longrightarrow>
           resolved_entry_precedence x \<le> resolved_entry_precedence m"
proof -
  let ?xs = "filter (\<lambda>e. path_starts_with target (resolved_path e)) es"
  have "?xs \<noteq> []" using assms by (auto simp: filter_empty_conv)
  then obtain m where m: "max_by_key resolved_entry_precedence ?xs = Some m" using max_by_key_ex by blast
  from max_by_key_greatest [OF m] m show thesis by (intro that [of m]) (auto simp: access_of_def)
qed

lemma access_of_eqI:
  assumes "m \<in> set es" and "path_starts_with target (resolved_path m)"
    and "\<And>x. x \<in> set es \<Longrightarrow> path_starts_with target (resolved_path x) \<Longrightarrow>
           resolved_entry_precedence x \<le> resolved_entry_precedence m"
  shows "access_of es target = resolved_access m"
proof -
  obtain k where k: "k \<in> set es" "path_starts_with target (resolved_path k)"
    "access_of es target = resolved_access k"
    "\<forall>x \<in> set es. path_starts_with target (resolved_path x) \<longrightarrow>
       resolved_entry_precedence x \<le> resolved_entry_precedence k"
    using access_of_decides [OF assms(1,2)] by blast
  have "resolved_entry_precedence k = resolved_entry_precedence m"
    using assms(3) [OF k(1,2)] k(4) assms(1,2) by (intro antisym) auto
  with k(3) show ?thesis by (simp add: resolved_entry_precedence_def)
qed

lemma access_of_uncovered:
  "(\<And>e. e \<in> set es \<Longrightarrow> \<not> path_starts_with target (resolved_path e)) \<Longrightarrow> access_of es target = DenyAccess"
  by (simp add: access_of_def filter_False)

lemma resolved_entries_iff:
  "r \<in> set (resolved_entries_with_cwd env policy cwd) \<longleftrightarrow>
     (\<exists>e \<in> set (sandbox_entries policy). resolved_access r = entry_access e \<and>
        resolve_entry_path env (entry_path e) (env_absolute env cwd) = Some (resolved_path r))"
proof -
  have "r = \<lparr>resolved_path = p, resolved_access = a\<rparr> \<longleftrightarrow> resolved_path r = p \<and> resolved_access r = a" for p a
    by (cases r) auto
  then show ?thesis
    by (auto simp: resolved_entries_with_cwd_def Let_def map_filter_def image_iff)
qed

section \<open>Whole-disk write access\<close>

text \<open>
  What the code relies on: the entries hold values of \<^verbatim>\<open>AbsolutePathBuf\<close>, and the current
  directory of the process is absolute.
\<close>

definition entries_ok :: "sandbox_policy \<Rightarrow> bool" where
  "entries_ok policy \<longleftrightarrow>
     list_all (\<lambda>e. case entry_path e of PathEntry q \<Rightarrow> abs_path q | _ \<Rightarrow> True) (sandbox_entries policy)"

definition process_ok :: "'e sandbox_env \<Rightarrow> bool" where
  "process_ok env \<longleftrightarrow>
     (case current_dir (env_paths env) of Inr cwd \<Rightarrow> path_is_absolute cwd | Inl _ \<Rightarrow> True)"

lemma env_absolute_normal:
  assumes "process_ok env" and "env_absolute env p = Some q"
  shows "absolute_normal q"
  using assms
  by (auto simp: process_ok_def result_ok_def from_absolute_path_def absolutize_def map_sum_eq_Inr_iff
      split: sum.splits if_splits intro: normalize_path_absolute absolutize_from_absolute_normal)

lemma resolve_candidate_normal:
  assumes "process_ok env" and "resolve_candidate_path env p cwd = Some q"
  shows "absolute_normal q"
  using assms env_absolute_normal [OF assms(1)]
  by (auto simp: resolve_candidate_path_def abs_join_def resolve_path_against_base_def
      split: if_splits intro: absolutize_from_absolute_normal)

lemma special_share_iff: "special_paths_share_target v w \<longleftrightarrow> v = w"
  by (cases v; cases w) simp_all

lemma slash_tmp_absolute [simp]: "env_absolute env (lit ''/tmp'') = Some [RootDir, Normal (lit ''tmp'')]"
  using env_absolute_string [OF root_abs_path(2), of env] by (simp add: path_string_def lit_def)

lemma slash_tmp_components [simp]: "path_components (lit ''/tmp'') = [RootDir, Normal (lit ''tmp'')]"
  by code_simp

lemma no_parent_root:
  assumes "absolute_normal p"
  shows "path_parent_dir p = None \<longleftrightarrow> p = [RootDir]"
proof -
  obtain cs where "p = RootDir # cs" "list_all is_normal cs" using assms by (auto simp: absolute_normal_iff)
  then show ?thesis
    by (cases cs rule: rev_cases) (auto simp: path_parent_dir_def last_opt_def split: component.splits)
qed

text \<open>Entries that share a target resolve to the same path, if \<^verbatim>\<open>/tmp\<close> is there.\<close>

lemma share_target_resolves:
  assumes "file_system_paths_share_target a b" and "resolve_entry_path env b (Some c) = Some q"
    and "absolute_normal c" and "env_is_dir env [RootDir, Normal (lit ''tmp'')]"
    and "\<And>p. a = PathEntry p \<or> b = PathEntry p \<Longrightarrow> absolute_normal p"
  shows "resolve_entry_path env a (Some c) = Some q"
proof (cases a)
  case (PathEntry p)
  with assms show ?thesis
    by (cases b) (auto simp: special_path_matches_absolute_path_def resolve_entry_path_def
        resolve_file_system_path_def resolve_file_system_special_path_def no_parent_root
        absolute_root_path_for_cwd_root split: special_path.splits if_splits)
next
  case (SpecialEntry v)
  with assms show ?thesis
    by (cases b) (auto simp: special_path_matches_absolute_path_def resolve_entry_path_def
        resolve_file_system_path_def resolve_file_system_special_path_def no_parent_root special_share_iff
        absolute_root_path_for_cwd_root split: special_path.splits if_splits)
next
  case (GlobEntry g)
  with assms show ?thesis by (cases b) (auto simp: resolve_entry_path_def resolve_file_system_path_def)
qed

text \<open>An entry that does not narrow writing is outranked by an entry for writing the same path.\<close>

lemma not_narrowing_outranked:
  assumes "e \<in> set (sandbox_entries policy)" and "\<not> narrows_write policy e" and "entry_access e \<noteq> WriteAccess"
    and "resolve_entry_path env (entry_path e) (Some c) = Some q"
    and "absolute_normal c" and "env_is_dir env [RootDir, Normal (lit ''tmp'')]" and "entries_ok policy"
    and root: "root \<in> set (sandbox_entries policy)" "entry_path root = SpecialEntry SpecialRoot"
      "entry_access root = WriteAccess"
  shows "\<exists>w \<in> set (sandbox_entries policy). entry_access w = WriteAccess \<and> entry_access e = ReadAccess \<and>
    resolve_entry_path env (entry_path w) (Some c) = Some q"
proof -
  have ok: "absolute_normal p" if "x \<in> set (sandbox_entries policy)" "entry_path x = PathEntry p" for x p
    using assms(7) that by (force simp: entries_ok_def list_all_iff)
  show ?thesis
  proof (cases "has_same_target_write_override policy e")
    case True
    then obtain w where w: "w \<in> set (sandbox_entries policy)" "entry_access w = WriteAccess"
      "entry_access e < WriteAccess" "file_system_paths_share_target (entry_path w) (entry_path e)"
      by (auto simp: has_same_target_write_override_def list_ex_iff can_write_def)
    have "resolve_entry_path env (entry_path w) (Some c) = Some q"
      using share_target_resolves [OF w(4) assms(4,5,6)] ok w(1) assms(1) by blast
    moreover have "entry_access e = ReadAccess"
      using w(3) by (cases "entry_access e") (simp_all add: less_access_mode_def)
    ultimately show ?thesis using w by blast
  next
    case False
    then have "entry_path e = SpecialEntry SpecialRoot \<and> entry_access e \<noteq> DenyAccess"
      using assms(2-4)
      by (auto simp: narrows_write_def can_write_def resolve_entry_path_def resolve_file_system_path_def
          resolve_file_system_special_path_def split: file_system_path.splits special_path.splits if_splits)
    then have "entry_path e = entry_path root" "entry_access e = ReadAccess"
      using root assms(3) by (auto intro: access_mode.exhaust [of "entry_access e"])
    with assms(4) root show ?thesis by auto
  qed
qed

lemma full_disk_write_access:
  assumes "has_full_disk_write_access policy" and "sandbox_kind policy = Restricted" and "entries_ok policy"
    and "env_absolute env cwd = Some c" and "absolute_normal c" and "absolute_normal target"
    and "env_is_dir env [RootDir, Normal (lit ''tmp'')]"
  shows "access_of (resolved_entries_with_cwd env policy cwd) target = WriteAccess"
proof -
  let ?es = "resolved_entries_with_cwd env policy cwd"
  from assms(1,2) obtain root where root: "root \<in> set (sandbox_entries policy)"
    "entry_path root = SpecialEntry SpecialRoot" "entry_access root = WriteAccess"
    and nn: "\<And>e. e \<in> set (sandbox_entries policy) \<Longrightarrow> \<not> narrows_write policy e"
    by (auto simp: has_full_disk_write_access_def has_root_access_def has_write_narrowing_entries_def
        list_ex_iff can_write_def)
  let ?r = "\<lparr>resolved_path = [RootDir], resolved_access = WriteAccess\<rparr>"
  have "?r \<in> set ?es"
    using root assms(4,5) by (force simp: resolved_entries_iff resolve_entry_path_def absolute_root_path_for_cwd_root)
  moreover have "path_starts_with target (resolved_path ?r)"
    using assms(6) by (auto simp: path_starts_with_def absolute_normal_iff)
  ultimately obtain m where m: "m \<in> set ?es" "path_starts_with target (resolved_path m)"
    "access_of ?es target = resolved_access m"
    "\<forall>x \<in> set ?es. path_starts_with target (resolved_path x) \<longrightarrow>
       resolved_entry_precedence x \<le> resolved_entry_precedence m"
    using access_of_decides by blast
  from m(1) obtain e where e: "e \<in> set (sandbox_entries policy)" "resolved_access m = entry_access e"
    "resolve_entry_path env (entry_path e) (Some c) = Some (resolved_path m)"
    using assms(4) by (auto simp: resolved_entries_iff)
  show ?thesis
  proof (rule ccontr)
    assume "access_of ?es target \<noteq> WriteAccess"
    then have "entry_access e \<noteq> WriteAccess" using m(3) e(2) by simp
    then obtain w where w: "w \<in> set (sandbox_entries policy)" "entry_access w = WriteAccess"
      "entry_access e = ReadAccess" "resolve_entry_path env (entry_path w) (Some c) = Some (resolved_path m)"
      using not_narrowing_outranked [OF e(1) nn [OF e(1)] _ e(3) assms(5,7,3) root] by blast
    let ?w = "\<lparr>resolved_path = resolved_path m, resolved_access = WriteAccess\<rparr>"
    have "?w \<in> set ?es" using w assms(4) by (force simp: resolved_entries_iff)
    then have "resolved_entry_precedence ?w \<le> resolved_entry_precedence m" using m(2,4) by simp
    then show False using e(2) w(3) by (simp add: precedence_le access_le_rank)
  qed
qed

section \<open>Adding a readable root\<close>

lemma access_of_snoc:
  "access_of (es @ [e]) target =
     (if \<not> path_starts_with target (resolved_path e) then access_of es target
      else
        (case max_by_key resolved_entry_precedence (filter (\<lambda>e. path_starts_with target (resolved_path e)) es) of
           None \<Rightarrow> resolved_access e
         | Some m \<Rightarrow> if resolved_entry_precedence m \<le> resolved_entry_precedence e then resolved_access e
                     else resolved_access m))"
  by (simp add: access_of_def max_by_key_snoc split: option.splits)

lemma add_denied_root:
  assumes "access_of es r = DenyAccess" and "access_of (es @ [\<lparr>resolved_path = r, resolved_access = ReadAccess\<rparr>]) t \<noteq> access_of es t"
  shows "access_of es t = DenyAccess \<and>
    access_of (es @ [\<lparr>resolved_path = r, resolved_access = ReadAccess\<rparr>]) t = ReadAccess"
proof -
  let ?e = "\<lparr>resolved_path = r, resolved_access = ReadAccess\<rparr>"
  let ?xs = "filter (\<lambda>e. path_starts_with t (resolved_path e)) es"
  have under: "path_starts_with t r" using assms(2) by (auto simp: access_of_snoc split: if_splits)
  show ?thesis
  proof (cases "max_by_key resolved_entry_precedence ?xs")
    case None
    then show ?thesis using under by (simp add: access_of_snoc) (simp add: access_of_def)
  next
    case (Some m)
    note g = max_by_key_greatest [OF Some]
    have at: "access_of es t = resolved_access m" by (simp add: access_of_def Some)
    have le: "resolved_entry_precedence m \<le> resolved_entry_precedence ?e"
      using assms(2) under Some at by (auto simp: access_of_snoc split: if_splits)
    then have new: "access_of (es @ [?e]) t = ReadAccess" using under Some by (simp add: access_of_snoc)
    have "prefix (resolved_path m) r"
      using g under le by (auto simp: starts_with_prefix precedence_le intro: prefix_length_prefix)
    then have "access_of es r = resolved_access m"
      using g under by (intro access_of_eqI) (auto simp: starts_with_prefix intro: prefix_order.trans)
    with assms(1) at new show ?thesis by simp
  qed
qed

lemma add_root_readable:
  assumes "access_of es r = DenyAccess" and "access_of (es @ [\<lparr>resolved_path = r, resolved_access = ReadAccess\<rparr>]) r = DenyAccess"
  shows "\<exists>e \<in> set es. resolved_path e = r \<and> resolved_access e = DenyAccess"
proof -
  let ?xs = "filter (\<lambda>e. path_starts_with r (resolved_path e)) es"
  show ?thesis
  proof (cases "max_by_key resolved_entry_precedence ?xs")
    case None
    with assms(2) show ?thesis by (simp add: access_of_snoc)
  next
    case (Some m)
    note g = max_by_key_greatest [OF Some]
    have "resolved_access m = DenyAccess" using assms(1) by (simp add: access_of_def Some)
    moreover have "\<not> resolved_entry_precedence m \<le> resolved_entry_precedence \<lparr>resolved_path = r, resolved_access = ReadAccess\<rparr>"
      using assms(2) Some by (auto simp: access_of_snoc split: if_splits)
    then have "length r \<le> length (resolved_path m)" by (auto simp: precedence_le not_less)
    then have "resolved_path m = r" using g by (auto simp: path_starts_with_def)
    ultimately show ?thesis using g by auto
  qed
qed

definition add_readable_root :: "'e sandbox_env \<Rightarrow> rstring \<Rightarrow> path \<Rightarrow> sandbox_policy \<Rightarrow> sandbox_policy" where
  "add_readable_root env cwd r policy =
     (if can_read_path_with_cwd env policy (path_string r) cwd then policy
      else policy\<lparr>sandbox_entries := sandbox_entries policy @ [entry_new (PathEntry r) ReadAccess]\<rparr>)"

definition denies_root :: "'e sandbox_env \<Rightarrow> sandbox_policy \<Rightarrow> rstring \<Rightarrow> path \<Rightarrow> bool" where
  "denies_root env policy cwd r =
     list_ex (\<lambda>e. resolved_path e = r \<and> resolved_access e = DenyAccess) (resolved_entries_with_cwd env policy cwd)"

text \<open>Access only widens from nothing to reading; the denied roots stay denied.\<close>

definition widens_reading :: "'e sandbox_env \<Rightarrow> rstring \<Rightarrow> sandbox_policy \<Rightarrow> sandbox_policy \<Rightarrow> bool" where
  "widens_reading env cwd before after \<longleftrightarrow>
     sandbox_kind after = sandbox_kind before \<and>
     (\<forall>r. denies_root env after cwd r = denies_root env before cwd r) \<and>
     (\<forall>p. resolve_access_with_cwd env after p cwd = resolve_access_with_cwd env before p cwd \<or>
        resolve_access_with_cwd env before p cwd = DenyAccess \<and>
        resolve_access_with_cwd env after p cwd = ReadAccess)"

lemma widens_refl: "widens_reading env cwd p p"
  by (simp add: widens_reading_def)

lemma widens_trans: "widens_reading env cwd p q \<Longrightarrow> widens_reading env cwd q r \<Longrightarrow> widens_reading env cwd p r"
  unfolding widens_reading_def by (metis access_mode.distinct(3))

lemma resolved_entries_snoc:
  "resolved_entries_with_cwd env (policy\<lparr>sandbox_entries := sandbox_entries policy @ [entry_new (PathEntry r) a]\<rparr>) cwd =
     resolved_entries_with_cwd env policy cwd @ [\<lparr>resolved_path = r, resolved_access = a\<rparr>]"
  by (simp add: resolved_entries_with_cwd_def Let_def map_filter_def resolve_entry_path_def
      resolve_file_system_path_def entry_new_def)

lemma add_readable_root_widens:
  assumes "sandbox_kind policy = Restricted" and "abs_path r"
  shows "widens_reading env cwd policy (add_readable_root env cwd r policy)"
    and "can_read_path_with_cwd env (add_readable_root env cwd r policy) (path_string r) cwd \<or>
      denies_root env policy cwd r"
proof -
  let ?es = "resolved_entries_with_cwd env policy cwd"
  let ?p' = "policy\<lparr>sandbox_entries := sandbox_entries policy @ [entry_new (PathEntry r) ReadAccess]\<rparr>"
  have acc: "resolve_access_with_cwd env policy p cwd = access_of ?es t"
    "resolve_access_with_cwd env ?p' p cwd = access_of (?es @ [\<lparr>resolved_path = r, resolved_access = ReadAccess\<rparr>]) t"
    if "resolve_candidate_path env p cwd = Some t" for p t
    using that assms(1) by (simp_all add: resolve_access_eq resolved_entries_snoc)
  have none: "resolve_access_with_cwd env policy p cwd = resolve_access_with_cwd env ?p' p cwd"
    if "resolve_candidate_path env p cwd = None" for p
    using that assms(1) by (simp add: resolve_access_with_cwd_def)
  have deny: "access_of ?es r = DenyAccess" if "\<not> can_read_path_with_cwd env policy (path_string r) cwd"
    using that acc(1) [OF resolve_candidate_string [OF assms(2)]] by (simp add: can_read_path_with_cwd_def can_read_def)
  have "resolve_access_with_cwd env ?p' p cwd = resolve_access_with_cwd env policy p cwd \<or>
      resolve_access_with_cwd env policy p cwd = DenyAccess \<and> resolve_access_with_cwd env ?p' p cwd = ReadAccess"
    if "access_of ?es r = DenyAccess" for p
    using add_denied_root [OF that] acc [of p] none [of p] by (cases "resolve_candidate_path env p cwd") auto
  with deny show "widens_reading env cwd policy (add_readable_root env cwd r policy)"
    by (simp add: widens_reading_def add_readable_root_def denies_root_def resolved_entries_snoc)
  show "can_read_path_with_cwd env (add_readable_root env cwd r policy) (path_string r) cwd \<or> denies_root env policy cwd r"
    using add_root_readable [OF deny] acc(2) [OF resolve_candidate_string [OF assms(2)]]
    by (auto simp: add_readable_root_def can_read_path_with_cwd_def can_read_def denies_root_def list_ex_iff)
qed

lemma widens_keeps_reading:
  "widens_reading env cwd p q \<Longrightarrow> can_read_path_with_cwd env p x cwd \<Longrightarrow> can_read_path_with_cwd env q x cwd"
  unfolding widens_reading_def can_read_path_with_cwd_def can_read_def
  by (metis access_mode.distinct(3))

lemma add_readable_roots_widen:
  assumes "sandbox_kind policy = Restricted" and "list_all abs_path roots"
  shows "widens_reading env cwd policy (fold (add_readable_root env cwd) roots policy) \<and>
    (\<forall>r. r \<in> set roots \<longrightarrow>
      can_read_path_with_cwd env (fold (add_readable_root env cwd) roots policy) (path_string r) cwd \<or>
      denies_root env policy cwd r)"
  using assms
proof (induction roots arbitrary: policy)
  case Nil
  then show ?case by (simp add: widens_refl)
next
  case (Cons x roots)
  let ?p = "add_readable_root env cwd x policy"
  let ?q = "fold (add_readable_root env cwd) roots ?p"
  have fold: "fold (add_readable_root env cwd) (x # roots) policy = ?q" by simp
  have kind: "sandbox_kind ?p = Restricted" using Cons.prems by (simp add: add_readable_root_def)
  have ok: "abs_path x" "list_all abs_path roots" using Cons.prems by simp_all
  note first = add_readable_root_widens [OF Cons.prems(1) ok(1), of env cwd]
  note rest = Cons.IH [OF kind ok(2)]
  have w: "widens_reading env cwd policy ?q" using first(1) rest [THEN conjunct1] by (rule widens_trans)
  have same: "denies_root env ?p cwd r = denies_root env policy cwd r" for r
    using first(1) by (simp add: widens_reading_def)
  have "can_read_path_with_cwd env ?q (path_string r) cwd \<or> denies_root env policy cwd r" if "r \<in> set (x # roots)" for r
  proof (cases "r \<in> set roots")
    case True
    with rest same show ?thesis by simp
  next
    case False
    with that have "r = x" by simp
    with first(2) widens_keeps_reading [OF rest [THEN conjunct1], of "path_string x"] show ?thesis by blast
  qed
  with w show ?case unfolding fold by blast
qed

section \<open>Denied reads\<close>

lemma set_push_unique [simp]: "set (push_unique xs x) = insert x (set xs)"
  by (auto simp: push_unique_def list_ex_iff)

lemma set_dedup: "set (dedup_absolute_paths env ps b) = (\<lambda>p. if b then normalize_effective_absolute_path env p else p) ` set ps"
proof -
  have "set (foldl push_unique acc xs) = set acc \<union> set xs" for acc xs
    by (induction xs arbitrary: acc) auto
  then show ?thesis by (simp add: dedup_absolute_paths_def)
qed

lemma build_matchers_fail_closed: "\<exists>r. build_matchers globs FailClosed patterns ms b = Inr r"
  by (induction patterns arbitrary: ms b) (auto split: sum.splits)

lemma denied_entry_decides:
  assumes "e \<in> set es" and "resolved_access e = DenyAccess"
  shows "access_of es (resolved_path e) = DenyAccess"
proof -
  have "access_of es (resolved_path e) = resolved_access e"
    using assms
    by (intro access_of_eqI) (auto simp: precedence_le starts_with_prefix dest: prefix_length_le)
  with assms(2) show ?thesis by simp
qed

lemma candidates_lexical: "abs_path q \<Longrightarrow> q \<in> set (normalized_and_canonical_candidates env (path_string q))"
  by (simp add: normalized_and_canonical_candidates_def Let_def split: option.splits)

lemma unreadable_root_listed:
  assumes "sandbox_kind policy = Restricted" and "e \<in> set (resolved_entries_with_cwd env policy cwd)"
    and "resolved_access e = DenyAccess" and "abs_path (resolved_path e)" and "resolved_path e \<noteq> [RootDir]"
    and "env_absolute env cwd = Some c" and "absolute_normal c"
    and "normalize_effective_absolute_path env (resolved_path e) = resolved_path e"
  shows "resolved_path e \<in> set (get_unreadable_roots_with_cwd env policy cwd)"
proof -
  have "resolve_access_with_cwd env policy (path_string (resolved_path e)) cwd = DenyAccess"
    using denied_entry_decides [OF assms(2,3)] assms(1,4) by (simp add: resolve_access_eq)
  then show ?thesis
    using assms absolute_root_path_for_cwd_root [OF assms(7), of env]
    by (auto simp: get_unreadable_roots_with_cwd_def Let_def set_dedup can_read_path_with_cwd_def can_read_def
        image_iff intro!: bexI [of _ e])
qed


section \<open>Properties\<close>

text \<open>
  C13. A policy that reports write access to the whole disk lets every path be written, whatever
  narrower entries it has: they are all outranked by an entry for writing the same place. The
  directory \<^verbatim>\<open>/tmp\<close> has to exist, since an entry for it is otherwise ignored.
\<close>

theorem full_disk_write_covers_every_path:
  assumes "has_full_disk_write_access policy" and "entries_ok policy" and "process_ok env"
    and "env_absolute env cwd = Some c" and "resolve_candidate_path env p cwd = Some target"
    and "env_is_dir env [RootDir, Normal (lit ''tmp'')]"
  shows "can_write_path_with_cwd env policy p cwd"
proof (cases "sandbox_kind policy = Restricted")
  case True
  have "access_of (resolved_entries_with_cwd env policy cwd) target = WriteAccess"
    using full_disk_write_access [OF assms(1) True assms(2,4) _ _ assms(6)]
      env_absolute_normal [OF assms(3,4)] resolve_candidate_normal [OF assms(3,5)] .
  with True assms(1,5) show ?thesis by (simp add: can_write_path_with_cwd_def resolve_access_eq can_write_def)
next
  case False
  with assms(1) show ?thesis by (simp add: can_write_path_with_cwd_def resolve_access_with_cwd_def can_write_def)
qed

definition sample_sandbox_env :: "unit sandbox_env" where
  "sample_sandbox_env =
     \<lparr>env_paths = sample_path_env, env_tmpdir = Some (lit ''/t''), env_is_dir = (\<lambda>_. True),
      env_is_file = (\<lambda>_. False), env_exists = (\<lambda>_. True), env_read_text = (\<lambda>_. None),
      env_symlink = (\<lambda>_. None), env_canonicalize = (\<lambda>_. Inl ())\<rparr>"

lemma sample_process_ok: "process_ok sample_sandbox_env"
  by code_simp

theorem full_disk_write_covers_every_path_witness:
  "let policy = fs_restricted [entry_new (SpecialEntry SpecialRoot) WriteAccess, entry_new (SpecialEntry SlashTmp) ReadAccess,
        entry_new (PathEntry [RootDir, Normal (lit ''tmp'')]) WriteAccess]
   in can_write_path_with_cwd sample_sandbox_env policy (lit ''/tmp/x'') (lit ''/w'')"
proof -
  let ?p = "fs_restricted [entry_new (SpecialEntry SpecialRoot) WriteAccess, entry_new (SpecialEntry SlashTmp) ReadAccess,
      entry_new (PathEntry [RootDir, Normal (lit ''tmp'')]) WriteAccess]"
  have a: "has_full_disk_write_access ?p" by code_simp
  have b: "entries_ok ?p" by (simp add: entries_ok_def fs_restricted_def entry_new_def)
  have c: "env_absolute sample_sandbox_env (lit ''/w'') = Some [RootDir, Normal (lit ''w'')]" by code_simp
  have d: "resolve_candidate_path sample_sandbox_env (lit ''/tmp/x'') (lit ''/w'') =
      Some [RootDir, Normal (lit ''tmp''), Normal (lit ''x'')]" by code_simp
  have "env_is_dir sample_sandbox_env [RootDir, Normal (lit ''tmp'')]" by code_simp
  from full_disk_write_covers_every_path [OF a b sample_process_ok c d this] show ?thesis by simp
qed

text \<open>
  Without a directory \<^verbatim>\<open>/tmp\<close> the report is wrong: an entry for reading \<^verbatim>\<open>/tmp\<close> counts as
  outranked by the symbolic entry for writing it, which is then not resolved.
\<close>

lemma full_disk_write_needs_slash_tmp:
  "let env = sample_sandbox_env\<lparr>env_is_dir := (\<lambda>_. False)\<rparr>;
       policy = fs_restricted [entry_new (SpecialEntry SpecialRoot) WriteAccess, entry_new (SpecialEntry SlashTmp) WriteAccess,
         entry_new (PathEntry [RootDir, Normal (lit ''tmp'')]) ReadAccess]
   in has_full_disk_write_access policy \<and> \<not> can_write_path_with_cwd env policy (lit ''/tmp/x'') (lit ''/w'')"
  by code_simp

text \<open>
  C38. Adding readable roots makes every one of them readable, unless an entry denies exactly that
  path. It never takes access away, never grants writing, and leaves every denial in force.
\<close>

theorem additional_readable_roots_widen:
  assumes "sandbox_kind policy = Restricted" and "list_all abs_path roots" and "process_ok env"
    and "env_absolute env cwd = Some c"
  shows "let after = with_additional_readable_roots env policy cwd roots in
    (\<forall>r. r \<in> set roots \<longrightarrow> can_read_path_with_cwd env after (path_string r) cwd \<or> denies_root env policy cwd r) \<and>
    (\<forall>p. resolve_access_with_cwd env after p cwd = resolve_access_with_cwd env policy p cwd \<or>
       resolve_access_with_cwd env policy p cwd = DenyAccess \<and> resolve_access_with_cwd env after p cwd = ReadAccess) \<and>
    (\<forall>r. denies_root env after cwd r \<longleftrightarrow> denies_root env policy cwd r)"
proof (cases "has_full_disk_read_access policy")
  case True
  then have nodeny: "\<not> has_denied_read_restrictions policy" and "has_root_access policy can_read"
    using assms(1) by (simp_all add: has_full_disk_read_access_def)
  then obtain root where root: "root \<in> set (sandbox_entries policy)" "entry_path root = SpecialEntry SpecialRoot"
    by (auto simp: has_root_access_def list_ex_iff)
  let ?es = "resolved_entries_with_cwd env policy cwd"
  let ?r = "\<lparr>resolved_path = [RootDir], resolved_access = entry_access root\<rparr>"
  have "?r \<in> set ?es"
    using root assms(4) env_absolute_normal [OF assms(3,4)]
    by (force simp: resolved_entries_iff resolve_entry_path_def absolute_root_path_for_cwd_root)
  have "access_of ?es r \<noteq> DenyAccess" if "abs_path r" for r
  proof -
    have "path_starts_with r (resolved_path ?r)" using that by (auto simp: abs_path_def path_starts_with_def)
    then obtain m where "m \<in> set ?es" "access_of ?es r = resolved_access m"
      using access_of_decides [OF \<open>?r \<in> set ?es\<close>] by blast
    moreover from this(1) obtain e where "e \<in> set (sandbox_entries policy)" "resolved_access m = entry_access e"
      unfolding resolved_entries_iff by blast
    ultimately show ?thesis using nodeny assms(1) by (auto simp: has_denied_read_restrictions_def list_ex_iff)
  qed
  then have "can_read_path_with_cwd env policy (path_string r) cwd" if "r \<in> set roots" for r
    using that assms(1,2) by (auto simp: can_read_path_with_cwd_def can_read_def resolve_access_eq list_all_iff)
  then show ?thesis using True by (simp add: with_additional_readable_roots_def Let_def)
next
  case False
  then have "with_additional_readable_roots env policy cwd roots = fold (add_readable_root env cwd) roots policy"
    by (simp add: with_additional_readable_roots_def add_readable_root_def [abs_def])
  then show ?thesis
    using add_readable_roots_widen [OF assms(1,2), of env cwd] by (simp add: widens_reading_def Let_def)
qed

theorem additional_readable_roots_widen_witness:
  "let policy = fs_restricted [entry_new (PathEntry [RootDir, Normal (lit ''s'')]) DenyAccess];
       after = with_additional_readable_roots sample_sandbox_env policy (lit ''/w'') [[RootDir, Normal (lit ''a'')]]
   in can_read_path_with_cwd sample_sandbox_env after (lit ''/a'') (lit ''/w'')"
proof -
  let ?p = "fs_restricted [entry_new (PathEntry [RootDir, Normal (lit ''s'')]) DenyAccess]"
  let ?a = "[RootDir, Normal (lit ''a'')]"
  have "sandbox_kind ?p = Restricted" by (simp add: fs_restricted_def)
  moreover have "list_all abs_path [?a]"
    by (simp add: abs_path_def) (intro exI [of _ "[lit ''a'']"], simp add: name_ok_def lit_def)
  moreover have "env_absolute sample_sandbox_env (lit ''/w'') = Some [RootDir, Normal (lit ''w'')]" by code_simp
  moreover have "\<not> denies_root sample_sandbox_env ?p (lit ''/w'') ?a" by code_simp
  moreover have "path_string ?a = lit ''/a''" by code_simp
  ultimately show ?thesis
    using additional_readable_roots_widen [of ?p "[?a]" sample_sandbox_env "lit ''/w''"] sample_process_ok
    by (auto simp: Let_def)
qed



end
