(* ===== verification/Sandbox_Profiles.thy ===== *)
theory Sandbox_Profiles
  imports Permissions
begin

text \<open>
  The rest of \<^verbatim>\<open>codex-rs/protocol/src/permissions.rs\<close> (workspace policies, roots, symbolic project
  roots, legacy policies), \<^verbatim>\<open>SandboxPolicy\<close> and \<^verbatim>\<open>WritableRoot\<close> of \<^verbatim>\<open>protocol.rs\<close>, and
  \<^verbatim>\<open>PermissionProfile\<close> of \<^verbatim>\<open>models.rs\<close>.
\<close>

section \<open>Default protections below a writable root\<close>

definition is_git_pointer_file :: "'e sandbox_env \<Rightarrow> path \<Rightarrow> bool" where
  "is_git_pointer_file env p \<longleftrightarrow> env_is_file env p \<and> path_file_name p = Some (lit ''.git'')"

definition resolve_gitdir_from_file :: "'e sandbox_env \<Rightarrow> path \<Rightarrow> path option" where
  "resolve_gitdir_from_file env dot_git =
     do {
       contents \<leftarrow> env_read_text env dot_git;
       (before, raw) \<leftarrow> split_once 58 (trim contents);
       if trim before \<noteq> lit ''gitdir'' then None
       else if trim raw = [] then None
       else do {
         base \<leftarrow> path_parent_dir dot_git;
         let gitdir_path = resolve_path_against_base (env_home env) (trim raw) base;
         if env_exists env gitdir_path then Some gitdir_path else None
       }
     }"

definition default_read_only_subpaths_for_writable_root ::
  "'e sandbox_env \<Rightarrow> path \<Rightarrow> bool \<Rightarrow> path list" where
  "default_read_only_subpaths_for_writable_root env writable_root protect_missing_dot_codex =
     (let top_level_git = abs_join (env_home env) writable_root (lit ''.git'');
          is_file = env_is_file env top_level_git;
          git = (if env_is_dir env top_level_git \<or> is_file
                 then (if is_file \<and> is_git_pointer_file env top_level_git
                       then (case resolve_gitdir_from_file env top_level_git of Some g \<Rightarrow> [g] | None \<Rightarrow> [])
                       else []) @ [top_level_git]
                 else []);
          top_level_agents = abs_join (env_home env) writable_root (lit ''.agents'');
          agents = (if env_is_dir env top_level_agents then [top_level_agents] else []);
          top_level_codex = abs_join (env_home env) writable_root (lit ''.codex'');
          codex = (if protect_missing_dot_codex \<or> env_is_dir env top_level_codex then [top_level_codex] else [])
      in dedup_absolute_paths env (git @ agents @ codex) False)"

definition append_default_read_only_entry_if_no_explicit_rule ::
  "sandbox_entry list \<Rightarrow> file_system_path \<Rightarrow> sandbox_entry list" where
  "append_default_read_only_entry_if_no_explicit_rule entries p =
     (if list_ex (\<lambda>e. file_system_paths_share_target (entry_path e) p) entries then entries
      else entries @ [skip_missing_path p ReadAccess])"

definition append_default_read_only_path_if_no_explicit_rule ::
  "sandbox_entry list \<Rightarrow> path \<Rightarrow> sandbox_entry list" where
  "append_default_read_only_path_if_no_explicit_rule entries p =
     append_default_read_only_entry_if_no_explicit_rule entries (PathEntry p)"

definition append_default_read_only_project_root_subpath_if_no_explicit_rule ::
  "sandbox_entry list \<Rightarrow> rstring \<Rightarrow> sandbox_entry list" where
  "append_default_read_only_project_root_subpath_if_no_explicit_rule entries subpath =
     append_default_read_only_entry_if_no_explicit_rule entries (SpecialEntry (ProjectRoots (Some subpath)))"

definition protect_roots :: "'e sandbox_env \<Rightarrow> path list \<Rightarrow> bool \<Rightarrow> sandbox_entry list \<Rightarrow> sandbox_entry list" where
  "protect_roots env roots protect_missing_dot_codex entries =
     foldl (\<lambda>entries root.
         foldl append_default_read_only_path_if_no_explicit_rule entries
           (default_read_only_subpaths_for_writable_root env root protect_missing_dot_codex))
       entries roots"

text \<open>The entries that grant writing in a workspace policy.\<close>

definition workspace_entries :: "path list \<Rightarrow> bool \<Rightarrow> bool \<Rightarrow> sandbox_entry list" where
  "workspace_entries writable_roots exclude_tmpdir_env_var exclude_slash_tmp =
     [entry_new (SpecialEntry SpecialRoot) ReadAccess, entry_new (SpecialEntry (ProjectRoots None)) WriteAccess] @
     (if exclude_slash_tmp then [] else [entry_new (SpecialEntry SlashTmp) WriteAccess]) @
     (if exclude_tmpdir_env_var then [] else [entry_new (SpecialEntry Tmpdir) WriteAccess]) @
     map (\<lambda>p. entry_new (PathEntry p) WriteAccess) writable_roots"

definition fs_workspace_write :: "'e sandbox_env \<Rightarrow> path list \<Rightarrow> bool \<Rightarrow> bool \<Rightarrow> sandbox_policy" where
  "fs_workspace_write env writable_roots exclude_tmpdir_env_var exclude_slash_tmp =
     fs_restricted (protect_roots env writable_roots False
       (foldl append_default_read_only_project_root_subpath_if_no_explicit_rule
         (workspace_entries writable_roots exclude_tmpdir_env_var exclude_slash_tmp)
         PROTECTED_METADATA_PATH_NAMES))"

definition with_additional_legacy_workspace_writable_roots ::
  "'e sandbox_env \<Rightarrow> sandbox_policy \<Rightarrow> path list \<Rightarrow> sandbox_policy" where
  "with_additional_legacy_workspace_writable_roots env policy roots =
     (if sandbox_kind policy \<noteq> Restricted then policy
      else
        policy\<lparr>sandbox_entries :=
          foldl (\<lambda>entries p.
              let entries' = (if list_ex (\<lambda>e. can_write (entry_access e) \<and> entry_path e = PathEntry p) entries
                              then entries else entries @ [entry_new (PathEntry p) WriteAccess])
              in foldl append_default_read_only_path_if_no_explicit_rule entries'
                   (default_read_only_subpaths_for_writable_root env p False))
            (sandbox_entries policy) roots\<rparr>)"


section \<open>Symbolic project roots\<close>

definition PROJECT_ROOTS_GLOB_PATTERN_PREFIX :: rstring where
  "PROJECT_ROOTS_GLOB_PATTERN_PREFIX = lit ''codex-project-roots://''"

definition project_roots_glob_pattern :: "rstring \<Rightarrow> rstring" where
  "project_roots_glob_pattern subpath = PROJECT_ROOTS_GLOB_PATTERN_PREFIX @ subpath"

definition parse_project_roots_glob_pattern :: "rstring \<Rightarrow> rstring option" where
  "parse_project_roots_glob_pattern pattern = strip_prefix PROJECT_ROOTS_GLOB_PATTERN_PREFIX pattern"

definition resolve_project_roots_glob_pattern :: "'e sandbox_env \<Rightarrow> rstring \<Rightarrow> path \<Rightarrow> rstring" where
  "resolve_project_roots_glob_pattern env subpath root =
     path_string (resolve_path_against_base (env_home env) subpath root)"

definition materialize_path_with_cwd :: "'e sandbox_env \<Rightarrow> path option \<Rightarrow> file_system_path \<Rightarrow> file_system_path" where
  "materialize_path_with_cwd env cwd p =
     (case p of
        SpecialEntry (ProjectRoots _) \<Rightarrow>
          (case resolve_file_system_path env p cwd of Some q \<Rightarrow> PathEntry q | None \<Rightarrow> p)
      | GlobEntry pattern \<Rightarrow>
          (case (cwd, parse_project_roots_glob_pattern pattern) of
             (Some c, Some subpath) \<Rightarrow> GlobEntry (resolve_project_roots_glob_pattern env subpath c)
           | _ \<Rightarrow> p)
      | _ \<Rightarrow> p)"

definition materialize_project_roots_with_cwd :: "'e sandbox_env \<Rightarrow> sandbox_policy \<Rightarrow> rstring \<Rightarrow> sandbox_policy" where
  "materialize_project_roots_with_cwd env policy cwd =
     policy\<lparr>sandbox_entries :=
       map (\<lambda>e. e\<lparr>entry_path := materialize_path_with_cwd env (env_absolute env cwd) (entry_path e)\<rparr>)
         (sandbox_entries policy)\<rparr>"

definition materialize_entry :: "'e sandbox_env \<Rightarrow> path list \<Rightarrow> sandbox_entry \<Rightarrow> sandbox_entry list" where
  "materialize_entry env workspace_roots entry =
     (case entry_path entry of
        SpecialEntry (ProjectRoots subpath) \<Rightarrow>
          map (\<lambda>root. entry\<lparr>entry_path := PathEntry
              (case subpath of
                 Some s \<Rightarrow> resolve_path_against_base (env_home env) s root
               | None \<Rightarrow> root)\<rparr>) workspace_roots
      | GlobEntry pattern \<Rightarrow>
          (case parse_project_roots_glob_pattern pattern of
             Some subpath \<Rightarrow>
               map (\<lambda>root. entry\<lparr>entry_path := GlobEntry (resolve_project_roots_glob_pattern env subpath root)\<rparr>)
                 workspace_roots
           | None \<Rightarrow> [entry])
      | _ \<Rightarrow> [entry])"

definition materialize_project_roots_with_workspace_roots ::
  "'e sandbox_env \<Rightarrow> sandbox_policy \<Rightarrow> path list \<Rightarrow> sandbox_policy" where
  "materialize_project_roots_with_workspace_roots env policy workspace_roots =
     policy\<lparr>sandbox_entries := concat (map (materialize_entry env workspace_roots) (sandbox_entries policy))\<rparr>"

definition with_materialized_project_roots_for_workspace_roots ::
  "'e sandbox_env \<Rightarrow> sandbox_policy \<Rightarrow> path list \<Rightarrow> sandbox_policy" where
  "with_materialized_project_roots_for_workspace_roots env policy workspace_roots =
     policy\<lparr>sandbox_entries :=
       foldl (\<lambda>entries e. if e \<in> set entries then entries else entries @ [e]) (sandbox_entries policy)
         (sandbox_entries (materialize_project_roots_with_workspace_roots env policy workspace_roots))\<rparr>"


section \<open>Readable and writable roots\<close>

definition get_readable_roots_with_cwd :: "'e sandbox_env \<Rightarrow> sandbox_policy \<Rightarrow> rstring \<Rightarrow> path list" where
  "get_readable_roots_with_cwd env policy cwd =
     (if has_full_disk_read_access policy then []
      else
        dedup_absolute_paths env
          (map resolved_path
            (filter (\<lambda>e. can_read_path_with_cwd env policy (path_string (resolved_path e)) cwd)
              (filter (\<lambda>e. can_read (resolved_access e)) (resolved_entries_with_cwd env policy cwd))))
          True)"

record writable_root =
  wr_root :: path
  wr_read_only_subpaths :: "path list"
  wr_protected_metadata_names :: "rstring list"

definition path_contains_protected_metadata_name :: "writable_root \<Rightarrow> path \<Rightarrow> bool" where
  "path_contains_protected_metadata_name w p =
     (case path_strip_prefix p (wr_root w) of
        None \<Rightarrow> False
      | Some relative_path \<Rightarrow>
          (case first_opt relative_path of
             None \<Rightarrow> False
           | Some first_component \<Rightarrow>
               list_ex (\<lambda>name. component_name first_component = name) (wr_protected_metadata_names w)))"

definition is_path_writable :: "writable_root \<Rightarrow> path \<Rightarrow> bool" where
  "is_path_writable w p =
     (if \<not> path_starts_with p (wr_root w) then False
      else if list_ex (path_starts_with p) (wr_read_only_subpaths w) then False
      else if path_contains_protected_metadata_name w p then False
      else True)"

definition has_explicit_resolved_path_entry :: "resolved_entry list \<Rightarrow> path \<Rightarrow> bool" where
  "has_explicit_resolved_path_entry entries p = list_ex (\<lambda>e. resolved_path e = p) entries"

definition protected_metadata_names_for_writable_root ::
  "'e sandbox_env \<Rightarrow> sandbox_policy \<Rightarrow> path \<Rightarrow> path list \<Rightarrow> rstring \<Rightarrow> rstring list" where
  "protected_metadata_names_for_writable_root env policy root raw_writable_roots cwd =
     filter (\<lambda>metadata_name.
         list_all (\<lambda>metadata_path. \<not> can_write_path_with_cwd env policy (path_string metadata_path) cwd)
           (map (\<lambda>r. abs_join (env_home env) r metadata_name) (root # raw_writable_roots)))
       PROTECTED_METADATA_PATH_NAMES"

definition raw_carveout_path :: "'e sandbox_env \<Rightarrow> path \<Rightarrow> path list \<Rightarrow> path \<Rightarrow> path option" where
  "raw_carveout_path env root raw_writable_roots p =
     (if path_parent_dir root = None then None
      else if p = root then None
      else if path_starts_with p root then Some p
      else
        first_opt (List.map_filter (\<lambda>raw_root.
            case path_strip_prefix p raw_root of
              None \<Rightarrow> None
            | Some rest \<Rightarrow> if rest = [] then None else Some (abs_join (env_home env) root (path_string rest)))
          raw_writable_roots))"

definition carveout_path :: "'e sandbox_env \<Rightarrow> path \<Rightarrow> path list \<Rightarrow> path \<Rightarrow> path option" where
  "carveout_path env root raw_writable_roots p =
     (case raw_carveout_path env root raw_writable_roots p of
        Some raw \<Rightarrow> Some raw
      | None \<Rightarrow>
          (let effective_path = normalize_effective_absolute_path env p in
           if effective_path = root \<or> \<not> path_starts_with effective_path root then None
           else Some effective_path))"

definition writable_root_for ::
  "'e sandbox_env \<Rightarrow> sandbox_policy \<Rightarrow> rstring \<Rightarrow> path list \<Rightarrow> path \<Rightarrow> writable_root" where
  "writable_root_for env policy cwd writable_entries root =
     (let resolved_entries = resolved_entries_with_cwd env policy cwd;
          raw_writable_roots = filter (\<lambda>p. normalize_effective_absolute_path env p = root) writable_entries;
          protect_missing_dot_codex =
            (case env_absolute env cwd of
               Some c \<Rightarrow> normalize_effective_absolute_path env c = root
             | None \<Rightarrow> False);
          defaults = filter (\<lambda>p. \<not> has_explicit_resolved_path_entry resolved_entries p)
            (default_read_only_subpaths_for_writable_root env root protect_missing_dot_codex);
          carveouts = List.map_filter (\<lambda>e. carveout_path env root raw_writable_roots (resolved_path e))
            (filter (\<lambda>e. \<not> can_write_path_with_cwd env policy (path_string (resolved_path e)) cwd)
              (filter (\<lambda>e. \<not> can_write (resolved_access e)) resolved_entries))
      in \<lparr>wr_root = root,
          wr_read_only_subpaths = dedup_absolute_paths env (defaults @ carveouts) False,
          wr_protected_metadata_names =
            protected_metadata_names_for_writable_root env policy root raw_writable_roots cwd\<rparr>)"

definition get_writable_roots_with_cwd :: "'e sandbox_env \<Rightarrow> sandbox_policy \<Rightarrow> rstring \<Rightarrow> writable_root list" where
  "get_writable_roots_with_cwd env policy cwd =
     (if has_full_disk_write_access policy then []
      else
        (let writable_entries =
               map resolved_path
                 (filter (\<lambda>e. can_write_path_with_cwd env policy (path_string (resolved_path e)) cwd)
                   (filter (\<lambda>e. can_write (resolved_access e)) (resolved_entries_with_cwd env policy cwd)))
         in map (writable_root_for env policy cwd writable_entries)
              (dedup_absolute_paths env writable_entries True)))"


section \<open>Legacy policies\<close>

datatype network_access = AccessRestricted | AccessEnabled

datatype legacy_policy =
    DangerFullAccess
  | LegacyReadOnly bool
  | LegacyExternalSandbox network_access
  | WorkspaceWrite "path list" bool bool bool

definition legacy_network_access :: "network_sandbox_policy \<Rightarrow> network_access" where
  "legacy_network_access network = (if network_is_enabled network then AccessEnabled else AccessRestricted)"

fun legacy_has_full_disk_write_access :: "legacy_policy \<Rightarrow> bool" where
  "legacy_has_full_disk_write_access DangerFullAccess = True"
| "legacy_has_full_disk_write_access (LegacyExternalSandbox _) = True"
| "legacy_has_full_disk_write_access (LegacyReadOnly _) = False"
| "legacy_has_full_disk_write_access (WorkspaceWrite _ _ _ _) = False"

fun has_full_network_access :: "legacy_policy \<Rightarrow> bool" where
  "has_full_network_access DangerFullAccess = True"
| "has_full_network_access (LegacyExternalSandbox access) = (access = AccessEnabled)"
| "has_full_network_access (LegacyReadOnly access) = access"
| "has_full_network_access (WorkspaceWrite _ access _ _) = access"

definition network_from_legacy :: "legacy_policy \<Rightarrow> network_sandbox_policy" where
  "network_from_legacy policy = (if has_full_network_access policy then NetEnabled else NetRestricted)"

fun fs_from_legacy :: "'e sandbox_env \<Rightarrow> legacy_policy \<Rightarrow> sandbox_policy" where
  "fs_from_legacy env DangerFullAccess = fs_unrestricted"
| "fs_from_legacy env (LegacyExternalSandbox _) = fs_external_sandbox"
| "fs_from_legacy env (LegacyReadOnly _) = fs_restricted [entry_new (SpecialEntry SpecialRoot) ReadAccess]"
| "fs_from_legacy env (WorkspaceWrite writable_roots _ exclude_tmpdir exclude_slash_tmp) =
     fs_workspace_write env writable_roots exclude_tmpdir exclude_slash_tmp"

definition protect_cwd :: "'e sandbox_env \<Rightarrow> rstring \<Rightarrow> sandbox_entry list \<Rightarrow> sandbox_entry list" where
  "protect_cwd env cwd entries =
     (case env_absolute env cwd of
        Some cwd_root \<Rightarrow> protect_roots env [cwd_root] True entries
      | None \<Rightarrow> entries)"

definition from_legacy_sandbox_policy_for_cwd :: "'e sandbox_env \<Rightarrow> legacy_policy \<Rightarrow> rstring \<Rightarrow> sandbox_policy" where
  "from_legacy_sandbox_policy_for_cwd env policy cwd =
     (let file_system_policy = fs_from_legacy env policy in
      case policy of
        WorkspaceWrite writable_roots _ _ _ \<Rightarrow>
          file_system_policy\<lparr>sandbox_entries :=
            protect_roots env writable_roots False (protect_cwd env cwd (sandbox_entries file_system_policy))\<rparr>
      | _ \<Rightarrow> file_system_policy)"

definition from_legacy_sandbox_policy_preserving_deny_entries ::
  "'e sandbox_env \<Rightarrow> legacy_policy \<Rightarrow> rstring \<Rightarrow> sandbox_policy \<Rightarrow> sandbox_policy" where
  "from_legacy_sandbox_policy_preserving_deny_entries env policy cwd existing =
     (let rebuilt = from_legacy_sandbox_policy_for_cwd env policy cwd in
      if sandbox_kind rebuilt \<noteq> Restricted then rebuilt
      else
        rebuilt\<lparr>glob_scan_max_depth := glob_scan_max_depth existing,
          sandbox_entries :=
            foldl (\<lambda>entries e. if e \<in> set entries then entries else entries @ [e]) (sandbox_entries rebuilt)
              (filter (\<lambda>e. entry_access e = DenyAccess) (sandbox_entries existing))\<rparr>)"

record legacy_scan =
  workspace_root_writable :: bool
  scanned_roots :: "path list"
  tmpdir_writable :: bool
  slash_tmp_writable :: bool
  unbridgeable_root_write :: bool

definition scan_entry :: "'e sandbox_env \<Rightarrow> path option \<Rightarrow> sandbox_entry \<Rightarrow> legacy_scan \<Rightarrow> legacy_scan" where
  "scan_entry env cwd entry s =
     (case entry_path entry of
        GlobEntry _ \<Rightarrow> s
      | PathEntry p \<Rightarrow>
          if can_write (entry_access entry)
          then (if cwd = Some p then s\<lparr>workspace_root_writable := True\<rparr>
                else s\<lparr>scanned_roots := scanned_roots s @ [p]\<rparr>)
          else s
      | SpecialEntry v \<Rightarrow>
          (case v of
             SpecialRoot \<Rightarrow> if entry_access entry = WriteAccess then s\<lparr>unbridgeable_root_write := True\<rparr> else s
           | SpecialMinimal \<Rightarrow> s
           | ProjectRoots subpath \<Rightarrow>
               if subpath = None \<and> can_write (entry_access entry) then s\<lparr>workspace_root_writable := True\<rparr>
               else
                 (case resolve_file_system_special_path env v cwd of
                    Some p \<Rightarrow>
                      if can_write (entry_access entry) then s\<lparr>scanned_roots := scanned_roots s @ [p]\<rparr> else s
                  | None \<Rightarrow> s)
           | Tmpdir \<Rightarrow> if can_write (entry_access entry) then s\<lparr>tmpdir_writable := True\<rparr> else s
           | SlashTmp \<Rightarrow> if can_write (entry_access entry) then s\<lparr>slash_tmp_writable := True\<rparr> else s
           | SpecialUnknown _ _ \<Rightarrow> s))"

definition empty_scan :: legacy_scan where
  "empty_scan = \<lparr>workspace_root_writable = False, scanned_roots = [], tmpdir_writable = False,
     slash_tmp_writable = False, unbridgeable_root_write = False\<rparr>"

definition OUTSIDE_WORKSPACE_ERROR :: rstring where
  "OUTSIDE_WORKSPACE_ERROR = lit ''permissions profile requests filesystem writes outside the workspace root, which is not supported until the runtime enforces FileSystemSandboxPolicy directly''"

definition to_legacy_sandbox_policy ::
  "'e sandbox_env \<Rightarrow> sandbox_policy \<Rightarrow> network_sandbox_policy \<Rightarrow> rstring \<Rightarrow> rstring + legacy_policy" where
  "to_legacy_sandbox_policy env policy network cwd =
     (case sandbox_kind policy of
        ExternalSandbox \<Rightarrow> Inr (LegacyExternalSandbox (legacy_network_access network))
      | Unrestricted \<Rightarrow>
          Inr (if network_is_enabled network then DangerFullAccess else LegacyExternalSandbox AccessRestricted)
      | Restricted \<Rightarrow>
          (let s = fold (scan_entry env (env_absolute env cwd)) (sandbox_entries policy) empty_scan in
           if has_full_disk_write_access policy then
             Inr (if network_is_enabled network then DangerFullAccess else LegacyExternalSandbox AccessRestricted)
           else if workspace_root_writable s then
             Inr (WorkspaceWrite (dedup_absolute_paths env (scanned_roots s) False) (network_is_enabled network)
               (\<not> tmpdir_writable s) (\<not> slash_tmp_writable s))
           else if unbridgeable_root_write s \<or> scanned_roots s \<noteq> [] \<or> tmpdir_writable s \<or> slash_tmp_writable s then
             Inl OUTSIDE_WORKSPACE_ERROR
           else Inr (LegacyReadOnly (network_is_enabled network))))"

definition legacy_roots :: "'e sandbox_env \<Rightarrow> path list \<Rightarrow> bool \<Rightarrow> bool \<Rightarrow> rstring \<Rightarrow> path list" where
  "legacy_roots env writable_roots exclude_tmpdir_env_var exclude_slash_tmp cwd =
     writable_roots @
     (case env_absolute env cwd of Some c \<Rightarrow> [c] | None \<Rightarrow> []) @
     (if exclude_slash_tmp then []
      else (case env_absolute env (lit ''/tmp'') of
              Some slash_tmp \<Rightarrow> if env_is_dir env slash_tmp then [slash_tmp] else []
            | None \<Rightarrow> [])) @
     (if exclude_tmpdir_env_var then []
      else (case env_tmpdir env of
              None \<Rightarrow> []
            | Some t \<Rightarrow> if t = [] then [] else (case env_absolute env t of Some p \<Rightarrow> [p] | None \<Rightarrow> [])))"

fun legacy_get_writable_roots_with_cwd :: "'e sandbox_env \<Rightarrow> legacy_policy \<Rightarrow> rstring \<Rightarrow> writable_root list" where
  "legacy_get_writable_roots_with_cwd env (WorkspaceWrite writable_roots access exclude_tmpdir exclude_slash_tmp) cwd =
     map (\<lambda>root.
         \<lparr>wr_root = root,
          wr_read_only_subpaths =
            default_read_only_subpaths_for_writable_root env root (env_absolute env cwd = Some root),
          wr_protected_metadata_names = []\<rparr>)
       (legacy_roots env writable_roots exclude_tmpdir exclude_slash_tmp cwd)"
| "legacy_get_writable_roots_with_cwd env _ cwd = []"

fun legacy_runtime_file_system_policy_for_cwd :: "'e sandbox_env \<Rightarrow> legacy_policy \<Rightarrow> rstring \<Rightarrow> sandbox_policy" where
  "legacy_runtime_file_system_policy_for_cwd env (WorkspaceWrite writable_roots access exclude_tmpdir exclude_slash_tmp) cwd =
     fs_restricted (protect_roots env writable_roots False
       (protect_cwd env cwd (workspace_entries writable_roots exclude_tmpdir exclude_slash_tmp)))"
| "legacy_runtime_file_system_policy_for_cwd env policy cwd = fs_from_legacy env policy"


section \<open>Comparing policies\<close>

record semantic_signature =
  sig_full_read :: bool
  sig_full_write :: bool
  sig_platform_defaults :: bool
  sig_readable_roots :: "path list"
  sig_writable_roots :: "writable_root list"
  sig_unreadable_roots :: "path list"
  sig_unreadable_globs :: "rstring list"

definition sorted_absolute_paths :: "path list \<Rightarrow> path list" where
  "sorted_absolute_paths ps = sort ps"

definition sorted_writable_roots :: "writable_root list \<Rightarrow> writable_root list" where
  "sorted_writable_roots roots =
     sort_key wr_root
       (map (\<lambda>r. r\<lparr>wr_read_only_subpaths := sorted_absolute_paths (wr_read_only_subpaths r),
            wr_protected_metadata_names := remdups_adj (sort (wr_protected_metadata_names r))\<rparr>) roots)"

definition semantic_signature_of :: "'e sandbox_env \<Rightarrow> sandbox_policy \<Rightarrow> rstring \<Rightarrow> semantic_signature" where
  "semantic_signature_of env policy cwd =
     \<lparr>sig_full_read = has_full_disk_read_access policy,
      sig_full_write = has_full_disk_write_access policy,
      sig_platform_defaults = include_platform_defaults policy,
      sig_readable_roots = sorted_absolute_paths (get_readable_roots_with_cwd env policy cwd),
      sig_writable_roots = sorted_writable_roots (get_writable_roots_with_cwd env policy cwd),
      sig_unreadable_roots = sorted_absolute_paths (get_unreadable_roots_with_cwd env policy cwd),
      sig_unreadable_globs = get_unreadable_globs_with_cwd env policy cwd\<rparr>"

definition is_semantically_equivalent_to :: "'e sandbox_env \<Rightarrow> sandbox_policy \<Rightarrow> sandbox_policy \<Rightarrow> rstring \<Rightarrow> bool" where
  "is_semantically_equivalent_to env self other cwd \<longleftrightarrow>
     semantic_signature_of env self cwd = semantic_signature_of env other cwd"

definition protected_metadata_names_need_direct_runtime_enforcement ::
  "'e sandbox_env \<Rightarrow> sandbox_policy \<Rightarrow> legacy_policy \<Rightarrow> rstring \<Rightarrow> bool" where
  "protected_metadata_names_need_direct_runtime_enforcement env policy legacy cwd =
     list_ex (\<lambda>w.
         case find (\<lambda>candidate. wr_root candidate = wr_root w) (legacy_get_writable_roots_with_cwd env legacy cwd) of
           None \<Rightarrow> wr_protected_metadata_names w \<noteq> []
         | Some legacy_root \<Rightarrow>
             list_ex (\<lambda>name.
                 \<not> list_ex (\<lambda>subpath. subpath = abs_join (env_home env) (wr_root w) name)
                    (wr_read_only_subpaths legacy_root))
               (wr_protected_metadata_names w))
       (get_writable_roots_with_cwd env policy cwd)"

definition needs_direct_runtime_enforcement ::
  "'e sandbox_env \<Rightarrow> sandbox_policy \<Rightarrow> network_sandbox_policy \<Rightarrow> rstring \<Rightarrow> bool" where
  "needs_direct_runtime_enforcement env policy network cwd =
     (if sandbox_kind policy \<noteq> Restricted then False
      else
        (case to_legacy_sandbox_policy env policy network cwd of
           Inl _ \<Rightarrow> True
         | Inr legacy \<Rightarrow>
             if protected_metadata_names_need_direct_runtime_enforcement env policy legacy cwd then True
             else semantic_signature_of env policy cwd \<noteq>
               semantic_signature_of env (legacy_runtime_file_system_policy_for_cwd env legacy cwd) cwd))"


section \<open>Permission profiles\<close>

datatype sandbox_enforcement = EnforceManaged | EnforceDisabled | EnforceExternal

fun enforcement_from_legacy :: "legacy_policy \<Rightarrow> sandbox_enforcement" where
  "enforcement_from_legacy DangerFullAccess = EnforceDisabled"
| "enforcement_from_legacy (LegacyExternalSandbox _) = EnforceExternal"
| "enforcement_from_legacy (LegacyReadOnly _) = EnforceManaged"
| "enforcement_from_legacy (WorkspaceWrite _ _ _ _) = EnforceManaged"

datatype managed_permissions = ManagedRestricted "sandbox_entry list" "nat option" | ManagedUnrestricted

datatype permission_profile =
    ManagedProfile managed_permissions network_sandbox_policy
  | DisabledProfile
  | ExternalProfile network_sandbox_policy

text \<open>\<open>None\<close> is the panic for an external policy.\<close>

definition managed_from_sandbox_policy :: "sandbox_policy \<Rightarrow> managed_permissions option" where
  "managed_from_sandbox_policy policy =
     (case sandbox_kind policy of
        Restricted \<Rightarrow>
          Some (ManagedRestricted (sandbox_entries policy)
            (Option.bind (glob_scan_max_depth policy) (\<lambda>n. if n = 0 then None else Some n)))
      | Unrestricted \<Rightarrow> Some ManagedUnrestricted
      | ExternalSandbox \<Rightarrow> None)"

fun managed_to_sandbox_policy :: "managed_permissions \<Rightarrow> sandbox_policy" where
  "managed_to_sandbox_policy (ManagedRestricted entries depth) =
     \<lparr>sandbox_kind = Restricted, glob_scan_max_depth = depth, sandbox_entries = entries\<rparr>"
| "managed_to_sandbox_policy ManagedUnrestricted = fs_unrestricted"

definition default_profile :: permission_profile where
  "default_profile = ManagedProfile (ManagedRestricted [] None) NetRestricted"

fun profile_enforcement :: "permission_profile \<Rightarrow> sandbox_enforcement" where
  "profile_enforcement (ManagedProfile _ _) = EnforceManaged"
| "profile_enforcement DisabledProfile = EnforceDisabled"
| "profile_enforcement (ExternalProfile _) = EnforceExternal"

fun file_system_sandbox_policy :: "permission_profile \<Rightarrow> sandbox_policy" where
  "file_system_sandbox_policy (ManagedProfile file_system _) = managed_to_sandbox_policy file_system"
| "file_system_sandbox_policy DisabledProfile = fs_unrestricted"
| "file_system_sandbox_policy (ExternalProfile _) = fs_external_sandbox"

fun profile_network_sandbox_policy :: "permission_profile \<Rightarrow> network_sandbox_policy" where
  "profile_network_sandbox_policy (ManagedProfile _ network) = network"
| "profile_network_sandbox_policy (ExternalProfile network) = network"
| "profile_network_sandbox_policy DisabledProfile = NetEnabled"

definition to_runtime_permissions :: "permission_profile \<Rightarrow> sandbox_policy \<times> network_sandbox_policy" where
  "to_runtime_permissions profile = (file_system_sandbox_policy profile, profile_network_sandbox_policy profile)"

definition from_runtime_permissions_with_enforcement ::
  "sandbox_enforcement \<Rightarrow> sandbox_policy \<Rightarrow> network_sandbox_policy \<Rightarrow> permission_profile option" where
  "from_runtime_permissions_with_enforcement enforcement policy network =
     (case sandbox_kind policy of
        ExternalSandbox \<Rightarrow> Some (ExternalProfile network)
      | k \<Rightarrow>
          if k = Unrestricted \<and> enforcement = EnforceDisabled then Some DisabledProfile
          else map_option (\<lambda>file_system. ManagedProfile file_system network) (managed_from_sandbox_policy policy))"

definition from_runtime_permissions :: "sandbox_policy \<Rightarrow> network_sandbox_policy \<Rightarrow> permission_profile option" where
  "from_runtime_permissions policy network =
     from_runtime_permissions_with_enforcement
       (if sandbox_kind policy = ExternalSandbox then EnforceExternal else EnforceManaged) policy network"

definition profile_read_only :: "permission_profile option" where
  "profile_read_only =
     map_option (\<lambda>file_system. ManagedProfile file_system NetRestricted) (managed_from_sandbox_policy fs_read_only)"

definition profile_workspace_write_with ::
  "'e sandbox_env \<Rightarrow> path list \<Rightarrow> network_sandbox_policy \<Rightarrow> bool \<Rightarrow> bool \<Rightarrow> permission_profile option" where
  "profile_workspace_write_with env writable_roots network exclude_tmpdir_env_var exclude_slash_tmp =
     map_option (\<lambda>file_system. ManagedProfile file_system network)
       (managed_from_sandbox_policy (fs_workspace_write env writable_roots exclude_tmpdir_env_var exclude_slash_tmp))"

fun profile_materialize_project_roots ::
  "'e sandbox_env \<Rightarrow> permission_profile \<Rightarrow> path list \<Rightarrow> permission_profile option" where
  "profile_materialize_project_roots env (ManagedProfile file_system network) workspace_roots =
     map_option (\<lambda>fs. ManagedProfile fs network)
       (managed_from_sandbox_policy
         (materialize_project_roots_with_workspace_roots env (managed_to_sandbox_policy file_system) workspace_roots))"
| "profile_materialize_project_roots env profile workspace_roots = Some profile"

definition profile_from_legacy_sandbox_policy :: "'e sandbox_env \<Rightarrow> legacy_policy \<Rightarrow> permission_profile option" where
  "profile_from_legacy_sandbox_policy env policy =
     from_runtime_permissions_with_enforcement (enforcement_from_legacy policy) (fs_from_legacy env policy)
       (network_from_legacy policy)"

definition profile_from_legacy_sandbox_policy_for_cwd ::
  "'e sandbox_env \<Rightarrow> legacy_policy \<Rightarrow> rstring \<Rightarrow> permission_profile option" where
  "profile_from_legacy_sandbox_policy_for_cwd env policy cwd =
     from_runtime_permissions_with_enforcement (enforcement_from_legacy policy)
       (from_legacy_sandbox_policy_for_cwd env policy cwd) (network_from_legacy policy)"

fun profile_to_legacy_sandbox_policy ::
  "'e sandbox_env \<Rightarrow> permission_profile \<Rightarrow> rstring \<Rightarrow> rstring + legacy_policy" where
  "profile_to_legacy_sandbox_policy env (ManagedProfile file_system network) cwd =
     to_legacy_sandbox_policy env (managed_to_sandbox_policy file_system) network cwd"
| "profile_to_legacy_sandbox_policy env DisabledProfile cwd = Inr DangerFullAccess"
| "profile_to_legacy_sandbox_policy env (ExternalProfile network) cwd =
     Inr (LegacyExternalSandbox (legacy_network_access network))"

section \<open>Entries of a workspace policy\<close>

text \<open>The default protections only append entries for reading.\<close>

definition adds_reads :: "sandbox_entry list \<Rightarrow> sandbox_entry list \<Rightarrow> bool" where
  "adds_reads before after \<longleftrightarrow>
     (\<exists>new. after = before @ new \<and> list_all (\<lambda>e. entry_access e = ReadAccess) new)"

lemma adds_reads_refl [simp]: "adds_reads es es"
  by (simp add: adds_reads_def)

lemma adds_reads_trans: "adds_reads a b \<Longrightarrow> adds_reads b c \<Longrightarrow> adds_reads a c"
  by (auto simp: adds_reads_def)

lemma adds_reads_foldl:
  assumes "\<And>es x. adds_reads es (f es x)"
  shows "adds_reads es (foldl f es xs)"
proof (induction xs arbitrary: es)
  case (Cons x xs)
  from adds_reads_trans [OF assms Cons.IH] show ?case by simp
qed simp

lemma append_default_reads: "adds_reads es (append_default_read_only_entry_if_no_explicit_rule es p)"
  by (auto simp: append_default_read_only_entry_if_no_explicit_rule_def adds_reads_def skip_missing_path_def)

lemma protect_roots_reads: "adds_reads es (protect_roots env roots b es)"
  unfolding protect_roots_def
  by (intro adds_reads_foldl) (simp add: append_default_read_only_path_if_no_explicit_rule_def append_default_reads)

lemma workspace_write_reads:
  "adds_reads (workspace_entries roots et es) (sandbox_entries (fs_workspace_write env roots et es))"
proof -
  let ?mid = "foldl append_default_read_only_project_root_subpath_if_no_explicit_rule (workspace_entries roots et es)
    PROTECTED_METADATA_PATH_NAMES"
  have "adds_reads (workspace_entries roots et es) ?mid"
    by (intro adds_reads_foldl)
      (simp add: append_default_read_only_project_root_subpath_if_no_explicit_rule_def append_default_reads)
  moreover have "adds_reads ?mid (protect_roots env roots False ?mid)" by (rule protect_roots_reads)
  ultimately have "adds_reads (workspace_entries roots et es) (protect_roots env roots False ?mid)"
    by (rule adds_reads_trans)
  then show ?thesis by (simp add: fs_workspace_write_def fs_restricted_def)
qed

lemma workspace_write_kind [simp]: "sandbox_kind (fs_workspace_write env roots et es) = Restricted"
  by (simp add: fs_workspace_write_def fs_restricted_def)

lemma workspace_write_no_root_write:
  "\<not> has_full_disk_write_access (fs_workspace_write env roots et es)"
proof -
  obtain new where "sandbox_entries (fs_workspace_write env roots et es) = workspace_entries roots et es @ new"
    "list_all (\<lambda>e. entry_access e = ReadAccess) new"
    using workspace_write_reads unfolding adds_reads_def by blast
  then show ?thesis
    by (auto simp: has_full_disk_write_access_def has_root_access_def workspace_entries_def entry_new_def
        can_write_def list_ex_iff list_all_iff)
qed


section \<open>From a legacy policy and back\<close>

lemma scan_read [simp]: "entry_access e = ReadAccess \<Longrightarrow> scan_entry env cwd e s = s"
  by (auto simp: scan_entry_def can_write_def split: file_system_path.splits special_path.splits option.splits)

lemma scan_reads: "list_all (\<lambda>e. entry_access e = ReadAccess) es \<Longrightarrow> fold (scan_entry env cwd) es s = s"
  by (induction es) simp_all

lemma scan_roots:
  "cwd \<notin> Some ` set roots \<Longrightarrow>
     fold (scan_entry env cwd) (map (\<lambda>p. entry_new (PathEntry p) WriteAccess) roots) s =
     s\<lparr>scanned_roots := scanned_roots s @ roots\<rparr>"
  by (induction roots arbitrary: s) (auto simp: scan_entry_def entry_new_def can_write_def)

lemma scan_workspace:
  assumes "cwd \<notin> Some ` set roots"
  shows "fold (scan_entry env cwd) (workspace_entries roots et es) empty_scan =
    \<lparr>workspace_root_writable = True, scanned_roots = roots, tmpdir_writable = \<not> et,
     slash_tmp_writable = \<not> es, unbridgeable_root_write = False\<rparr>"
  by (auto simp: scan_roots [OF assms, unfolded entry_new_def] workspace_entries_def empty_scan_def scan_entry_def entry_new_def can_write_def)

lemma dedup_distinct: "distinct ps \<Longrightarrow> dedup_absolute_paths env ps False = ps"
proof -
  have "foldl push_unique acc xs = acc @ xs" if "distinct (acc @ xs)" for acc xs :: "path list"
    using that by (induction xs arbitrary: acc) (auto simp: push_unique_def list_ex_iff)
  from this [of "[]" ps] show "distinct ps \<Longrightarrow> ?thesis" by (simp add: dedup_absolute_paths_def)
qed

lemma to_legacy_workspace:
  assumes "distinct roots" and "env_absolute env cwd \<notin> Some ` set roots"
  shows "to_legacy_sandbox_policy env (fs_workspace_write env roots et es) network cwd =
    Inr (WorkspaceWrite roots (network_is_enabled network) et es)"
proof -
  obtain new where entries: "sandbox_entries (fs_workspace_write env roots et es) = workspace_entries roots et es @ new"
    and reads: "list_all (\<lambda>e. entry_access e = ReadAccess) new"
    using workspace_write_reads unfolding adds_reads_def by blast
  show ?thesis
    by (simp add: to_legacy_sandbox_policy_def entries scan_workspace [OF assms(2)] scan_reads [OF reads]
        dedup_distinct [OF assms(1)] workspace_write_no_root_write Let_def)
qed

definition separate_roots :: "'e sandbox_env \<Rightarrow> rstring \<Rightarrow> legacy_policy \<Rightarrow> bool" where
  "separate_roots env cwd policy =
     (case policy of
        WorkspaceWrite roots _ _ _ \<Rightarrow> distinct roots \<and> env_absolute env cwd \<notin> Some ` set roots
      | _ \<Rightarrow> True)"

lemma network_legacy [simp]:
  "network_is_enabled (if b then NetEnabled else NetRestricted) = b"
  by simp

lemma profile_runtime_roundtrip:
  assumes "\<And>entries network. profile \<noteq> ManagedProfile (ManagedRestricted entries (Some 0)) network"
  shows "from_runtime_permissions_with_enforcement (profile_enforcement profile)
     (fst (to_runtime_permissions profile)) (snd (to_runtime_permissions profile)) = Some profile"
proof (cases profile)
  case (ManagedProfile m n)
  have "Option.bind depth (\<lambda>n. if n = 0 then None else Some n) = depth"
    if "m = ManagedRestricted entries depth" for entries depth
    using assms ManagedProfile that by (cases depth) auto
  with ManagedProfile show ?thesis
    by (cases m) (simp_all add: to_runtime_permissions_def from_runtime_permissions_with_enforcement_def
        managed_from_sandbox_policy_def fs_unrestricted_def)
qed (simp_all add: to_runtime_permissions_def from_runtime_permissions_with_enforcement_def
    fs_unrestricted_def fs_external_sandbox_def)

section \<open>Metadata of the workspace\<close>

lemma protected_names:
  "n \<in> set PROTECTED_METADATA_PATH_NAMES \<Longrightarrow> path_components n = [Normal n] \<and> strip_prefix [126] n = None"
proof -
  have "list_all (\<lambda>n. path_components n = [Normal n] \<and> strip_prefix [126] n = None) PROTECTED_METADATA_PATH_NAMES"
    by code_simp
  then show "n \<in> set PROTECTED_METADATA_PATH_NAMES \<Longrightarrow> ?thesis" by (auto simp: list_all_iff)
qed

lemma join_metadata:
  assumes "absolute_normal c" and "n \<in> set PROTECTED_METADATA_PATH_NAMES"
  shows "resolve_path_against_base home n c = c @ [Normal n]"
proof -
  have "maybe_expand_home_directory home n = [Normal n]"
    using protected_names [OF assms(2)] by (simp add: maybe_expand_home_directory_def split: option.splits)
  moreover have "path_with_base [Normal n] c = c @ [Normal n]"
    using assms(1) by (auto simp: path_with_base_def path_join_std_def path_is_absolute_iff absolute_normal_iff)
  moreover have "normalize_path (c @ [Normal n]) = c @ [Normal n]"
    using assms(1) normalize_path_id [of "c @ [Normal n]"] by (auto simp: absolute_normal_iff)
  ultimately show ?thesis by (simp add: resolve_path_against_base_def absolutize_from_def)
qed

lemma metadata_path_name_eq: "metadata_path_name n = (if is_protected_metadata_name n then Some n else None)"
  by (auto simp: metadata_path_name_def is_protected_metadata_name_def PROTECTED_METADATA_PATH_NAMES_def)

lemma is_protected_iff: "is_protected_metadata_name n \<longleftrightarrow> n \<in> set PROTECTED_METADATA_PATH_NAMES"
  by (auto simp: is_protected_metadata_name_def list_ex_iff)

text \<open>
  The places other than the workspace that the policy makes writable: the additional roots and the temporary
  directories. The default protections of a root are read-only entries.
\<close>

definition writable_place :: "'e sandbox_env \<Rightarrow> path list \<Rightarrow> bool \<Rightarrow> bool \<Rightarrow> path \<Rightarrow> bool" where
  "writable_place env roots et es t \<longleftrightarrow>
     t \<in> set roots \<or>
     \<not> es \<and> resolve_file_system_special_path env SlashTmp None = Some t \<or>
     \<not> et \<and> resolve_file_system_special_path env Tmpdir None = Some t"

definition root_protection :: "'e sandbox_env \<Rightarrow> path list \<Rightarrow> path \<Rightarrow> bool" where
  "root_protection env roots d \<longleftrightarrow>
     list_ex (\<lambda>r. d \<in> set (default_read_only_subpaths_for_writable_root env r False)) roots"

lemma foldl_appends:
  assumes "\<And>es x. \<exists>new. f es x = es @ new \<and> (\<forall>e\<in>set new. P x e)"
  shows "\<exists>new. foldl f es xs = es @ new \<and> (\<forall>e\<in>set new. \<exists>x\<in>set xs. P x e)"
proof (induction xs arbitrary: es)
  case (Cons x xs)
  obtain new where new: "f es x = es @ new" "\<forall>e\<in>set new. P x e" using assms by blast
  obtain new' where "foldl f (es @ new) xs = (es @ new) @ new'" "\<forall>e\<in>set new'. \<exists>x\<in>set xs. P x e"
    using Cons.IH by blast
  with new show ?case by (intro exI [of _ "new @ new'"]) auto
qed simp

lemma protect_roots_appends:
  "\<exists>new. protect_roots env roots b es = es @ new \<and>
     (\<forall>e\<in>set new. \<exists>r\<in>set roots. \<exists>d\<in>set (default_read_only_subpaths_for_writable_root env r b).
        e = skip_missing_path (PathEntry d) ReadAccess)"
  unfolding protect_roots_def
  by (intro foldl_appends)
    (simp add: append_default_read_only_path_if_no_explicit_rule_def append_default_read_only_entry_if_no_explicit_rule_def)

lemma workspace_entries_protected:
  "\<exists>new. sandbox_entries (fs_workspace_write env roots et es) =
     (workspace_entries roots et es @
      map (\<lambda>n. skip_missing_path (SpecialEntry (ProjectRoots (Some n))) ReadAccess) PROTECTED_METADATA_PATH_NAMES) @ new \<and>
     (\<forall>e\<in>set new. \<exists>d. root_protection env roots d \<and> e = skip_missing_path (PathEntry d) ReadAccess)"
proof -
  have "foldl append_default_read_only_project_root_subpath_if_no_explicit_rule (workspace_entries roots et es)
      PROTECTED_METADATA_PATH_NAMES =
     workspace_entries roots et es @
     map (\<lambda>n. skip_missing_path (SpecialEntry (ProjectRoots (Some n))) ReadAccess) PROTECTED_METADATA_PATH_NAMES"
    by (auto simp: PROTECTED_METADATA_PATH_NAMES_def append_default_read_only_project_root_subpath_if_no_explicit_rule_def
        append_default_read_only_entry_if_no_explicit_rule_def workspace_entries_def entry_new_def
        skip_missing_path_def lit_def list_ex_iff special_path_matches_absolute_path_def)
  then show ?thesis
    using protect_roots_appends [of env roots False "workspace_entries roots et es @
       map (\<lambda>n. skip_missing_path (SpecialEntry (ProjectRoots (Some n))) ReadAccess) PROTECTED_METADATA_PATH_NAMES"]
    by (fastforce simp: fs_workspace_write_def fs_restricted_def root_protection_def list_ex_iff)
qed

lemma workspace_resolved:
  assumes "env_absolute env cwd = Some c" and "absolute_normal c"
  shows "\<exists>protections. (\<forall>d. protections d \<longrightarrow> root_protection env roots d) \<and>
    (\<forall>e. e \<in> set (resolved_entries_with_cwd env (fs_workspace_write env roots et es) cwd) \<longleftrightarrow>
      resolved_access e = ReadAccess \<and> resolved_path e = [RootDir] \<or>
      resolved_access e = WriteAccess \<and> (resolved_path e = c \<or> writable_place env roots et es (resolved_path e)) \<or>
      resolved_access e = ReadAccess \<and>
        ((\<exists>n. is_protected_metadata_name n \<and> resolved_path e = c @ [Normal n]) \<or> protections (resolved_path e)))"
proof -
  have sub: "resolve_path_against_base (env_home env) n c = c @ [Normal n]" if "n \<in> set PROTECTED_METADATA_PATH_NAMES" for n
    using join_metadata [OF assms(2) that] .
  have tmp: "resolve_file_system_special_path env SlashTmp x = resolve_file_system_special_path env SlashTmp None"
    "resolve_file_system_special_path env Tmpdir x = resolve_file_system_special_path env Tmpdir None" for x
    by (simp_all add: resolve_file_system_special_path_def)
  have roots: "resolve_file_system_special_path env (ProjectRoots None) (Some c) = Some c"
    "resolve_file_system_special_path env (ProjectRoots (Some n)) (Some c) =
       Some (resolve_path_against_base (env_home env) n c)" for n
    by (simp_all add: resolve_file_system_special_path_def)
  obtain new where new: "sandbox_entries (fs_workspace_write env roots et es) =
     (workspace_entries roots et es @
      map (\<lambda>n. skip_missing_path (SpecialEntry (ProjectRoots (Some n))) ReadAccess) PROTECTED_METADATA_PATH_NAMES) @ new"
    "\<forall>e\<in>set new. \<exists>d. root_protection env roots d \<and> e = skip_missing_path (PathEntry d) ReadAccess"
    using workspace_entries_protected by blast
  define protections where "protections d \<longleftrightarrow> skip_missing_path (PathEntry d) ReadAccess \<in> set new" for d
  have prot: "root_protection env roots d" if "protections d" for d
    using new(2) that by (auto simp: protections_def skip_missing_path_def)
  have form: "\<exists>d. e' = skip_missing_path (PathEntry d) ReadAccess" if "e' \<in> set new" for e'
    using bspec [OF new(2) that] by blast
  have news: "(\<exists>e'\<in>set new. resolved_access e = entry_access e' \<and>
       resolve_entry_path env (entry_path e') (Some c) = Some (resolved_path e)) \<longleftrightarrow>
     resolved_access e = ReadAccess \<and> protections (resolved_path e)" for e
  proof
    assume "\<exists>e'\<in>set new. resolved_access e = entry_access e' \<and>
       resolve_entry_path env (entry_path e') (Some c) = Some (resolved_path e)"
    then obtain e' where e': "e' \<in> set new" "resolved_access e = entry_access e'"
      "resolve_entry_path env (entry_path e') (Some c) = Some (resolved_path e)" by blast
    obtain d where "e' = skip_missing_path (PathEntry d) ReadAccess" using form [OF e'(1)] by blast
    with e' show "resolved_access e = ReadAccess \<and> protections (resolved_path e)"
      by (simp add: protections_def skip_missing_path_def resolve_entry_path_def resolve_file_system_path_def)
  next
    assume "resolved_access e = ReadAccess \<and> protections (resolved_path e)"
    then show "\<exists>e'\<in>set new. resolved_access e = entry_access e' \<and>
       resolve_entry_path env (entry_path e') (Some c) = Some (resolved_path e)"
      by (intro bexI [of _ "skip_missing_path (PathEntry (resolved_path e)) ReadAccess"])
        (simp_all add: protections_def skip_missing_path_def resolve_entry_path_def resolve_file_system_path_def)
  qed
  have names: "(\<exists>e'\<in>set (map (\<lambda>n. skip_missing_path (SpecialEntry (ProjectRoots (Some n))) ReadAccess) PROTECTED_METADATA_PATH_NAMES).
       resolved_access e = entry_access e' \<and> resolve_entry_path env (entry_path e') (Some c) = Some (resolved_path e)) \<longleftrightarrow>
     resolved_access e = ReadAccess \<and> (\<exists>n. is_protected_metadata_name n \<and> resolved_path e = c @ [Normal n])" for e
    using sub by (simp add: skip_missing_path_def resolve_entry_path_def resolve_file_system_path_def roots is_protected_iff)
      (metis option.inject)
  have base: "(\<exists>e'\<in>set (workspace_entries roots et es). resolved_access e = entry_access e' \<and>
       resolve_entry_path env (entry_path e') (Some c) = Some (resolved_path e)) \<longleftrightarrow>
     resolved_access e = ReadAccess \<and> resolved_path e = [RootDir] \<or>
     resolved_access e = WriteAccess \<and> (resolved_path e = c \<or> writable_place env roots et es (resolved_path e))" for e
    by (auto simp: workspace_entries_def entry_new_def resolve_entry_path_def
        resolve_file_system_path_def roots tmp [of "Some c"] absolute_root_path_for_cwd_root [OF assms(2)]
        writable_place_def)
  show ?thesis
    unfolding resolved_entries_iff new(1) assms(1) set_append bex_Un news names base
    using prot by blast
qed

lemma workspace_access:
  assumes cwd: "env_absolute env cwd = Some c" "absolute_normal c"
    and target: "target = c @ Normal x # rest"
    and places: "\<And>t. writable_place env roots et es t \<Longrightarrow> path_starts_with t c \<Longrightarrow> path_starts_with target t \<Longrightarrow> t = c"
  shows "let access = access_of (resolved_entries_with_cwd env (fs_workspace_write env roots et es) cwd) target in
    (is_protected_metadata_name x \<longrightarrow> access \<noteq> WriteAccess) \<and>
    (\<not> is_protected_metadata_name x \<and>
       (\<forall>d. root_protection env roots d \<and> path_starts_with target d \<longrightarrow> length d \<le> length c) \<longrightarrow>
     access = WriteAccess)"
proof -
  let ?es = "resolved_entries_with_cwd env (fs_workspace_write env roots et es) cwd"
  from workspace_resolved [OF cwd, of roots et es] obtain protections where
    prot: "\<forall>d. protections d \<longrightarrow> root_protection env roots d" and
    mem: "\<forall>e. e \<in> set ?es \<longleftrightarrow>
      resolved_access e = ReadAccess \<and> resolved_path e = [RootDir] \<or>
      resolved_access e = WriteAccess \<and> (resolved_path e = c \<or> writable_place env roots et es (resolved_path e)) \<or>
      resolved_access e = ReadAccess \<and>
        ((\<exists>n. is_protected_metadata_name n \<and> resolved_path e = c @ [Normal n]) \<or> protections (resolved_path e))"
    by blast
  have c_mem: "\<lparr>resolved_path = c, resolved_access = WriteAccess\<rparr> \<in> set ?es" by (simp add: mem)
  have cov: "path_starts_with target c" by (simp add: target path_starts_with_def)
  with c_mem obtain k where k: "k \<in> set ?es" "path_starts_with target (resolved_path k)"
    "access_of ?es target = resolved_access k"
    "\<forall>y \<in> set ?es. path_starts_with target (resolved_path y) \<longrightarrow>
       resolved_entry_precedence y \<le> resolved_entry_precedence k"
    using access_of_decides [of "\<lparr>resolved_path = c, resolved_access = WriteAccess\<rparr>" ?es target] by auto
  have "resolved_access k \<noteq> WriteAccess" if x: "is_protected_metadata_name x"
  proof
    assume wr: "resolved_access k = WriteAccess"
    have m_mem: "\<lparr>resolved_path = c @ [Normal x], resolved_access = ReadAccess\<rparr> \<in> set ?es" using x by (simp add: mem)
    have len: "length c < length (resolved_path k)"
      using bspec [OF k(4) m_mem] by (auto simp: precedence_le target path_starts_with_def)
    then have below: "path_starts_with (resolved_path k) c" "resolved_path k \<noteq> c"
      using k(2) cov by (auto simp: starts_with_prefix intro: prefix_length_prefix)
    from wr have "resolved_path k = c \<or> writable_place env roots et es (resolved_path k)"
      using spec [OF mem, of k] k(1) by simp
    with below places k(2) show False by blast
  qed
  moreover have "resolved_access k = WriteAccess"
    if x: "\<not> is_protected_metadata_name x"
      and free: "\<forall>d. root_protection env roots d \<and> path_starts_with target d \<longrightarrow> length d \<le> length c"
  proof (rule ccontr)
    assume other: "resolved_access k \<noteq> WriteAccess"
    have le: "length c < length (resolved_path k) \<or> length c = length (resolved_path k) \<and> WriteAccess \<le> resolved_access k"
      using bspec [OF k(4) c_mem] cov by (simp add: precedence_le)
    from other spec [OF mem, of k] k(1) have read: "resolved_access k = ReadAccess" by auto
    with le have longer: "length c < length (resolved_path k)" by (auto simp: access_le_rank)
    from other spec [OF mem, of k] k(1) consider "resolved_path k = [RootDir]"
      | n where "is_protected_metadata_name n" "resolved_path k = c @ [Normal n]"
      | "protections (resolved_path k)" by auto
    then show False
    proof cases
      case 1
      with longer cwd(2) show False by (auto simp: absolute_normal_iff)
    next
      case 2
      with k(2) x show False by (simp add: target path_starts_with_def)
    next
      case 3
      with prot free k(2) longer show False by (meson not_le)
    qed
  qed
  ultimately show ?thesis using k(3) by simp
qed

lemma first_opt_map_filter: "first_opt (List.map_filter f xs) = Some y \<Longrightarrow> \<exists>x \<in> set xs. f x = Some y"
  by (induction xs) (auto simp: first_opt_def map_filter_simps split: option.splits)

lemma workspace_metadata_allowed:
  assumes cwd: "env_absolute env cwd = Some c" "absolute_normal c"
    and target: "target = c @ Normal x # rest" and x: "\<not> is_protected_metadata_name x"
    and cand: "resolve_candidate_path env p cwd = Some target"
    and places: "\<And>t. writable_place env roots et es t \<Longrightarrow> path_starts_with t c \<Longrightarrow> path_starts_with target t \<Longrightarrow> t = c"
  shows "\<not> is_metadata_write_denied env (fs_workspace_write env roots et es) p cwd"
proof -
  let ?policy = "fs_workspace_write env roots et es"
  let ?es = "resolved_entries_with_cwd env ?policy cwd"
  from workspace_resolved [OF cwd, of roots et es] have
    writes: "\<forall>e. resolved_access e = WriteAccess \<longrightarrow>
      (e \<in> set ?es \<longleftrightarrow> resolved_path e = c \<or> writable_place env roots et es (resolved_path e))"
    by auto
  have "has_explicit_write_entry_for_metadata_path env ?policy m target cwd"
    if child: "metadata_child_of_writable_root env ?policy target cwd = Some (m, n)" for m n
  proof -
    obtain e fc rel where e: "e \<in> set ?es" "resolved_access e = WriteAccess"
      "path_strip_prefix target (resolved_path e) = Some rel" "first_opt rel = Some fc"
      "metadata_path_name (component_name fc) = Some n" "m = abs_join (env_home env) (resolved_path e) n"
      using first_opt_map_filter [OF child [unfolded metadata_child_of_writable_root_def]]
      by (auto simp: can_write_def bind_eq_Some_conv)
    have rel: "target = resolved_path e @ rel" "rel \<noteq> []" "hd rel = fc"
      using e(3,4) by (auto simp: path_strip_prefix_def path_starts_with_def first_opt_def
          split: if_splits list.splits) (metis append_take_drop_id)
    have prot: "is_protected_metadata_name n" "component_name fc = n"
      using e(5) by (auto simp: metadata_path_name_eq split: if_splits)
    have pre: "prefix c target" "prefix (resolved_path e) target" by (simp add: target) (simp add: rel(1))
    have above: "length (resolved_path e) < length c"
    proof (rule ccontr)
      assume "\<not> length (resolved_path e) < length c"
      then have "path_starts_with (resolved_path e) c"
        using prefix_length_prefix [OF pre] by (simp add: starts_with_prefix)
      moreover have "resolved_path e = c \<or> writable_place env roots et es (resolved_path e)" using e(1,2) writes by blast
      moreover have "path_starts_with target (resolved_path e)" using pre(2) by (simp add: starts_with_prefix)
      ultimately have "resolved_path e = c" using places by blast
      then have "fc = Normal x" using rel target by auto
      with prot x show False by simp
    qed
    obtain zs where zs: "c = resolved_path e @ zs"
      using prefix_length_prefix [OF pre(2,1)] above by (auto simp: prefix_def)
    with above obtain d ds where c: "c = resolved_path e @ d # ds" by (cases zs) auto
    then have d: "d = fc" using rel target by (cases rel) auto
    have normal: "absolute_normal (resolved_path e)" if "resolved_path e \<noteq> []"
      using cwd(2) c that by (cases "resolved_path e") (auto simp: absolute_normal_iff)
    have ne: "resolved_path e \<noteq> []"
    proof
      assume "resolved_path e = []"
      then have "d = RootDir" using c cwd(2) by (auto simp: absolute_normal_iff)
      with d prot show False by (auto simp: is_protected_metadata_name_def PROTECTED_METADATA_PATH_NAMES_def lit_def)
    qed
    have "m = resolved_path e @ [Normal n]"
      using e(6) join_metadata [OF normal [OF ne]] prot(1) by (simp add: abs_join_def is_protected_iff)
    moreover have "is_normal d" using cwd(2) c ne by (cases "resolved_path e") (auto simp: absolute_normal_iff)
    then have "d = Normal n" using d prot(2) by (cases d) auto
    ultimately have "path_starts_with c m" using c by (simp add: path_starts_with_def)
    moreover have "\<lparr>resolved_path = c, resolved_access = WriteAccess\<rparr> \<in> set ?es" using writes by simp
    moreover have "path_starts_with target c" by (simp add: target path_starts_with_def)
    ultimately show ?thesis
      by (auto simp: has_explicit_write_entry_for_metadata_path_def list_ex_iff can_write_def
          intro!: bexI [of _ "\<lparr>resolved_path = c, resolved_access = WriteAccess\<rparr>"])
  qed
  then show ?thesis by (auto simp: is_metadata_write_denied_def cand split: option.splits prod.splits)
qed

section \<open>Properties\<close>



text \<open>
  C40. A legacy policy survives the conversion to a permission profile and back, for any working
  directory, if its writable roots are distinct and do not repeat the working directory; the
  conversion never panics.
\<close>

theorem legacy_policy_roundtrip:
  assumes "separate_roots env cwd policy"
  shows "\<exists>profile. profile_from_legacy_sandbox_policy env policy = Some profile \<and>
    profile_to_legacy_sandbox_policy env profile cwd = Inr policy \<and>
    profile_network_sandbox_policy profile = network_from_legacy policy"
proof (cases policy)
  case (WorkspaceWrite roots access et es)
  let ?fs = "fs_workspace_write env roots et es"
  have "managed_from_sandbox_policy ?fs = Some (ManagedRestricted (sandbox_entries ?fs) None)"
    "managed_to_sandbox_policy (ManagedRestricted (sandbox_entries ?fs) None) = ?fs"
    by (simp_all add: managed_from_sandbox_policy_def fs_workspace_write_def fs_restricted_def)
  with WorkspaceWrite assms show ?thesis
    by (simp add: profile_from_legacy_sandbox_policy_def from_runtime_permissions_with_enforcement_def
        network_from_legacy_def to_legacy_workspace separate_roots_def)
next
  case (LegacyExternalSandbox access)
  then show ?thesis
    by (cases access) (simp_all add: profile_from_legacy_sandbox_policy_def legacy_network_access_def
        from_runtime_permissions_with_enforcement_def network_from_legacy_def fs_external_sandbox_def)
qed (simp_all add: profile_from_legacy_sandbox_policy_def from_runtime_permissions_with_enforcement_def
    network_from_legacy_def managed_from_sandbox_policy_def fs_unrestricted_def fs_restricted_def
    to_legacy_sandbox_policy_def entry_new_def empty_scan_def has_full_disk_write_access_def
    has_root_access_def can_write_def)

theorem legacy_policy_roundtrip_witness:
  "\<exists>profile. profile_from_legacy_sandbox_policy sample_sandbox_env (WorkspaceWrite [[RootDir, Normal (lit ''r'')]] True False True) =
       Some profile \<and>
     profile_to_legacy_sandbox_policy sample_sandbox_env profile (lit ''/w'') =
       Inr (WorkspaceWrite [[RootDir, Normal (lit ''r'')]] True False True)"
proof -
  have "separate_roots sample_sandbox_env (lit ''/w'') (WorkspaceWrite [[RootDir, Normal (lit ''r'')]] True False True)"
    by code_simp
  from legacy_policy_roundtrip [OF this] show ?thesis by blast
qed

end
