(* ===== verification/Spec2Isabelle.thy ===== *)
theory Spec2Isabelle
  imports Apply_Patch Policy_Amend Command_Safety Assistant_Text Head_Tail_Buffer History Sandbox_Profiles
begin

text \<open>
  A verification development for the deciding parts of the Rust agent of this repository
  (\<^verbatim>\<open>src/codex/codex-rs\<close>, to which all file names below are relative).

  \<^bold>\<open>The program.\<close> A language model proposes patches and shell commands and streams text; the agent
  parses patches and applies them to files, decides with a rule language and built-in heuristics
  which commands may run, keeps the file system and the network inside permissions, shows the
  streamed text without its hidden parts, and keeps the history that becomes the next prompt.

  \<^bold>\<open>Conventions.\<close> A \<^verbatim>\<open>String\<close> is the list of its code points (\<open>rstring\<close>), with byte lengths and
  character boundaries written out where the code uses byte offsets. A struct is a record, an enum
  a datatype, a \<^verbatim>\<open>Result\<close> a sum with the error on the left. \<^verbatim>\<open>usize\<close> is \<open>nat\<close> with saturation
  written out, \<^verbatim>\<open>i64\<close> is \<open>int\<close> with wrapping written out. Where the code can panic the model returns
  \<open>None\<close>, and theorems state when that does not happen. Operations on mutable state return the new
  state. Code outside the sources is an argument of the definitions that use it; what the theorems
  need of it is a named predicate (\<open>multimap_laws\<close>, \<open>bash_grammar\<close>, \<open>append_file\<close>, \<open>process_ok\<close>),
  and each theorem that has such a hypothesis is applied to a concrete instance.

  \<^bold>\<open>Theories and the code they model.\<close>

  \<^descr> \<open>Rust_Prelude\<close>: the string, slice and integer operations of the standard library in use, and
    the lemmas on them that the other theories share.

  \<^descr> \<open>Patch_Parser\<close>, \<open>Patch_Grammar\<close>: \<^verbatim>\<open>apply-patch/src/streaming_parser.rs\<close> and \<^verbatim>\<open>parser.rs\<close>. The state
    of the parser is a record with the source's modes. The result does not depend on how the text
    is cut into deltas; parsing what the grammar in the documentation prints gives it back.

  \<^descr> \<open>Seek_Sequence\<close>, \<open>Replacements\<close>: \<^verbatim>\<open>seek_sequence.rs\<close> and the pure part of \<^verbatim>\<open>apply-patch/src/lib.rs\<close>.
    The search is sound and complete for each of its four comparisons (the locale \<open>looser_key\<close> relates
    them); applying replacements from the back refines replacing pieces in order.

  \<^descr> \<open>Apply_Files\<close>, \<open>Apply_Patch\<close>: the rest of \<^verbatim>\<open>lib.rs\<close> and \<^verbatim>\<open>invocation.rs\<close>. The file system is a
    parameter. The recorded delta is exactly what changed, also when a later hunk fails, and the
    action shown for approval is the one that is applied.

  \<^descr> \<open>Absolute_Path\<close>: \<^verbatim>\<open>utils/absolute-path/src\<close>. Paths are lists of components; every constructor
    gives an absolute path without \<^verbatim>\<open>.\<close> and \<^verbatim>\<open>..\<close>.

  \<^descr> \<open>Exec_Rules\<close>, \<open>Exec_Policy\<close>, \<open>Policy_Parser\<close>, \<open>Policy_Amend\<close>: \<^verbatim>\<open>execpolicy/src\<close>. The index of
    rules loses nothing (locale \<open>command_rule\<close>), the most restrictive match decides, overlays only
    add, an accepted policy file meets its own examples, and a rule is appended to a file once.

  \<^descr> \<open>Shell_Parse\<close>, \<open>Command_Safety\<close>: \<^verbatim>\<open>shell-command/src\<close>. Syntax trees are a datatype and their parser
    a parameter. A command that runs without approval is never one flagged as dangerous.

  \<^descr> \<open>Permissions\<close>, \<open>Sandbox_Profiles\<close>: \<^verbatim>\<open>protocol/src/permissions.rs\<close>, with \<^verbatim>\<open>SandboxPolicy\<close> and
    \<^verbatim>\<open>WritableRoot\<close> of \<^verbatim>\<open>protocol.rs\<close> and \<^verbatim>\<open>PermissionProfile\<close> of \<^verbatim>\<open>models.rs\<close>. The most specific entry
    decides, a denial winning ties; a report of whole-disk write access is true of every path if
    \<^verbatim>\<open>/tmp\<close> exists; workspace policies protect exactly the metadata directories; legacy policies
    convert back and forth.

  \<^descr> \<open>Stream_Text\<close>, \<open>Hidden_Tags\<close>, \<open>Tagged_Lines\<close>, \<open>Assistant_Text\<close>: \<^verbatim>\<open>utils/stream-parser/src\<close>. The
    trait of the parsers is the locale \<open>stream_text_parser\<close>, whose law is that output does not depend
    on the cutting of the input; each parser interprets it. Streaming equals two passes over the
    whole text, and text with tags is taken apart exactly.

  \<^descr> \<open>Head_Tail_Buffer\<close>: \<^verbatim>\<open>core/src/unified_exec/head_tail_buffer.rs\<close>. The buffer holds the first and the
    last bytes of what was pushed, within its budgets.

  \<^descr> \<open>String_Utils\<close>, \<open>Output_Truncation\<close>: \<^verbatim>\<open>utils/string/src\<close>, \<^verbatim>\<open>utils/output-truncation/src/lib.rs\<close> and
    \<^verbatim>\<open>TruncationPolicy\<close>. Truncation keeps the longest ends within the budget and counts what is lost.

  \<^descr> \<open>Response_Items\<close>, \<open>Normalize\<close>, \<open>World_State\<close>, \<open>History\<close>: conversation items
    (\<^verbatim>\<open>protocol/src/models.rs\<close>), \<^verbatim>\<open>core/src/context_manager\<close> and \<^verbatim>\<open>core/src/context/world_state/mod.rs\<close>. A
    prompt pairs every call with an output; rolling back drops whole turns; a merge patch between two
    snapshots leads from one to the other; token counts add up modulo the width of the integers.

  \<^bold>\<open>Bounds and termination.\<close> Recursion is structural or has a termination proof by the size of a
  tree or text. The loop of the tag parser is a partial function with value \<open>None\<close> if it does not
  return, and is shown to return. The depth of nested wrappers in the search for dangerous commands
  is the bound 8 of the code. Ancestors of a path are taken as often as the path has components,
  which reaches the root. There is no other fuel.

  \<^bold>\<open>Not modelled.\<close> Input and output, processes, sockets, databases, user interfaces and wire formats:
  their behaviour is that of the operating system and of libraries. The asynchronous orchestration
  of sessions and tools, and the manager in \<^verbatim>\<open>core/src/exec_policy.rs\<close> that combines the policy, the
  heuristics and the sandbox; its parts are modelled one by one. Windows and PowerShell branches, as
  the model is the Unix configuration. In the modelled files: regular expressions and JSON helpers of
  the string utilities, caches of token estimates, the sections of the world state and the hashing of
  fragments. The desktop application in Go, the frontend and the SDKs are other programs.
\<close>

end
